(* ===== verification/Prelude.thy ===== *)
theory Prelude
  imports Main "HOL-Library.Word" "HOL-Library.FSet" "HOL-Library.Finite_Map"
begin

text \<open>
  Shared vocabulary of the development: the machine integers of the source, the network
  addresses and the \<open>io::Error\<close> values of the Rust standard library as far as \<open>pea2pea\<close> uses
  them, the finite maps and sets that stand for \<open>HashMap\<close> and \<open>HashSet\<close>, and the generic
  lemmas (cardinalities of updated maps, counting, reachable states of a step relation) that
  the component theories share.
\<close>

unbundle bit_operations_syntax

named_theorems fm_simps \<open>sizes and domains of updated finite maps and sets\<close>

named_theorems sa_simps \<open>projections of socket addresses\<close>

section \<open>Machine integers\<close>

type_synonym u16 = "16 word"
type_synonym u32 = "32 word"
type_synonym u64 = "64 word"
type_synonym u128 = "128 word"

text \<open>\<open>usize::saturating_sub\<close> on unbounded sizes.\<close>

definition saturating_sub :: "nat \<Rightarrow> nat \<Rightarrow> nat" where
  "saturating_sub a b = (if b \<le> a then a - b else 0)"

lemma saturating_sub_eq [simp]: "saturating_sub a b = a - b"
  by (simp add: saturating_sub_def)

lemma add_diff_le:
  "x + y \<le> z \<Longrightarrow> x + (y - d) \<le> (z :: nat)" "x + y \<le> z \<Longrightarrow> x - d + y \<le> (z :: nat)"
  by simp_all

text \<open>An atomic \<open>fetch_add\<close> on a \<open>u64\<close> wraps around; \<open>usize as u64\<close> is the identity on
  64-bit targets and is written \<open>of_nat\<close> here.\<close>

definition fetch_add :: "u64 \<Rightarrow> nat \<Rightarrow> u64" where
  "fetch_add c n = c + of_nat n"

lemma unat_fetch_add: "unat (fetch_add c n) = (unat c + n) mod 2 ^ 64"
proof -
  have "unat (fetch_add c n) = (unat c + n mod 2 ^ 64) mod 2 ^ 64"
    by (simp add: fetch_add_def unat_word_ariths unsigned_of_nat take_bit_eq_mod)
  then show ?thesis
    by (simp add: mod_add_right_eq)
qed

lemma fetch_add_0 [simp]: "fetch_add c 0 = c"
  by (simp add: fetch_add_def)

lemma fetch_add_fetch_add: "fetch_add (fetch_add c m) n = fetch_add c (m + n)"
  by (simp add: fetch_add_def add.assoc)

text \<open>Identifiers handed out by a wrapping 64-bit counter are pairwise distinct for the first
  \<open>2 ^ 64\<close> allocations.\<close>

lemma of_nat_u64_inj:
  assumes "m < 2 ^ 64" and "n < 2 ^ 64" and "(of_nat m :: u64) = of_nat n"
  shows "m = n"
proof -
  from assms(3) have "unat (of_nat m :: u64) = unat (of_nat n :: u64)"
    by simp
  with assms(1,2) show ?thesis
    by (simp add: unsigned_of_nat take_bit_eq_mod)
qed

lemma of_nat_u64_fresh:
  assumes "n < 2 ^ 64"
  shows "(of_nat n :: u64) \<notin> of_nat ` {..<n}"
proof
  assume "(of_nat n :: u64) \<in> of_nat ` {..<n}"
  then obtain m where m: "m < n" "(of_nat n :: u64) = of_nat m"
    by auto
  then have "n = m"
    using assms of_nat_u64_inj [of n m] by simp
  with m(1) show False
    by simp
qed

section \<open>Network addresses\<close>

datatype ip_addr = V4 u32 | V6 u128

text \<open>\<open>SocketAddrV6\<close> also carries a flow label and a scope id, and both take part in its
  equality and hash.\<close>

datatype socket_addr =
    SockV4 u32 u16
  | SockV6 u128 u16 u32 u32

fun sa_ip :: "socket_addr \<Rightarrow> ip_addr" where
  "sa_ip (SockV4 i _) = V4 i"
| "sa_ip (SockV6 i _ _ _) = V6 i"

fun sa_port :: "socket_addr \<Rightarrow> u16" where
  "sa_port (SockV4 _ p) = p"
| "sa_port (SockV6 _ p _ _) = p"

text \<open>\<open>SocketAddr::from((ip, port))\<close>: flow label and scope id are zero.\<close>

fun sa_from :: "ip_addr \<Rightarrow> u16 \<Rightarrow> socket_addr" where
  "sa_from (V4 i) p = SockV4 i p"
| "sa_from (V6 i) p = SockV6 i p 0 0"

lemma sa_ip_from [simp, sa_simps]: "sa_ip (sa_from i p) = i"
  by (cases i) simp_all

lemma sa_port_from [simp, sa_simps]: "sa_port (sa_from i p) = p"
  by (cases i) simp_all

text \<open>\<open>IpAddr::to_canonical\<close>: an IPv4-mapped IPv6 address \<open>::ffff:a.b.c.d\<close> is folded to its
  IPv4 form, everything else is unchanged.\<close>

fun to_canonical :: "ip_addr \<Rightarrow> ip_addr" where
  "to_canonical (V4 i) = V4 i"
| "to_canonical (V6 i) = (if drop_bit 32 i = 0xFFFF then V4 (ucast i) else V6 i)"

lemma to_canonical_idem [simp]: "to_canonical (to_canonical i) = to_canonical i"
  by (cases i) auto

fun is_unspecified :: "ip_addr \<Rightarrow> bool" where
  "is_unspecified (V4 i) \<longleftrightarrow> i = 0"
| "is_unspecified (V6 i) \<longleftrightarrow> i = 0"

text \<open>\<open>IpAddr::is_loopback\<close>: \<open>127.0.0.0/8\<close> and \<open>::1\<close>; an IPv4-mapped loopback is not one.\<close>

fun is_loopback :: "ip_addr \<Rightarrow> bool" where
  "is_loopback (V4 i) \<longleftrightarrow> drop_bit 24 i = 127"
| "is_loopback (V6 i) \<longleftrightarrow> i = 1"

section \<open>Errors\<close>

text \<open>The \<open>io::ErrorKind\<close>s the library itself produces or tests for; every other kind an
  operating-system call may return is \<open>KindOs\<close> with its number.\<close>

datatype error_kind =
    AddrInUse | AddrNotAvailable | AlreadyExists | BrokenPipe | ConnectionAborted
  | ConnectionReset | InvalidData | InvalidInput | NotConnected | Other | QuotaExceeded | TimedOut
  | Unsupported | KindOs nat

text \<open>The payload of an error: none, a message (only its identity matters, the texts are not
  part of the contract), or the \<open>ShuttingDown\<close> marker type of \<open>node.rs\<close>.\<close>

datatype error_payload = NoPayload | Message string | ShuttingDown

datatype io_error = IoError (err_kind: error_kind) (err_payload: error_payload)

type_synonym 'a io_result = "io_error + 'a"

fun is_ok :: "'a io_result \<Rightarrow> bool" where
  "is_ok (Inr _) \<longleftrightarrow> True"
| "is_ok (Inl _) \<longleftrightarrow> False"

section \<open>Finite maps and sets\<close>

text \<open>\<open>HashMap::len\<close>.\<close>

definition fmlen :: "('k, 'v) fmap \<Rightarrow> nat" where
  "fmlen m = fcard (fmdom m)"

lemma fmlen_empty [simp, fm_simps]: "fmlen fmempty = 0"
  by (simp add: fmlen_def)

lemma fmlen_upd [fm_simps]:
  "fmlen (fmupd k v m) = (if k |\<in>| fmdom m then fmlen m else Suc (fmlen m))"
  by (simp add: fmlen_def fcard_finsert_if)

lemma fmlen_upd_new [simp]: "fmlookup m k = None \<Longrightarrow> fmlen (fmupd k v m) = Suc (fmlen m)"
  by (simp add: fmlen_upd fmdom_notI)

lemma fmlen_upd_old [simp]: "fmlookup m k = Some w \<Longrightarrow> fmlen (fmupd k v m) = fmlen m"
  by (simp add: fmlen_upd fmdomI)

lemma fmlen_drop [fm_simps]:
  "fmlen (fmdrop k m) = (if k |\<in>| fmdom m then fmlen m - 1 else fmlen m)"
  by (auto simp: fmlen_def fcard_fminus_finsert)

lemma fmlen_drop_old [simp]: "fmlookup m k = Some v \<Longrightarrow> fmlen (fmdrop k m) = fmlen m - 1"
  by (simp add: fmlen_drop fmdomI)

lemma fmlen_pos: "fmlookup m k = Some v \<Longrightarrow> 0 < fmlen m"
  by (metis fmlen_upd_old fmlen_def fcard_0_eq fmdomI fempty_iff neq0_conv)

lemma fmlen_0_iff [simp]: "fmlen m = 0 \<longleftrightarrow> m = fmempty"
  by (metis fmlen_empty fmlen_pos fmap_ext fmempty_lookup less_numeral_extra(3) option.exhaust)

lemma fmlen_card: "fmlen m = card (fmdom' m)"
  by (simp add: fmlen_def fcard.rep_eq fmdom'_alt_def)

lemma fm_fresh: "\<exists>k :: nat. fmlookup m k = None"
  using ex_new_if_finite [OF infinite_UNIV_nat, of "fmdom' m"] by (auto simp: fmlookup_dom'_iff)

lemma fmdrop_upd [simp]: "fmdrop k (fmupd k v m) = fmdrop k m"
  by (rule fmap_ext) simp

lemma fmupd_twice [simp]: "fmupd k v (fmupd k w m) = fmupd k v m"
  by (rule fmap_ext) simp

lemma fmdrop_new: "fmlookup m k = None \<Longrightarrow> fmdrop k m = m"
  by (rule fmap_ext) auto

lemma fmmap_upd [simp]: "fmmap f (fmupd k v m) = fmupd k (f v) (fmmap f m)"
  by (rule fmap_ext) simp

lemma fmupd_id: "fmlookup m k = Some v \<Longrightarrow> fmupd k v m = m"
  by (rule fmap_ext) auto

lemma fmlen_fmmap [simp]: "fmlen (fmmap f m) = fmlen m"
  by (simp add: fmlen_def)

text \<open>The number of entries of a map that satisfy a predicate.\<close>

definition fmcount :: "('k \<Rightarrow> 'v \<Rightarrow> bool) \<Rightarrow> ('k, 'v) fmap \<Rightarrow> nat" where
  "fmcount P m = card {k. \<exists>v. fmlookup m k = Some v \<and> P k v}"

lemma fmcount_finite: "finite {k. \<exists>v. fmlookup m k = Some v \<and> P k v}"
  by (rule finite_subset [of _ "fmdom' m"]) (auto simp: fmlookup_dom'_iff)

lemma fmcount_empty [simp, fm_simps]: "fmcount P fmempty = 0"
  by (simp add: fmcount_def)

lemma fmcount_True: "fmcount (\<lambda>_ _. True) m = fmlen m"
  by (simp add: fmcount_def fmlen_card fmdom'_def dom_def)

lemma fmcount_drop:
  "fmcount P m = fmcount P (fmdrop k m)
     + (case fmlookup m k of None \<Rightarrow> 0 | Some v \<Rightarrow> if P k v then 1 else 0)"
proof -
  let ?S = "\<lambda>m. {k. \<exists>v. fmlookup m k = Some v \<and> P k v}"
  have "?S (fmdrop k m) = ?S m - {k}" by auto
  then have "card (?S (fmdrop k m)) = (if k \<in> ?S m then card (?S m) - 1 else card (?S m))"
    by (simp add: card_Diff_singleton_if)
  moreover have "k \<in> ?S m \<Longrightarrow> 0 < card (?S m)"
    using fmcount_finite [of m P] by (auto simp: card_gt_0_iff)
  ultimately show ?thesis
    by (auto simp: fmcount_def split: option.split)
qed

lemma fmcount_upd [fm_simps]:
  "fmcount P (fmupd k v m) = fmcount P (fmdrop k m) + (if P k v then 1 else 0)"
proof -
  have "fmdrop k (fmupd k v m) = fmdrop k m"
    by (rule fmap_ext) simp
  then show ?thesis
    using fmcount_drop [of P "fmupd k v m" k] by simp
qed

lemma fmcount_upd_new [simp]:
  "fmlookup m k = None \<Longrightarrow> fmcount P (fmupd k v m) = fmcount P m + (if P k v then 1 else 0)"
  using fmcount_drop [of P m k] by (simp add: fmcount_upd)

lemma fmcount_upd_gain [simp]:
  "fmlookup m k = Some w \<Longrightarrow> \<not> P k w \<Longrightarrow>
   fmcount P (fmupd k v m) = fmcount P m + (if P k v then 1 else 0)"
  using fmcount_drop [of P m k] by (simp add: fmcount_upd)

lemma fmcount_upd_loss [simp]:
  "fmlookup m k = Some w \<Longrightarrow> \<not> P k v \<Longrightarrow>
   fmcount P (fmupd k v m) = fmcount P m - (if P k w then 1 else 0)"
  using fmcount_drop [of P m k] by (simp add: fmcount_upd)

lemma fmcount_upd_same [simp]:
  "fmlookup m k = Some w \<Longrightarrow> P k v = P k w \<Longrightarrow> fmcount P (fmupd k v m) = fmcount P m"
  using fmcount_drop [of P m k] by (simp add: fmcount_upd)

lemma fmcount_drop_old [simp]:
  "fmlookup m k = Some w \<Longrightarrow> fmcount P (fmdrop k m) = fmcount P m - (if P k w then 1 else 0)"
  using fmcount_drop [of P m k] by simp

lemma fmcount_pos: "fmlookup m k = Some w \<Longrightarrow> P k w \<Longrightarrow> 0 < fmcount P m"
  using fmcount_drop [of P m k] by (simp del: fmcount_drop_old)

text \<open>At most one entry is counted.\<close>

lemma fmcount_unique:
  assumes "fmcount P m \<le> 1" and "fmlookup m k = Some v" and "P k v"
    and "fmlookup m k' = Some v'" and "P k' v'"
  shows "k = k'"
proof (rule ccontr)
  assume "k \<noteq> k'"
  with assms(4,5) have "0 < fmcount P (fmdrop k m)"
    by (intro fmcount_pos [of _ k' v']) auto
  moreover have "fmcount P m = fmcount P (fmdrop k m) + 1"
    using assms(2,3) fmcount_drop [of P m k] by (simp del: fmcount_drop_old)
  ultimately show False
    using assms(1) by linarith
qed

lemma fmcount_mono:
  assumes "\<And>k v. fmlookup m k = Some v \<Longrightarrow> P k v \<Longrightarrow> Q k v"
  shows "fmcount P m \<le> fmcount Q m"
  unfolding fmcount_def using assms by (intro card_mono fmcount_finite) auto

lemma fmcount_cong:
  assumes "\<And>k v. fmlookup m k = Some v \<Longrightarrow> P k v \<longleftrightarrow> Q k v"
  shows "fmcount P m = fmcount Q m"
  using assms by (intro antisym fmcount_mono) auto

lemma fmcount_0_iff: "fmcount P m = 0 \<longleftrightarrow> (\<forall>k v. fmlookup m k = Some v \<longrightarrow> \<not> P k v)"
  using fmcount_finite [of m P] by (auto simp: fmcount_def)

lemma fmcount_less:
  assumes "\<And>k v. fmlookup m k = Some v \<Longrightarrow> P k v \<Longrightarrow> Q k v"
    and "fmlookup m k = Some v" and "Q k v" and "\<not> P k v"
  shows "fmcount P m < fmcount Q m"
proof -
  have "{k. \<exists>v. fmlookup m k = Some v \<and> P k v} \<subset> {k. \<exists>v. fmlookup m k = Some v \<and> Q k v}"
  proof (rule psubsetI)
    show "{k. \<exists>v. fmlookup m k = Some v \<and> P k v} \<noteq> {k. \<exists>v. fmlookup m k = Some v \<and> Q k v}"
      using assms(2-4) by (force dest!: equalityD2 [THEN subsetD, of _ _ k])
  qed (use assms(1) in auto)
  then show ?thesis
    unfolding fmcount_def by (intro psubset_card_mono fmcount_finite)
qed

text \<open>Entries with distinct images are counted by the images.\<close>

lemma fmcount_image:
  assumes "\<And>k k' v v'. fmlookup m k = Some v \<Longrightarrow> fmlookup m k' = Some v' \<Longrightarrow> P k v \<Longrightarrow> P k' v'
      \<Longrightarrow> f v = f v' \<Longrightarrow> k = k'"
    and "\<And>a. a |\<in>| A \<longleftrightarrow> (\<exists>k v. fmlookup m k = Some v \<and> P k v \<and> f v = a)"
  shows "fcard A = fmcount P m"
proof -
  let ?S = "{k. \<exists>v. fmlookup m k = Some v \<and> P k v}"
  have "fset A = (\<lambda>k. f (the (fmlookup m k))) ` ?S"
    using assms(2) by (force simp: image_iff)
  moreover have "inj_on (\<lambda>k. f (the (fmlookup m k))) ?S"
    using assms(1) by (auto intro!: inj_onI)
  ultimately show ?thesis
    by (simp add: fmcount_def fcard.rep_eq card_image)
qed

end
