(* ===== verification/Config.thy ===== *)
theory Config
  imports Prelude
begin

text \<open>
  The node's configuration (\<open>pea2pea/src/config.rs\<close>): the record of its directives with the
  integer widths of the source, the default values, and the effective limits \<open>Node::new\<close> derives.
\<close>

record config =
  cfg_name :: "string option"
  cfg_listener_addr :: "socket_addr option"
  cfg_listener_backlog :: u32
  cfg_reuse_listener_port :: bool
  cfg_max_connections :: u16
  cfg_max_connections_per_ip :: u16
  cfg_max_connecting :: u16
  cfg_connection_timeout_ms :: u16

text \<open>\<open>Config::default\<close>; the argument says whether the crate is built with its \<open>test\<close> feature.\<close>

definition config_default :: "bool \<Rightarrow> config" where
  "config_default test_feature = \<lparr>
     cfg_name = None,
     cfg_listener_addr =
       Some (if test_feature then sa_from (V4 0x7F000001) 0 else sa_from (V4 0) 0),
     cfg_listener_backlog = 128,
     cfg_reuse_listener_port = False,
     cfg_max_connections = 100,
     cfg_max_connections_per_ip = (if test_feature then 100 else 1),
     cfg_max_connecting = 100,
     cfg_connection_timeout_ms = 1000\<rparr>"

text \<open>The limits as sizes (\<open>as usize\<close> in the source).\<close>

abbreviation max_connections :: "config \<Rightarrow> nat" where
  "max_connections c \<equiv> unat (cfg_max_connections c)"

abbreviation max_connections_per_ip :: "config \<Rightarrow> nat" where
  "max_connections_per_ip c \<equiv> unat (cfg_max_connections_per_ip c)"

abbreviation max_connecting :: "config \<Rightarrow> nat" where
  "max_connecting c \<equiv> unat (cfg_max_connecting c)"

text \<open>A configuration a running node can have: no limit is zero and the setup budget does not
  exceed the connection limit.\<close>

definition config_ok :: "config \<Rightarrow> bool" where
  "config_ok c \<longleftrightarrow>
     0 < max_connections c \<and> 0 < max_connections_per_ip c \<and> 0 < max_connecting c
     \<and> max_connecting c \<le> max_connections c"

lemma config_default_ok: "config_ok (config_default test_feature)"
  by (simp add: config_ok_def config_default_def)

end
