(* ===== verification/Contracts.thy ===== *)
theory Contracts
  imports Prelude "HOL-Library.Multiset"
begin

text \<open>
  The interfaces the components rely on, as locales, with the client lemmas that follow from
  the contracts alone. \<open>invariant_system\<close> is the contract of a step relation with an
  inductive invariant; \<open>ledger\<close> is the contract of a per-key reference count (charge, release,
  read); \<open>reservation\<close> is the contract of an acquisition whose guard undoes it;
  \<open>commuting_counters\<close> is the contract of relaxed atomic counters, whose final values do not
  depend on the interleaving of their updates. Every locale is interpreted on the
  definitions of the model in the theory of the component that provides them.
\<close>

section \<open>Step relations with an inductive invariant\<close>

locale invariant_system =
  fixes start :: "'s \<Rightarrow> bool"
    and step :: "'s \<Rightarrow> 's \<Rightarrow> bool"
    and inv :: "'s \<Rightarrow> bool"
  assumes inv_start: "start s \<Longrightarrow> inv s"
    and inv_step: "inv s \<Longrightarrow> step s t \<Longrightarrow> inv t"
begin

lemma inv_steps: "step\<^sup>*\<^sup>* s t \<Longrightarrow> inv s \<Longrightarrow> inv t"
  by (induction rule: rtranclp_induct) (auto intro: inv_step)

lemma inv_reachable: "start s \<Longrightarrow> step\<^sup>*\<^sup>* s t \<Longrightarrow> inv t"
  by (rule inv_steps) (auto intro: inv_start)

text \<open>A fact that one step keeps under the invariant holds along every run.\<close>

lemma stable_steps:
  assumes "\<And>s t. inv s \<Longrightarrow> step s t \<Longrightarrow> P s \<Longrightarrow> P t"
    and "step\<^sup>*\<^sup>* s t" and "inv s" and "P s"
  shows "P t"
proof -
  from assms(2) have "inv t \<and> P t"
    using assms(3,4) by (induction rule: rtranclp_induct) (auto intro: assms(1) inv_step)
  then show ?thesis ..
qed

text \<open>A quantity that no step increases is bounded by its first value along every run.\<close>

lemma antitone_steps:
  assumes "\<And>s t. inv s \<Longrightarrow> step s t \<Longrightarrow> f t \<le> (f s :: 'o :: order)"
    and "step\<^sup>*\<^sup>* s t" and "inv s"
  shows "f t \<le> f s"
  by (rule stable_steps [where P = "\<lambda>u. f u \<le> f s", OF _ assms(2,3)])
    (auto intro: order_trans assms(1))

end

section \<open>Reference-counting ledgers\<close>

datatype 'a ledger_op = Charge 'a | Release 'a

text \<open>Runs a sequence of ledger operations; \<open>None\<close> when a release fails.\<close>

primrec run_ledger ::
  "('l \<Rightarrow> 'a \<Rightarrow> 'l) \<Rightarrow> ('l \<Rightarrow> 'a \<Rightarrow> 'l option) \<Rightarrow> 'a ledger_op list \<Rightarrow> 'l \<Rightarrow> 'l option" where
  "run_ledger charge release [] l = Some l"
| "run_ledger charge release (x # xs) l =
     (case x of
        Charge a \<Rightarrow> run_ledger charge release xs (charge l a)
      | Release a \<Rightarrow>
          (case release l a of None \<Rightarrow> None | Some l' \<Rightarrow> run_ledger charge release xs l'))"

text \<open>The balance of a key after a sequence of operations, \<open>None\<close> once a key is released more
  often than it was charged.\<close>

primrec ledger_balance ::
  "('a \<Rightarrow> 'k) \<Rightarrow> 'a ledger_op list \<Rightarrow> ('k \<Rightarrow> nat) \<Rightarrow> ('k \<Rightarrow> nat) option" where
  "ledger_balance key [] b = Some b"
| "ledger_balance key (x # xs) b =
     (case x of
        Charge a \<Rightarrow> ledger_balance key xs (b(key a := Suc (b (key a))))
      | Release a \<Rightarrow>
          if b (key a) = 0 then None
          else ledger_balance key xs (b(key a := b (key a) - 1)))"

locale ledger =
  fixes charge :: "'l \<Rightarrow> 'a \<Rightarrow> 'l"
    and release :: "'l \<Rightarrow> 'a \<Rightarrow> 'l option"
    and count :: "'l \<Rightarrow> 'k \<Rightarrow> nat"
    and key :: "'a \<Rightarrow> 'k"
    and wf :: "'l \<Rightarrow> bool"
  assumes wf_charge: "wf l \<Longrightarrow> wf (charge l a)"
    and count_charge: "wf l \<Longrightarrow> count (charge l a) = (count l)(key a := Suc (count l (key a)))"
    and release_None: "wf l \<Longrightarrow> release l a = None \<longleftrightarrow> count l (key a) = 0"
    and wf_release: "wf l \<Longrightarrow> release l a = Some l' \<Longrightarrow> wf l'"
    and count_release:
      "wf l \<Longrightarrow> release l a = Some l' \<Longrightarrow> count l' = (count l)(key a := count l (key a) - 1)"
begin

lemma release_possible:
  assumes "wf l" and "0 < count l (key a)"
  obtains l' where "release l a = Some l'" and "wf l'"
    and "count l' = (count l)(key a := count l (key a) - 1)"
proof -
  from assms obtain l' where l': "release l a = Some l'"
    using release_None [of l a] by (cases "release l a") auto
  with assms(1) show thesis
    by (intro that [of l']) (auto intro: wf_release simp: count_release)
qed

lemma release_undoes_charge:
  assumes "wf l"
  obtains l' where "release (charge l a) a = Some l'" and "wf l'" and "count l' = count l"
proof -
  have "0 < count (charge l a) (key a)"
    using assms by (simp add: count_charge)
  with wf_charge [OF assms] obtain l' where
    l': "release (charge l a) a = Some l'" "wf l'"
      "count l' = (count (charge l a))(key a := count (charge l a) (key a) - 1)"
    by (rule release_possible)
  with assms show thesis
    by (intro that [of l']) (auto simp: count_charge)
qed

text \<open>A whole history of charges and releases fails exactly when some key is released more
  often than it was charged, and otherwise ends with the exact balances.\<close>

lemma run_ledger_balance:
  assumes "wf l"
  shows "map_option count (run_ledger charge release ops l) = ledger_balance key ops (count l)
     \<and> (\<forall>l'. run_ledger charge release ops l = Some l' \<longrightarrow> wf l')"
  using assms
proof (induction ops arbitrary: l)
  case Nil
  then show ?case by simp
next
  case (Cons x ops)
  show ?case
  proof (cases x)
    case (Charge a)
    with Cons.IH [OF wf_charge [OF Cons.prems]] Cons.prems show ?thesis
      by (simp add: count_charge fun_upd_def)
  next
    case (Release a)
    show ?thesis
    proof (cases "count l (key a)")
      case 0
      with Release Cons.prems have "release l a = None"
        by (simp add: release_None)
      with 0 Release show ?thesis by simp
    next
      case (Suc n)
      then have "0 < count l (key a)" by simp
      with Cons.prems obtain l' where "release l a = Some l'" "wf l'"
        "count l' = (count l)(key a := count l (key a) - 1)"
        by (rule release_possible)
      with Cons.IH [of l'] Release Suc show ?thesis by (simp add: fun_upd_def)
    qed
  qed
qed

end

section \<open>Reservations undone by their guard\<close>

locale reservation =
  fixes acquire :: "'s \<Rightarrow> 's option"
    and release :: "'s \<Rightarrow> 's"
    and wf :: "'s \<Rightarrow> bool"
    and view :: "'s \<Rightarrow> 'v"
  assumes wf_acquire: "wf s \<Longrightarrow> acquire s = Some s' \<Longrightarrow> wf s'"
    and rollback: "wf s \<Longrightarrow> acquire s = Some s' \<Longrightarrow> view (release s') = view s"
begin

text \<open>An attempt that is rolled back leaves no trace, whether or not the acquisition
  succeeded.\<close>

lemma attempt_leaves_no_trace:
  "wf s \<Longrightarrow> view (case acquire s of None \<Rightarrow> s | Some s' \<Rightarrow> release s') = view s"
  by (auto split: option.split intro: rollback)

end

section \<open>Commuting counters\<close>

locale commuting_counters =
  fixes bump :: "'e \<Rightarrow> 's \<Rightarrow> 's"
  assumes bump_commute: "bump e (bump f s) = bump f (bump e s)"
begin

lemma fold_bump_perm:
  assumes "mset es = mset fs"
  shows "fold bump es s = fold bump fs s"
proof (rule fold_permuted_eq [where P = "\<lambda>_. True", OF assms])
  show "bump x (bump y u) = bump y (bump x u)" for x y u
    by (rule bump_commute)
qed auto

end

end
