(* ===== verification/Heuristics.thy ===== *)
theory Heuristics
  imports Contracts
begin

text \<open>
  The node-level health signals (\<open>pea2pea/src/heuristics.rs\<close>): six relaxed 64-bit event
  counters, each with one registering call.
\<close>

record heuristics =
  connect_budget_rejections :: u64
  inbound_connections_rejected :: u64
  accept_errors :: u64
  handshake_timeouts :: u64
  idle_timeouts :: u64
  write_timeouts :: u64

definition heuristics_default :: heuristics where
  "heuristics_default = \<lparr>connect_budget_rejections = 0, inbound_connections_rejected = 0,
     accept_errors = 0, handshake_timeouts = 0, idle_timeouts = 0, write_timeouts = 0\<rparr>"

definition register_connect_budget_rejection :: "heuristics \<Rightarrow> heuristics" where
  "register_connect_budget_rejection h =
     h\<lparr>connect_budget_rejections := fetch_add (connect_budget_rejections h) 1\<rparr>"

definition register_inbound_rejection :: "heuristics \<Rightarrow> heuristics" where
  "register_inbound_rejection h =
     h\<lparr>inbound_connections_rejected := fetch_add (inbound_connections_rejected h) 1\<rparr>"

definition register_accept_error :: "heuristics \<Rightarrow> heuristics" where
  "register_accept_error h = h\<lparr>accept_errors := fetch_add (accept_errors h) 1\<rparr>"

definition register_handshake_timeout :: "heuristics \<Rightarrow> heuristics" where
  "register_handshake_timeout h = h\<lparr>handshake_timeouts := fetch_add (handshake_timeouts h) 1\<rparr>"

definition register_idle_timeout :: "heuristics \<Rightarrow> heuristics" where
  "register_idle_timeout h = h\<lparr>idle_timeouts := fetch_add (idle_timeouts h) 1\<rparr>"

definition register_write_timeout :: "heuristics \<Rightarrow> heuristics" where
  "register_write_timeout h = h\<lparr>write_timeouts := fetch_add (write_timeouts h) 1\<rparr>"

datatype signal =
    ConnectBudgetRejection | InboundRejection | AcceptError
  | HandshakeTimeout | IdleTimeout | WriteTimeout

fun heuristics_apply :: "signal \<Rightarrow> heuristics \<Rightarrow> heuristics" where
  "heuristics_apply ConnectBudgetRejection = register_connect_budget_rejection"
| "heuristics_apply InboundRejection = register_inbound_rejection"
| "heuristics_apply AcceptError = register_accept_error"
| "heuristics_apply HandshakeTimeout = register_handshake_timeout"
| "heuristics_apply IdleTimeout = register_idle_timeout"
| "heuristics_apply WriteTimeout = register_write_timeout"

text \<open>The public getters, as one family indexed by the signal.\<close>

fun heuristics_read :: "signal \<Rightarrow> heuristics \<Rightarrow> u64" where
  "heuristics_read ConnectBudgetRejection = connect_budget_rejections"
| "heuristics_read InboundRejection = inbound_connections_rejected"
| "heuristics_read AcceptError = accept_errors"
| "heuristics_read HandshakeTimeout = handshake_timeouts"
| "heuristics_read IdleTimeout = idle_timeouts"
| "heuristics_read WriteTimeout = write_timeouts"

lemmas register_defs =
  register_connect_budget_rejection_def register_inbound_rejection_def
  register_accept_error_def register_handshake_timeout_def
  register_idle_timeout_def register_write_timeout_def

lemma heuristics_read_apply:
  "heuristics_read x (heuristics_apply y h) =
     fetch_add (heuristics_read x h) (if x = y then 1 else 0)"
  by (cases x; cases y; simp add: register_defs)

lemma heuristics_eqI:
  "(\<And>x. heuristics_read x g = heuristics_read x h) \<Longrightarrow> g = (h :: heuristics)"
  by (rule heuristics.equality)
    (metis heuristics_read.simps(1), metis heuristics_read.simps(2),
     metis heuristics_read.simps(3), metis heuristics_read.simps(4),
     metis heuristics_read.simps(5), metis heuristics_read.simps(6), simp)

interpretation heuristics_counters: commuting_counters heuristics_apply
  by unfold_locales (rule heuristics_eqI, simp add: heuristics_read_apply)

lemma heuristics_fold_read:
  "heuristics_read x (fold heuristics_apply es h) =
     fetch_add (heuristics_read x h) (count_list es x)"
  by (induction es arbitrary: h)
    (simp_all add: heuristics_read_apply fetch_add_fetch_add)

text \<open>Every health signal counts exactly its own events, modulo \<open>2 ^ 64\<close>, and the order in which
  the tasks of the node report them does not matter.\<close>

theorem heuristics_interleaving:
  assumes "mset es = mset fs"
  shows "fold heuristics_apply es h = fold heuristics_apply fs h
    \<and> unat (heuristics_read x (fold heuristics_apply es heuristics_default))
      = count_list fs x mod 2 ^ 64"
proof -
  have zero: "heuristics_read x heuristics_default = 0"
    by (cases x) (simp_all add: heuristics_default_def)
  have "fold heuristics_apply es u = fold heuristics_apply fs u" for u
    by (rule heuristics_counters.fold_bump_perm [OF assms])
  then show ?thesis
    by (simp add: heuristics_fold_read unat_fetch_add zero)
qed

end
