(* ===== verification/Stats.thy ===== *)
theory Stats
  imports Contracts
begin

text \<open>
  The message statistics of a node or a connection (\<open>pea2pea/src/stats.rs\<close>): four relaxed 64-bit
  counters that wrap around. \<open>stats_event\<close> names the two registering calls, so that a history
  of calls made by any number of tasks is a list of events.
\<close>

record stats =
  created :: nat
  msgs_sent :: u64
  msgs_received :: u64
  bytes_sent :: u64
  bytes_received :: u64

definition stats_default :: "nat \<Rightarrow> stats" where
  "stats_default now = \<lparr>created = now, msgs_sent = 0, msgs_received = 0,
     bytes_sent = 0, bytes_received = 0\<rparr>"

definition register_sent_messages :: "nat \<Rightarrow> nat \<Rightarrow> stats \<Rightarrow> stats" where
  "register_sent_messages msgs bytes s =
     (let s1 = s\<lparr>msgs_sent := fetch_add (msgs_sent s) msgs\<rparr>
      in s1\<lparr>bytes_sent := fetch_add (bytes_sent s1) bytes\<rparr>)"

definition register_received_message :: "nat \<Rightarrow> stats \<Rightarrow> stats" where
  "register_received_message n s =
     (let s1 = s\<lparr>msgs_received := fetch_add (msgs_received s) 1\<rparr>
      in s1\<lparr>bytes_received := fetch_add (bytes_received s1) n\<rparr>)"

definition stats_sent :: "stats \<Rightarrow> u64 \<times> u64" where
  "stats_sent s = (msgs_sent s, bytes_sent s)"

definition stats_received :: "stats \<Rightarrow> u64 \<times> u64" where
  "stats_received s = (msgs_received s, bytes_received s)"

datatype stats_event = SentBatch nat nat | ReceivedMsg nat

fun stats_apply :: "stats_event \<Rightarrow> stats \<Rightarrow> stats" where
  "stats_apply (SentBatch msgs bytes) = register_sent_messages msgs bytes"
| "stats_apply (ReceivedMsg n) = register_received_message n"

text \<open>What a history adds to the sent and received totals.\<close>

fun sent_of :: "stats_event \<Rightarrow> nat \<times> nat" where
  "sent_of (SentBatch m b) = (m, b)"
| "sent_of (ReceivedMsg _) = (0, 0)"

fun received_of :: "stats_event \<Rightarrow> nat \<times> nat" where
  "received_of (SentBatch _ _) = (0, 0)"
| "received_of (ReceivedMsg b) = (1, b)"

lemma stats_apply_sent:
  "msgs_sent (stats_apply e s) = fetch_add (msgs_sent s) (fst (sent_of e))"
  "bytes_sent (stats_apply e s) = fetch_add (bytes_sent s) (snd (sent_of e))"
  by (cases e; simp add: register_sent_messages_def register_received_message_def Let_def)+

lemma stats_apply_received:
  "msgs_received (stats_apply e s) = fetch_add (msgs_received s) (fst (received_of e))"
  "bytes_received (stats_apply e s) = fetch_add (bytes_received s) (snd (received_of e))"
  by (cases e; simp add: register_sent_messages_def register_received_message_def Let_def)+

lemma stats_apply_created: "created (stats_apply e s) = created s"
  by (cases e) (simp_all add: register_sent_messages_def register_received_message_def Let_def)

lemmas stats_apply_fields = stats_apply_sent stats_apply_received stats_apply_created

lemma fetch_add_commute: "fetch_add (fetch_add c m) n = fetch_add (fetch_add c n) m"
  by (simp add: fetch_add_fetch_add add.commute)

interpretation stats_counters: commuting_counters stats_apply
  by unfold_locales
    (rule stats.equality; simp add: stats_apply_fields fetch_add_commute)

lemma stats_fold_sent:
  "stats_sent (fold stats_apply es s) =
     (fetch_add (msgs_sent s) (sum_list (map (fst \<circ> sent_of) es)),
      fetch_add (bytes_sent s) (sum_list (map (snd \<circ> sent_of) es)))"
  by (induction es arbitrary: s)
    (simp_all add: stats_sent_def stats_apply_fields fetch_add_fetch_add)

lemma stats_fold_received:
  "stats_received (fold stats_apply es s) =
     (fetch_add (msgs_received s) (sum_list (map (fst \<circ> received_of) es)),
      fetch_add (bytes_received s) (sum_list (map (snd \<circ> received_of) es)))"
  by (induction es arbitrary: s)
    (simp_all add: stats_received_def stats_apply_fields fetch_add_fetch_add)

text \<open>The statistics do not depend on how the reader and writer tasks interleave: two histories
  with the same registering calls leave the same record, and each counter is the sum of what was
  registered, modulo \<open>2 ^ 64\<close>.\<close>

lemma stats_interleaving:
  assumes "mset es = mset fs"
  shows "fold stats_apply es s = fold stats_apply fs s
    \<and> map_prod unat unat (stats_sent (fold stats_apply es (stats_default now)))
      = (sum_list (map (fst \<circ> sent_of) fs) mod 2 ^ 64, sum_list (map (snd \<circ> sent_of) fs) mod 2 ^ 64)
    \<and> map_prod unat unat (stats_received (fold stats_apply es (stats_default now)))
      = (sum_list (map (fst \<circ> received_of) fs) mod 2 ^ 64,
         sum_list (map (snd \<circ> received_of) fs) mod 2 ^ 64)"
proof -
  have "fold stats_apply es u = fold stats_apply fs u" for u
    by (rule stats_counters.fold_bump_perm [OF assms])
  then show ?thesis
    by (simp add: stats_fold_sent stats_fold_received unat_fetch_add stats_default_def)
qed

end
