(* ===== verification/Connections.thy ===== *)
theory Connections
  imports Contracts Stats
begin

text \<open>
  Connection bookkeeping (\<open>pea2pea/src/connections.rs\<close>): the connection object, the set of active
  connections, the pending set with the per-IP charges, and the guard that ties a pending
  entry to its charge. \<open>HashMap\<close> is a finite map, \<open>HashSet\<close> a finite set, a lock-protected
  section is one function on the protected state. A \<open>debug_assert\<close> that fires is the value
  \<open>None\<close> of the operations that contain one; their first argument says whether the build has
  debug assertions.
\<close>

section \<open>Sides and origins\<close>

datatype connection_side = Initiator | Responder

fun side_not :: "connection_side \<Rightarrow> connection_side" where
  "side_not Initiator = Responder"
| "side_not Responder = Initiator"

lemma side_not_involution [simp]: "side_not (side_not s) = s"
  by (cases s) simp_all

lemma side_not_neq [simp]: "side_not s \<noteq> s" "s \<noteq> side_not s"
  by (cases s; simp)+

datatype disconnect_origin =
    OriginOnConnectAbort | OriginReading | OriginShutdown | OriginUser | OriginWriting

text \<open>The error of every path that rejects work due to the node's shutdown, and the test that
  recognises it (both from \<open>node.rs\<close>).\<close>

definition shutting_down_error :: io_error where
  "shutting_down_error = IoError Other ShuttingDown"

definition shutting_down_caused :: "io_error \<Rightarrow> bool" where
  "shutting_down_caused e \<longleftrightarrow> err_payload e = ShuttingDown"

section \<open>Connections\<close>

text \<open>Streams, their halves, oneshot channels and spawned tasks are named by numbers.\<close>

type_synonym stream = nat
type_synonym task_id = nat

record connection_info =
  info_addr :: socket_addr
  info_side :: connection_side
  info_stats :: stats

record connection =
  conn_id :: u64
  conn_info :: connection_info
  conn_stream :: "stream option"
  conn_reader :: "stream option"
  conn_writer :: "stream option"
  readiness_notifier :: "nat option"
  disconnecting :: bool
  conn_tasks :: "task_id list"

text \<open>\<open>Connection::new\<close>, with the process-wide identifier counter passed in and out.\<close>

definition connection_new ::
  "u64 \<Rightarrow> nat \<Rightarrow> socket_addr \<Rightarrow> stream \<Rightarrow> connection_side \<Rightarrow> connection \<times> u64" where
  "connection_new next_id now addr strm side =
     (\<lparr>conn_id = next_id,
       conn_info = \<lparr>info_addr = addr, info_side = side, info_stats = stats_default now\<rparr>,
       conn_stream = Some strm, conn_reader = None, conn_writer = None,
       readiness_notifier = None, disconnecting = False, conn_tasks = []\<rparr>,
      fetch_add next_id 1)"

abbreviation conn_addr :: "connection \<Rightarrow> socket_addr" where
  "conn_addr c \<equiv> info_addr (conn_info c)"

abbreviation conn_side :: "connection \<Rightarrow> connection_side" where
  "conn_side c \<equiv> info_side (conn_info c)"

text \<open>\<open>Connection::drop\<close>: the tasks are aborted in the reverse order of their registration.\<close>

definition connection_drop :: "connection \<Rightarrow> task_id list" where
  "connection_drop c = rev (conn_tasks c)"

section \<open>Connection limits\<close>

record connection_limits =
  connecting :: "socket_addr fset"
  ip_counts :: "(ip_addr, nat) fmap"

definition canonical_ip :: "socket_addr \<Rightarrow> ip_addr" where
  "canonical_ip addr = to_canonical (sa_ip addr)"

definition limits_default :: connection_limits where
  "limits_default = \<lparr>connecting = {||}, ip_counts = fmempty\<rparr>"

definition limits_reserve :: "connection_limits \<Rightarrow> socket_addr \<Rightarrow> connection_limits" where
  "limits_reserve l addr =
     (let n = (case fmlookup (ip_counts l) (canonical_ip addr) of None \<Rightarrow> 0 | Some n \<Rightarrow> n)
      in \<lparr>connecting = finsert addr (connecting l),
          ip_counts = fmupd (canonical_ip addr) (n + 1) (ip_counts l)\<rparr>)"

definition limits_ip_count :: "connection_limits \<Rightarrow> socket_addr \<Rightarrow> nat" where
  "limits_ip_count l addr =
     (case fmlookup (ip_counts l) (canonical_ip addr) of None \<Rightarrow> 0 | Some n \<Rightarrow> n)"

definition limits_release_ip ::
  "bool \<Rightarrow> connection_limits \<Rightarrow> socket_addr \<Rightarrow> connection_limits option" where
  "limits_release_ip debug l addr =
     (let ip = canonical_ip addr in
      case fmlookup (ip_counts l) ip of
        Some n \<Rightarrow>
          Some (if n > 1 then l\<lparr>ip_counts := fmupd ip (n - 1) (ip_counts l)\<rparr>
                else l\<lparr>ip_counts := fmdrop ip (ip_counts l)\<rparr>)
      | None \<Rightarrow> if debug then None else Some l)"

section \<open>The connection set\<close>

text \<open>\<open>drain_notify\<close> counts the \<open>notify_waiters\<close> calls made so far.\<close>

record connections =
  active :: "(socket_addr, connection) fmap"
  limits :: connection_limits
  drain_notify :: nat

definition connections_default :: connections where
  "connections_default = \<lparr>active = fmempty, limits = limits_default, drain_notify = 0\<rparr>"

record connection_guard =
  guard_addr :: socket_addr
  guard_completed :: bool

text \<open>\<open>ConnectionGuard::drop\<close>, one section under the \<open>limits\<close> lock.\<close>

definition guard_drop :: "bool \<Rightarrow> connection_guard \<Rightarrow> connections \<Rightarrow> connections option" where
  "guard_drop debug g cs =
     (let l = limits cs; l1 = l\<lparr>connecting := connecting l |-| {|guard_addr g|}\<rparr>
      in if \<not> guard_completed g
         then map_option (\<lambda>l2. cs\<lparr>limits := l2\<rparr>) (limits_release_ip debug l1 (guard_addr g))
         else Some (cs\<lparr>limits := l1\<rparr>))"

text \<open>\<open>Connections::add\<close>: first the section under the \<open>active\<close> write lock, which checks the
  shutdown flag, inserts the connection and marks the guard completed; then, after the lock
  is released, the drop of the guard.\<close>

definition add_active ::
  "bool \<Rightarrow> connection \<Rightarrow> connection_guard \<Rightarrow> connections
     \<Rightarrow> connection_guard io_result \<times> connections" where
  "add_active underway conn g cs =
     (if underway then (Inl shutting_down_error, cs)
      else (Inr (g\<lparr>guard_completed := True\<rparr>),
            cs\<lparr>active := fmupd (conn_addr conn) conn (active cs)\<rparr>))"

definition connections_add ::
  "bool \<Rightarrow> connection \<Rightarrow> connection_guard \<Rightarrow> bool \<Rightarrow> connections
     \<Rightarrow> (unit io_result \<times> connections) option" where
  "connections_add debug conn g underway cs =
     (case add_active underway conn g cs of
        (Inl e, cs1) \<Rightarrow> map_option (\<lambda>cs2. (Inl e, cs2)) (guard_drop debug g cs1)
      | (Inr g', cs1) \<Rightarrow> map_option (\<lambda>cs2. (Inr (), cs2)) (guard_drop debug g' cs1))"

definition connections_get_info :: "connections \<Rightarrow> socket_addr \<Rightarrow> connection_info option" where
  "connections_get_info cs addr = map_option conn_info (fmlookup (active cs) addr)"

definition connections_infos :: "connections \<Rightarrow> (socket_addr, connection_info) fmap" where
  "connections_infos cs = fmmap conn_info (active cs)"

definition connections_is_connected :: "connections \<Rightarrow> socket_addr \<Rightarrow> bool" where
  "connections_is_connected cs addr \<longleftrightarrow> fmlookup (active cs) addr \<noteq> None"

definition connections_remove :: "socket_addr \<Rightarrow> connections \<Rightarrow> connection option \<times> connections" where
  "connections_remove addr cs =
     (let removed = fmlookup (active cs) addr;
          cs1 = cs\<lparr>active := fmdrop addr (active cs)\<rparr>
      in (removed,
          if removed \<noteq> None then cs1\<lparr>drain_notify := drain_notify cs1 + 1\<rparr> else cs1))"

definition connections_num_connected :: "connections \<Rightarrow> nat" where
  "connections_num_connected cs = fmlen (active cs)"

text \<open>The addresses come in the map's unspecified iteration order, hence a set here.\<close>

definition connections_addrs :: "connections \<Rightarrow> socket_addr fset" where
  "connections_addrs cs = fmdom (active cs)"

section \<open>Facts about the limits\<close>

text \<open>The charge of an IP bucket, and the well-formedness of the bucket map: no bucket is zero.\<close>

definition ip_charge :: "connection_limits \<Rightarrow> ip_addr \<Rightarrow> nat" where
  "ip_charge l ip = (case fmlookup (ip_counts l) ip of None \<Rightarrow> 0 | Some n \<Rightarrow> n)"

definition limits_wf :: "connection_limits \<Rightarrow> bool" where
  "limits_wf l \<longleftrightarrow> (\<forall>ip. fmlookup (ip_counts l) ip \<noteq> Some 0)"

lemma limits_ip_count_charge: "limits_ip_count l addr = ip_charge l (canonical_ip addr)"
  by (simp add: limits_ip_count_def ip_charge_def)

lemma ip_charge_default [simp]: "ip_charge limits_default ip = 0"
  by (simp add: ip_charge_def limits_default_def)

lemma limits_wf_default [simp]: "limits_wf limits_default"
  by (simp add: limits_wf_def limits_default_def)

lemma ip_charge_connecting [simp]: "ip_charge (l\<lparr>connecting := C\<rparr>) = ip_charge l"
  by (rule ext) (simp add: ip_charge_def)

lemma limits_wf_connecting [simp]: "limits_wf (l\<lparr>connecting := C\<rparr>) = limits_wf l"
  by (simp add: limits_wf_def)

lemma ip_charge_eq_0: "limits_wf l \<Longrightarrow> ip_charge l ip = 0 \<longleftrightarrow> fmlookup (ip_counts l) ip = None"
  by (auto simp: ip_charge_def limits_wf_def split: option.splits intro: gr0I)

lemma limits_reserve_connecting [simp]:
  "connecting (limits_reserve l a) = finsert a (connecting l)"
  by (simp add: limits_reserve_def Let_def)

lemma limits_release_connecting:
  "limits_release_ip d l a = Some l' \<Longrightarrow> connecting l' = connecting l"
  by (auto simp: limits_release_ip_def Let_def split: option.splits if_splits)

interpretation lim: ledger limits_reserve "limits_release_ip True" ip_charge canonical_ip limits_wf
proof unfold_locales
  fix l :: connection_limits and a :: socket_addr
  assume wf: "limits_wf l"
  show "limits_wf (limits_reserve l a)"
    using wf by (auto simp: limits_wf_def limits_reserve_def Let_def)
  show "ip_charge (limits_reserve l a)
      = (ip_charge l)(canonical_ip a := Suc (ip_charge l (canonical_ip a)))"
    by (rule ext) (simp add: ip_charge_def limits_reserve_def Let_def)
  show "limits_release_ip True l a = None \<longleftrightarrow> ip_charge l (canonical_ip a) = 0"
    using wf by (simp add: ip_charge_eq_0 limits_release_ip_def Let_def split: option.split)
  fix l' :: connection_limits
  assume rel: "limits_release_ip True l a = Some l'"
  show "limits_wf l'"
    using wf rel by (auto simp: limits_wf_def limits_release_ip_def Let_def split: option.splits if_splits)
  show "ip_charge l' = (ip_charge l)(canonical_ip a := ip_charge l (canonical_ip a) - 1)"
    using rel
    by (intro ext)
      (auto simp: ip_charge_def limits_release_ip_def Let_def split: option.splits if_splits)
qed

text \<open>Where a charge exists, the build profile does not matter.\<close>

lemma release_ip_debug:
  assumes "limits_wf l" and "0 < ip_charge l (canonical_ip a)"
  shows "limits_release_ip d l a = limits_release_ip True l a"
  using assms by (auto simp: ip_charge_def limits_release_ip_def Let_def split: option.splits)

lemma release_ip_possible:
  assumes "limits_wf l" and "0 < ip_charge l (canonical_ip a)"
  obtains l' where "limits_release_ip d l a = Some l'" and "limits_wf l'"
    and "ip_charge l' = (ip_charge l)(canonical_ip a := ip_charge l (canonical_ip a) - 1)"
    and "connecting l' = connecting l"
proof -
  from lim.release_possible [OF assms] obtain l' where
    l': "limits_release_ip True l a = Some l'" "limits_wf l'"
      "ip_charge l' = (ip_charge l)(canonical_ip a := ip_charge l (canonical_ip a) - 1)" .
  with release_ip_debug [OF assms, of d] show thesis
    by (intro that [of l']) (auto dest: limits_release_connecting)
qed

text \<open>Releasing a charge just taken restores the buckets themselves, not only their counts.\<close>

lemma release_reserve:
  assumes "limits_wf l"
  shows "limits_release_ip d (limits_reserve l a) a = Some (l\<lparr>connecting := finsert a (connecting l)\<rparr>)"
proof (cases "fmlookup (ip_counts l) (canonical_ip a)")
  case None
  then have "fmdrop (canonical_ip a) (fmupd (canonical_ip a) 1 (ip_counts l)) = ip_counts l"
    by (intro fmap_ext) simp
  with None show ?thesis
    by (simp add: limits_release_ip_def limits_reserve_def Let_def)
next
  case (Some n)
  with assms have "0 < n"
    by (cases n) (auto simp: limits_wf_def)
  moreover from Some have "fmupd (canonical_ip a) n (fmupd (canonical_ip a) (Suc n) (ip_counts l))
      = ip_counts l"
    by (intro fmap_ext) auto
  ultimately show ?thesis
    using Some by (simp add: limits_release_ip_def limits_reserve_def Let_def)
qed

text \<open>The pending reservation as a guarded acquisition: dropping an uncompleted guard undoes it.\<close>

definition reserve_pending :: "socket_addr \<Rightarrow> connections \<Rightarrow> connections option" where
  "reserve_pending a cs =
     (if a |\<in>| connecting (limits cs) then None
      else Some (cs\<lparr>limits := limits_reserve (limits cs) a\<rparr>))"

definition abandon_pending :: "bool \<Rightarrow> socket_addr \<Rightarrow> connections \<Rightarrow> connections" where
  "abandon_pending debug a cs =
     (case guard_drop debug \<lparr>guard_addr = a, guard_completed = False\<rparr> cs of
        None \<Rightarrow> cs | Some cs' \<Rightarrow> cs')"

lemma guard_drop_reserve:
  assumes "limits_wf (limits cs)" and "a |\<notin>| connecting (limits cs)"
  shows "guard_drop d \<lparr>guard_addr = a, guard_completed = False\<rparr>
      (cs\<lparr>limits := limits_reserve (limits cs) a\<rparr>) = Some cs"
proof -
  let ?r = "limits_reserve (limits cs) a"
  have "limits_release_ip d (?r\<lparr>connecting := connecting ?r |-| {|a|}\<rparr>) a
      = map_option (\<lambda>l. l\<lparr>connecting := connecting ?r |-| {|a|}\<rparr>) (limits_release_ip d ?r a)"
    by (auto simp: limits_release_ip_def Let_def split: option.split)
  also have "\<dots> = Some (limits cs\<lparr>connecting := connecting ?r |-| {|a|}\<rparr>)"
    using assms(1) by (simp add: release_reserve)
  also have C: "connecting ?r |-| {|a|} = connecting (limits cs)"
    using assms(2) by auto
  finally show ?thesis
    by (simp add: guard_drop_def Let_def C del: limits_reserve_connecting)
qed

interpretation pending: reservation
  "reserve_pending a" "abandon_pending debug a" "\<lambda>cs. limits_wf (limits cs)" "\<lambda>cs. cs"
proof unfold_locales
  fix s s' :: connections
  assume wf: "limits_wf (limits s)" and acq: "reserve_pending a s = Some s'"
  then have s': "s' = s\<lparr>limits := limits_reserve (limits s) a\<rparr>"
    and new: "a |\<notin>| connecting (limits s)"
    by (auto simp: reserve_pending_def split: if_splits)
  show "limits_wf (limits s')"
    using wf by (simp add: s' lim.wf_charge)
  show "abandon_pending debug a s' = s"
    using guard_drop_reserve [OF wf new] by (simp add: abandon_pending_def s')
qed

section \<open>IPv4-mapped addresses\<close>

text \<open>\<open>::ffff:a.b.c.d\<close>.\<close>

definition mapped_v6 :: "u32 \<Rightarrow> u128" where
  "mapped_v6 i = push_bit 32 0xFFFF OR ucast i"

lemma drop_bit_mapped_v6: "drop_bit 32 (mapped_v6 i) = 0xFFFF"
  by (rule bit_word_eqI)
    (auto simp: mapped_v6_def bit_simps not_le dest: bit_imp_le_length)

lemma ucast_push_or: "(ucast (push_bit 32 w OR ucast i :: u128) :: u32) = i"
  by (rule bit_word_eqI) (auto simp: bit_simps)

lemma ucast_mapped_v6: "(ucast (mapped_v6 i) :: u32) = i"
  unfolding mapped_v6_def by (rule ucast_push_or)

lemma to_canonical_mapped [simp]: "to_canonical (V6 (mapped_v6 i)) = V4 i"
  by (simp add: drop_bit_mapped_v6 ucast_mapped_v6)

section \<open>Properties\<close>

text \<open>A history of reservations and releases of per-IP charges trips the assertion against a
  missing bucket exactly when some IP was released more often than it was charged; otherwise every
  bucket ends with the exact difference, and no empty bucket is kept.\<close>

lemma limits_ledger:
  "map_option ip_charge (run_ledger limits_reserve (limits_release_ip True) hist limits_default)
     = ledger_balance canonical_ip hist (\<lambda>_. 0)
   \<and> pred_option limits_wf (run_ledger limits_reserve (limits_release_ip True) hist limits_default)"
proof -
  have "ip_charge limits_default = (\<lambda>_. 0)" by (rule ext) simp
  with lim.run_ledger_balance [of limits_default hist] show ?thesis
    by (cases "run_ledger limits_reserve (limits_release_ip True) hist limits_default") auto
qed

text \<open>An IPv4 peer and the same peer seen through an IPv4-mapped IPv6 address share one bucket:
  charging either form counts against the other, and releasing it through the other form clears
  the bucket.\<close>

lemma mapped_shares_bucket:
  "canonical_ip (SockV6 (mapped_v6 i) p f sc) = canonical_ip (SockV4 i p')
   \<and> limits_ip_count (limits_reserve l (SockV4 i p')) (SockV6 (mapped_v6 i) p f sc)
     = limits_ip_count l (SockV4 i p') + 1
   \<and> map_option (\<lambda>l'. limits_ip_count l' (SockV4 i p'))
       (limits_release_ip debug (limits_reserve l (SockV4 i p')) (SockV6 (mapped_v6 i) p f sc))
     = Some (limits_ip_count l (SockV4 i p'))"
proof -
  have "canonical_ip (SockV6 (mapped_v6 i) p f sc) = V4 i" "canonical_ip (SockV4 i p') = V4 i"
    by (simp_all add: canonical_ip_def drop_bit_mapped_v6 ucast_mapped_v6)
  then show ?thesis
    by (auto simp: limits_ip_count_def limits_reserve_def limits_release_ip_def Let_def
        split: option.split)
qed

end
