(* ===== verification/Node.thy ===== *)
theory Node
  imports Config Heuristics Connections
begin

text \<open>
  The node (\<open>pea2pea/src/node.rs\<close>): its state, the lock-protected operations on it, and the calls
  of its interface as straight-line compositions of them. A lock-protected section of the
  source is one definition here; the theory \<open>Node_System\<close> interleaves these sections.

  What is not under \<open>src/\<close> is an argument: the semaphore of the connection-setup budget
  (\<open>sem_ops\<close>), the operating system's socket calls (their results), the protocol handlers'
  responses. Spans and log lines are left out. A failing \<open>debug_assert\<close> or \<open>assert\<close> is \<open>None\<close>
  (or \<open>Inl\<close> in \<open>node_new\<close>, with the name of the rejected limit).
\<close>

section \<open>State\<close>

datatype node_task =
    TaskListener | TaskOnDisconnect | TaskHandshake | TaskOnConnect | TaskReading | TaskWriting

record shutdown_state =
  sd_flag :: bool
  sd_handler_signal :: bool
  sched_in_flight :: nat
  sched_drained :: nat

definition shutdown_default :: shutdown_state where
  "shutdown_default = \<lparr>sd_flag = False, sd_handler_signal = False, sched_in_flight = 0,
     sched_drained = 0\<rparr>"

text \<open>\<open>is_underway\<close>, \<open>begin\<close>, \<open>signal_handlers\<close>, \<open>sched_started\<close> and \<open>sched_finished\<close> of
  \<open>ShutdownState\<close>; \<open>sched_drained\<close> counts the \<open>notify_waiters\<close> calls.\<close>

definition is_underway :: "shutdown_state \<Rightarrow> bool" where
  "is_underway sd = sd_flag sd"

definition shutdown_begin :: "shutdown_state \<Rightarrow> shutdown_state" where
  "shutdown_begin sd = sd\<lparr>sd_flag := True\<rparr>"

definition signal_handlers :: "shutdown_state \<Rightarrow> shutdown_state" where
  "signal_handlers sd = sd\<lparr>sd_handler_signal := True\<rparr>"

definition sched_started :: "shutdown_state \<Rightarrow> shutdown_state" where
  "sched_started sd = sd\<lparr>sched_in_flight := sched_in_flight sd + 1\<rparr>"

definition sched_finished :: "shutdown_state \<Rightarrow> shutdown_state" where
  "sched_finished sd =
     (let prev = sched_in_flight sd; sd1 = sd\<lparr>sched_in_flight := prev - 1\<rparr>
      in if prev = 1 then sd1\<lparr>sched_drained := sched_drained sd1 + 1\<rparr> else sd1)"

text \<open>The outbound message senders of the \<open>Writing\<close> protocol: each address maps to the identity
  of its connection and to its message channel.\<close>

type_synonym writing_senders = "(socket_addr, u64 \<times> nat) fmap"

text \<open>\<open>Protocols\<close>: which handlers are published in their \<open>OnceLock\<close>; the one of \<open>Writing\<close> owns the
  senders.\<close>

record protocols =
  has_handshake :: bool
  has_reading :: bool
  writing_handler :: "writing_senders option"
  has_on_connect :: bool
  has_on_disconnect :: bool

definition protocols_default :: protocols where
  "protocols_default = \<lparr>has_handshake = False, has_reading = False, writing_handler = None,
     has_on_connect = False, has_on_disconnect = False\<rparr>"

text \<open>The semaphore of \<open>tokio::sync\<close>: its operations, and what the node relies on.\<close>

record 'sem sem_ops =
  sem_new :: "nat \<Rightarrow> 'sem"
  sem_try_acquire :: "'sem \<Rightarrow> 'sem option"
  sem_release :: "'sem \<Rightarrow> 'sem"

definition semaphore_contract :: "'sem sem_ops \<Rightarrow> ('sem \<Rightarrow> nat) \<Rightarrow> bool" where
  "semaphore_contract ops avail \<longleftrightarrow>
     (\<forall>n. avail (sem_new ops n) = n)
     \<and> (\<forall>s. sem_try_acquire ops s = None \<longleftrightarrow> avail s = 0)
     \<and> (\<forall>s s'. sem_try_acquire ops s = Some s' \<longrightarrow> avail s = Suc (avail s'))
     \<and> (\<forall>s. avail (sem_release ops s) = Suc (avail s))"

record 'sem node =
  nd_config :: config
  nd_listening_addr :: "socket_addr option"
  nd_protocols :: protocols
  nd_connections :: connections
  nd_permits :: 'sem
  nd_stats :: stats
  nd_heuristics :: heuristics
  nd_tasks :: "(node_task, task_id) fmap"
  nd_shutdown :: shutdown_state

section \<open>Construction\<close>

fun nat_to_string :: "nat \<Rightarrow> string" where
  "nat_to_string n =
     (if n < 10 then [char_of (48 + n)] else nat_to_string (n div 10) @ [char_of (48 + n mod 10)])"

declare nat_to_string.simps [simp del]

text \<open>\<open>Node::new\<close>, with the process-wide counter of node identifiers passed in and out.\<close>

definition node_new ::
  "'sem sem_ops \<Rightarrow> nat \<Rightarrow> config \<Rightarrow> nat \<Rightarrow> string + 'sem node \<times> nat" where
  "node_new ops now config0 next_node_id =
     (if cfg_max_connections config0 = 0 then Inl ''max_connections''
      else if cfg_max_connections_per_ip config0 = 0 then Inl ''max_connections_per_ip''
      else if cfg_max_connecting config0 = 0 then Inl ''max_connecting''
      else
        (let (config1, next_node_id') =
               (if cfg_name config0 = None
                then (config0\<lparr>cfg_name := Some (nat_to_string next_node_id)\<rparr>, next_node_id + 1)
                else (config0, next_node_id));
             config2 =
               (if cfg_max_connecting config1 > cfg_max_connections config1
                then config1\<lparr>cfg_max_connecting := cfg_max_connections config1\<rparr>
                else config1)
         in Inr (\<lparr>nd_config = config2, nd_listening_addr = None,
                  nd_protocols = protocols_default, nd_connections = connections_default,
                  nd_permits = sem_new ops (unat (cfg_max_connecting config2)),
                  nd_stats = stats_default now, nd_heuristics = heuristics_default,
                  nd_tasks = fmempty, nd_shutdown = shutdown_default\<rparr>,
                 next_node_id')))"

section \<open>Tasks and the listener\<close>

text \<open>\<open>Node::register_task\<close>, one section under the \<open>tasks\<close> lock: the result, the node and the
  tasks aborted by the call; \<open>None\<close> when the assertion against a double registration fails.\<close>

definition register_task ::
  "bool \<Rightarrow> node_task \<Rightarrow> task_id \<Rightarrow> 'sem node \<Rightarrow> (unit io_result \<times> 'sem node \<times> task_id list) option"
where
  "register_task debug kind handle n =
     (if is_underway (nd_shutdown n) then Some (Inl shutting_down_error, n, [handle])
      else
        (let prev = fmlookup (nd_tasks n) kind;
             n' = n\<lparr>nd_tasks := fmupd kind handle (nd_tasks n)\<rparr>
         in if debug \<and> prev \<noteq> None then None else Some (Inr (), n', [])))"

text \<open>\<open>UnregisteredTask\<close>: a task handle that is aborted on drop unless it was registered.\<close>

type_synonym unregistered_task = "task_id option"

definition unregistered_new :: "task_id \<Rightarrow> unregistered_task" where
  "unregistered_new handle = Some handle"

definition unregistered_drop :: "unregistered_task \<Rightarrow> task_id list" where
  "unregistered_drop t = (case t of Some handle \<Rightarrow> [handle] | None \<Rightarrow> [])"

definition unregistered_register ::
  "bool \<Rightarrow> node_task \<Rightarrow> unregistered_task \<Rightarrow> 'sem node
     \<Rightarrow> (unit io_result \<times> 'sem node \<times> task_id list) option" where
  "unregistered_register debug kind t n =
     (case t of
        None \<Rightarrow> None
      | Some handle \<Rightarrow>
          (case register_task debug kind handle n of
             None \<Rightarrow> None
           | Some (r, n', aborted) \<Rightarrow> Some (r, n', aborted @ unregistered_drop None)))"

definition listening_addr :: "'sem node \<Rightarrow> socket_addr io_result" where
  "listening_addr n =
     (case nd_listening_addr n of
        Some a \<Rightarrow> Inr a
      | None \<Rightarrow> Inl (IoError AddrNotAvailable NoPayload))"

text \<open>The end of \<open>Node::start_listening\<close>: once the spawned accept task is running, it is handed over
  to the node.\<close>

definition start_listening ::
  "bool \<Rightarrow> task_id \<Rightarrow> 'sem node \<Rightarrow> (unit io_result \<times> 'sem node \<times> task_id list) option" where
  "start_listening debug handle n =
     unregistered_register debug TaskListener (unregistered_new handle) n"

text \<open>\<open>Node::toggle_listener\<close>. The operating system's part (creating, configuring and binding the
  socket, listening, reading the local port) is the argument \<open>bind_listen\<close>; \<open>reuseport\<close> says
  whether the platform supports \<open>SO_REUSEPORT\<close>; \<open>handle\<close> is the spawned accept task. Returns the
  result, the node and the tasks aborted by the call.\<close>

definition toggle_listener ::
  "bool \<Rightarrow> bool \<Rightarrow> (socket_addr \<Rightarrow> u32 \<Rightarrow> bool \<Rightarrow> u16 io_result) \<Rightarrow> task_id \<Rightarrow> 'sem node
     \<Rightarrow> (socket_addr option io_result \<times> 'sem node \<times> task_id list) option" where
  "toggle_listener debug reuseport bind_listen handle n =
     (case nd_listening_addr n of
        Some _ \<Rightarrow>
          (case fmlookup (nd_tasks n) TaskListener of
             None \<Rightarrow> Some (Inl shutting_down_error, n, [])
           | Some listener_task \<Rightarrow>
               Some (Inr None,
                 n\<lparr>nd_tasks := fmdrop TaskListener (nd_tasks n), nd_listening_addr := None\<rparr>,
                 [listener_task]))
      | None \<Rightarrow>
          (case cfg_listener_addr (nd_config n) of
             None \<Rightarrow> Some (Inl (IoError AddrNotAvailable NoPayload), n, [])
           | Some listener_addr \<Rightarrow>
               if cfg_reuse_listener_port (nd_config n) \<and> \<not> reuseport
               then Some (Inl (IoError Unsupported (Message ''SO_REUSEPORT'')), n, [])
               else
                 (case bind_listen listener_addr (cfg_listener_backlog (nd_config n))
                         (cfg_reuse_listener_port (nd_config n)) of
                    Inl e \<Rightarrow> Some (Inl e, n, [])
                  | Inr port \<Rightarrow>
                      (let new_addr = sa_from (sa_ip listener_addr) port in
                       case start_listening debug handle n of
                         None \<Rightarrow> None
                       | Some (Inl e, n', aborted) \<Rightarrow> Some (Inl e, n', aborted)
                       | Some (Inr _, n', aborted) \<Rightarrow>
                           Some (Inr (Some new_addr), n'\<lparr>nd_listening_addr := Some new_addr\<rparr>,
                             aborted)))))"

text \<open>One failed \<open>accept\<close> in the accept loop of \<open>Node::start_listening\<close>: the new node and whether
  the loop backs off.\<close>

definition accept_failed :: "error_kind \<Rightarrow> 'sem node \<Rightarrow> 'sem node \<times> bool" where
  "accept_failed kind n =
     (case kind of
        ConnectionAborted \<Rightarrow> (n, False)
      | ConnectionReset \<Rightarrow> (n, False)
      | _ \<Rightarrow> (n\<lparr>nd_heuristics := register_accept_error (nd_heuristics n)\<rparr>, True))"

text \<open>One turn of the accept loop: an accepted stream first waits for a slot of the
  connection-setup budget (\<open>None\<close> while there is none) and is then handed to a spawned
  \<open>handle_connection_request\<close>, which owns the slot.\<close>

datatype accept_action = SpawnedRequest stream socket_addr | Retried | BackedOff

definition accept_step ::
  "'sem sem_ops \<Rightarrow> (stream \<times> socket_addr) io_result \<Rightarrow> 'sem node \<Rightarrow> (accept_action \<times> 'sem node) option"
where
  "accept_step ops r n =
     (case r of
        Inr (strm, addr) \<Rightarrow>
          map_option (\<lambda>sem. (SpawnedRequest strm addr, n\<lparr>nd_permits := sem\<rparr>))
            (sem_try_acquire ops (nd_permits n))
      | Inl e \<Rightarrow>
          (let (n', backs_off) = accept_failed (err_kind e) n
           in Some (if backs_off then BackedOff else Retried, n')))"

text \<open>The loop over the outcomes of its \<open>accept\<close> calls: what it did with them, and the outcomes it
  did not get to because it waits for the budget.\<close>

primrec accept_loop ::
  "'sem sem_ops \<Rightarrow> (stream \<times> socket_addr) io_result list \<Rightarrow> 'sem node
     \<Rightarrow> accept_action list \<times> 'sem node \<times> (stream \<times> socket_addr) io_result list" where
  "accept_loop ops [] n = ([], n, [])"
| "accept_loop ops (r # rs) n =
     (case accept_step ops r n of
        None \<Rightarrow> ([], n, r # rs)
      | Some (act, n') \<Rightarrow>
          (let (acts, n'', rest) = accept_loop ops rs n' in (act # acts, n'', rest)))"

section \<open>Admission\<close>

text \<open>\<open>Node::check_and_reserve\<close>, one section under the \<open>limits\<close> lock.\<close>

definition check_and_reserve ::
  "socket_addr \<Rightarrow> 'sem node \<Rightarrow> connection_guard io_result \<times> 'sem node" where
  "check_and_reserve addr n =
     (let cs = nd_connections n;
          num_ip_conns = limits_ip_count (limits cs) addr;
          per_ip_limit = max_connections_per_ip (nd_config n);
          num_connecting = fcard (connecting (limits cs));
          connecting_limit = max_connecting (nd_config n);
          num_connected = fmlen (active cs);
          connection_limit = max_connections (nd_config n)
      in if fmlookup (active cs) addr \<noteq> None then
           (Inl (IoError AlreadyExists (Message ''already connected'')), n)
         else if num_ip_conns \<ge> per_ip_limit then
           (Inl (IoError QuotaExceeded (Message ''per-IP'')), n)
         else if num_connecting \<ge> connecting_limit then
           (Inl (IoError QuotaExceeded (Message ''pending'')), n)
         else if num_connected + num_connecting \<ge> connection_limit then
           (Inl (IoError QuotaExceeded (Message ''connections'')), n)
         else if addr |\<in>| connecting (limits cs) then
           (Inl (IoError AlreadyExists (Message ''already connecting'')), n)
         else
           (Inr \<lparr>guard_addr = addr, guard_completed = False\<rparr>,
            n\<lparr>nd_connections := cs\<lparr>limits := limits_reserve (limits cs) addr\<rparr>\<rparr>))"

text \<open>The checks of \<open>Node::connect_inner\<close> before it draws from the connection-setup budget.\<close>

definition self_connect :: "socket_addr \<Rightarrow> 'sem node \<Rightarrow> bool" where
  "self_connect addr n \<longleftrightarrow>
     (case listening_addr n of
        Inl _ \<Rightarrow> False
      | Inr la \<Rightarrow>
          addr = la
          \<or> is_unspecified (sa_ip la) \<and> is_loopback (sa_ip addr) \<and> sa_port addr = sa_port la)"

definition connect_precheck :: "socket_addr \<Rightarrow> 'sem node \<Rightarrow> unit io_result" where
  "connect_precheck addr n =
     (if is_underway (nd_shutdown n) then Inl shutting_down_error
      else if self_connect addr n then Inl (IoError AddrInUse (Message ''own address''))
      else if connections_is_connected (nd_connections n) addr then
        Inl (IoError AlreadyExists (Message ''already connected''))
      else Inr ())"

text \<open>Taking a slot of the shared connection-setup budget without waiting.\<close>

definition take_permit :: "'sem sem_ops \<Rightarrow> 'sem node \<Rightarrow> unit io_result \<times> 'sem node" where
  "take_permit ops n =
     (case sem_try_acquire ops (nd_permits n) of
        None \<Rightarrow>
          (Inl (IoError QuotaExceeded (Message ''pending'')),
           n\<lparr>nd_heuristics := register_connect_budget_rejection (nd_heuristics n)\<rparr>)
      | Some sem \<Rightarrow> (Inr (), n\<lparr>nd_permits := sem\<rparr>))"

definition drop_permit :: "'sem sem_ops \<Rightarrow> 'sem node \<Rightarrow> 'sem node" where
  "drop_permit ops n = n\<lparr>nd_permits := sem_release ops (nd_permits n)\<rparr>"

text \<open>The admission of \<open>Node::handle_connection_request\<close>.\<close>

definition admit_inbound ::
  "socket_addr \<Rightarrow> 'sem node \<Rightarrow> connection_guard io_result \<times> 'sem node" where
  "admit_inbound addr n =
     (if is_underway (nd_shutdown n) then (Inl shutting_down_error, n)
      else
        (case check_and_reserve addr n of
           (Inl e, n') \<Rightarrow>
             (Inl e, n'\<lparr>nd_heuristics := register_inbound_rejection (nd_heuristics n')\<rparr>)
         | (Inr g, n') \<Rightarrow> (Inr g, n')))"

text \<open>The guard's drop, on the node.\<close>

definition node_guard_drop :: "bool \<Rightarrow> connection_guard \<Rightarrow> 'sem node \<Rightarrow> 'sem node option" where
  "node_guard_drop debug g n =
     map_option (\<lambda>cs. n\<lparr>nd_connections := cs\<rparr>) (guard_drop debug g (nd_connections n))"

section \<open>Setting a connection up\<close>

datatype 'a timed = Elapsed | Completed 'a

text \<open>\<open>Node::create_stream\<close>, from what the timed operating-system call came back with.\<close>

definition create_stream :: "stream io_result timed \<Rightarrow> stream io_result" where
  "create_stream r =
     (case r of
        Completed (Inr s) \<Rightarrow> Inr s
      | Completed (Inl e) \<Rightarrow> Inl e
      | Elapsed \<Rightarrow> Inl (IoError TimedOut (Message ''elapsed'')))"

text \<open>The macro \<open>enable_protocol!\<close>: a published handler is triggered with the connection and
  answers with a result, or with nothing when it is gone.\<close>

type_synonym 'sem setup_handler =
  "connection \<Rightarrow> 'sem node \<Rightarrow> connection io_result option \<times> 'sem node"

definition enable_protocol ::
  "bool \<Rightarrow> 'sem setup_handler \<Rightarrow> connection \<Rightarrow> 'sem node \<Rightarrow> connection io_result \<times> 'sem node" where
  "enable_protocol published handler conn n =
     (if published then
        (case handler conn n of
           (None, n') \<Rightarrow> (Inl shutting_down_error, n')
         | (Some r, n') \<Rightarrow> (r, n'))
      else (Inr conn, n))"

text \<open>\<open>conn.stream.take()\<close> and \<open>into_split\<close> after the handshake.\<close>

definition split_stream :: "connection \<Rightarrow> connection" where
  "split_stream conn =
     (case conn_stream conn of
        None \<Rightarrow> conn
      | Some s \<Rightarrow> conn\<lparr>conn_stream := None, conn_reader := Some s, conn_writer := Some s\<rparr>)"

record 'sem handlers =
  hs_handler :: "'sem setup_handler"
  rd_handler :: "'sem setup_handler"
  wr_handler :: "'sem setup_handler"
  oc_response :: "socket_addr \<Rightarrow> u64 \<Rightarrow> (task_id \<times> bool) option"
  od_response :: "socket_addr \<Rightarrow> disconnect_origin \<Rightarrow> task_id option"

definition enable_protocols ::
  "'sem handlers \<Rightarrow> connection \<Rightarrow> 'sem node \<Rightarrow> connection io_result \<times> 'sem node" where
  "enable_protocols hs conn n =
     (case enable_protocol (has_handshake (nd_protocols n)) (hs_handler hs) conn n of
        (Inl e, n1) \<Rightarrow> (Inl e, n1)
      | (Inr conn1, n1) \<Rightarrow>
          (case enable_protocol (has_reading (nd_protocols n1)) (rd_handler hs)
                  (split_stream conn1) n1 of
             (Inl e, n2) \<Rightarrow> (Inl e, n2)
           | (Inr conn2, n2) \<Rightarrow>
               enable_protocol (writing_handler (nd_protocols n2) \<noteq> None) (wr_handler hs)
                 conn2 n2))"

text \<open>What the scheduling task of \<open>Node::adapt_stream\<close> does with the response of the \<open>OnConnect\<close>
  handler: the hook's task is left running, attached to the very connection it belongs to, or
  aborted.\<close>

datatype task_fate = NoTask | Detached task_id | Attached task_id | AbortedTask task_id

definition attach_on_connect ::
  "(task_id \<times> bool) option \<Rightarrow> socket_addr \<Rightarrow> u64 \<Rightarrow> 'sem node \<Rightarrow> task_fate \<times> 'sem node" where
  "attach_on_connect resp peer_addr cid n =
     (case resp of
        None \<Rightarrow> (NoTask, n)
      | Some (handle, abortable) \<Rightarrow>
          if \<not> abortable then (Detached handle, n)
          else
            (let cs = nd_connections n in
             case fmlookup (active cs) peer_addr of
               Some conn \<Rightarrow>
                 if conn_id conn = cid
                 then (Attached handle,
                       n\<lparr>nd_connections := cs\<lparr>active :=
                          fmupd peer_addr (conn\<lparr>conn_tasks := conn_tasks conn @ [handle]\<rparr>)
                            (active cs)\<rparr>\<rparr>)
                 else (AbortedTask handle, n)
             | None \<Rightarrow> (AbortedTask handle, n)))"

text \<open>\<open>Node::adapt_stream\<close> run without interference: the result, the node, the identifier counter
  and the fate of the \<open>OnConnect\<close> task.\<close>

definition adapt_stream ::
  "bool \<Rightarrow> 'sem handlers \<Rightarrow> nat \<Rightarrow> stream \<Rightarrow> socket_addr \<Rightarrow> connection_side \<Rightarrow> connection_guard
     \<Rightarrow> u64 \<Rightarrow> 'sem node \<Rightarrow> (unit io_result \<times> 'sem node \<times> u64 \<times> task_fate) option" where
  "adapt_stream debug hs now strm peer_addr own_side guard next_id n =
     (let (conn0, next_id') = connection_new next_id now peer_addr strm (side_not own_side) in
      case enable_protocols hs conn0 n of
        (Inl e, n1) \<Rightarrow>
          map_option (\<lambda>n2. (Inl e, n2, next_id', NoTask)) (node_guard_drop debug guard n1)
      | (Inr conn1, n1) \<Rightarrow>
          (let conn2 = conn1\<lparr>readiness_notifier := None\<rparr>;
               cid = conn_id conn2;
               sched = has_on_connect (nd_protocols n1);
               n2 = (if sched then n1\<lparr>nd_shutdown := sched_started (nd_shutdown n1)\<rparr> else n1)
           in case connections_add debug conn2 guard (is_underway (nd_shutdown n2))
                     (nd_connections n2) of
                None \<Rightarrow> None
              | Some (Inl e, cs) \<Rightarrow>
                  (let n3 = n2\<lparr>nd_connections := cs\<rparr>;
                       n4 = (if sched then n3\<lparr>nd_shutdown := sched_finished (nd_shutdown n3)\<rparr>
                             else n3)
                   in Some (Inl e, n4, next_id', NoTask))
              | Some (Inr _, cs) \<Rightarrow>
                  (let n3 = n2\<lparr>nd_connections := cs\<rparr> in
                   if sched then
                     (let (fate, n4) = attach_on_connect (oc_response hs peer_addr cid)
                                         peer_addr cid n3
                      in Some (Inr (), n4\<lparr>nd_shutdown := sched_finished (nd_shutdown n4)\<rparr>,
                               next_id', fate))
                   else Some (Inr (), n3, next_id', NoTask))))"

text \<open>\<open>Node::connect_inner\<close> and \<open>Node::handle_connection_request\<close> run without interference.\<close>

definition connect_inner ::
  "bool \<Rightarrow> 'sem sem_ops \<Rightarrow> 'sem handlers \<Rightarrow> nat \<Rightarrow> stream io_result timed \<Rightarrow> socket_addr
     \<Rightarrow> u64 \<Rightarrow> 'sem node \<Rightarrow> (unit io_result \<times> 'sem node \<times> u64) option" where
  "connect_inner debug ops hs now dialled addr next_id n =
     (case connect_precheck addr n of
        Inl e \<Rightarrow> Some (Inl e, n, next_id)
      | Inr _ \<Rightarrow>
          (case take_permit ops n of
             (Inl e, n1) \<Rightarrow> Some (Inl e, n1, next_id)
           | (Inr _, n1) \<Rightarrow>
               (case check_and_reserve addr n1 of
                  (Inl e, n2) \<Rightarrow> Some (Inl e, drop_permit ops n2, next_id)
                | (Inr g, n2) \<Rightarrow>
                    (case create_stream dialled of
                       Inl e \<Rightarrow>
                         map_option (\<lambda>n3. (Inl e, drop_permit ops n3, next_id))
                           (node_guard_drop debug g n2)
                     | Inr s \<Rightarrow>
                         map_option (\<lambda>(r, n3, next_id', _). (r, drop_permit ops n3, next_id'))
                           (adapt_stream debug hs now s addr Initiator g next_id n2)))))"

text \<open>\<open>Node::connect\<close> dials with a fresh socket and \<open>Node::connect_using_socket\<close> with the given one; the
  outcome of the dial is that of the socket used.\<close>

definition connect ::
  "bool \<Rightarrow> 'sem sem_ops \<Rightarrow> 'sem handlers \<Rightarrow> nat \<Rightarrow> (socket_addr \<Rightarrow> stream io_result timed) \<Rightarrow> socket_addr
     \<Rightarrow> u64 \<Rightarrow> 'sem node \<Rightarrow> (unit io_result \<times> 'sem node \<times> u64) option" where
  "connect debug ops hs now dial addr next_id n = connect_inner debug ops hs now (dial addr) addr next_id n"

definition connect_using_socket ::
  "bool \<Rightarrow> 'sem sem_ops \<Rightarrow> 'sem handlers \<Rightarrow> nat \<Rightarrow> socket_addr
     \<Rightarrow> (socket_addr \<Rightarrow> stream io_result timed) \<Rightarrow> u64 \<Rightarrow> 'sem node
     \<Rightarrow> (unit io_result \<times> 'sem node \<times> u64) option" where
  "connect_using_socket debug ops hs now addr socket next_id n =
     connect_inner debug ops hs now (socket addr) addr next_id n"

definition handle_connection_request ::
  "bool \<Rightarrow> 'sem handlers \<Rightarrow> nat \<Rightarrow> stream \<Rightarrow> socket_addr
     \<Rightarrow> u64 \<Rightarrow> 'sem node \<Rightarrow> (unit io_result \<times> 'sem node \<times> u64) option" where
  "handle_connection_request debug hs now strm addr next_id n =
     (case admit_inbound addr n of
        (Inl e, n1) \<Rightarrow> Some (Inl e, n1, next_id)
      | (Inr g, n1) \<Rightarrow>
          map_option (\<lambda>(r, n2, next_id', _). (r, n2, next_id'))
            (adapt_stream debug hs now strm addr Responder g next_id n1))"

section \<open>Disconnecting\<close>

text \<open>\<open>Node::claim_disconnect\<close>, one section under the \<open>active\<close> lock.\<close>

definition claim_disconnect ::
  "socket_addr \<Rightarrow> u64 option \<Rightarrow> 'sem node \<Rightarrow> 'sem node option" where
  "claim_disconnect addr cid n =
     (let cs = nd_connections n in
      case fmlookup (active cs) addr of
        None \<Rightarrow> None
      | Some conn \<Rightarrow>
          if (case cid of Some i \<Rightarrow> conn_id conn \<noteq> i | None \<Rightarrow> False) then None
          else if disconnecting conn then None
          else Some (n\<lparr>nd_connections :=
                 cs\<lparr>active := fmupd addr (conn\<lparr>disconnecting := True\<rparr>) (active cs)\<rparr>\<rparr>))"

text \<open>Registering the \<open>OnDisconnect\<close> task with the claimed connection; \<open>None\<close> when the assertion
  that the connection is still there fails.\<close>

definition attach_on_disconnect ::
  "bool \<Rightarrow> task_id \<Rightarrow> socket_addr \<Rightarrow> 'sem node \<Rightarrow> (task_fate \<times> 'sem node) option" where
  "attach_on_disconnect debug handle addr n =
     (let cs = nd_connections n in
      case fmlookup (active cs) addr of
        Some conn \<Rightarrow>
          Some (Attached handle,
            n\<lparr>nd_connections := cs\<lparr>active :=
               fmupd addr (conn\<lparr>conn_tasks := conn_tasks conn @ [handle]\<rparr>) (active cs)\<rparr>\<rparr>)
      | None \<Rightarrow> if debug then None else Some (AbortedTask handle, n))"

text \<open>\<open>DisconnectFinalizer::drop\<close>: the removal of the sender, one section under the \<open>senders\<close>
  lock, then the removal of the connection and the release of its charge, one section under
  the \<open>limits\<close> lock. Returns the tasks aborted by the connection's drop.\<close>

definition finalizer_senders :: "socket_addr \<Rightarrow> 'sem node \<Rightarrow> 'sem node" where
  "finalizer_senders addr n =
     n\<lparr>nd_protocols := (nd_protocols n)\<lparr>writing_handler :=
        map_option (fmdrop addr) (writing_handler (nd_protocols n))\<rparr>\<rparr>"

definition finalizer_remove ::
  "bool \<Rightarrow> socket_addr \<Rightarrow> 'sem node \<Rightarrow> (task_id list \<times> 'sem node) option" where
  "finalizer_remove debug addr n =
     (let (conn, cs1) = connections_remove addr (nd_connections n) in
      map_option
        (\<lambda>l. (case conn of None \<Rightarrow> [] | Some c \<Rightarrow> connection_drop c,
              n\<lparr>nd_connections := cs1\<lparr>limits := l\<rparr>\<rparr>))
        (limits_release_ip debug (limits cs1) addr))"

definition finalizer_drop ::
  "bool \<Rightarrow> socket_addr \<Rightarrow> 'sem node \<Rightarrow> (task_id list \<times> 'sem node) option" where
  "finalizer_drop debug addr n = finalizer_remove debug addr (finalizer_senders addr n)"

text \<open>\<open>Node::disconnect_w_origin\<close> run without interference: whether a disconnect took place, the
  node, and the aborted tasks.\<close>

definition disconnect_w_origin ::
  "bool \<Rightarrow> 'sem handlers \<Rightarrow> socket_addr \<Rightarrow> disconnect_origin \<Rightarrow> u64 option \<Rightarrow> 'sem node
     \<Rightarrow> (bool \<times> 'sem node \<times> task_id list) option" where
  "disconnect_w_origin debug hs addr origin cid n =
     (case claim_disconnect addr cid n of
        None \<Rightarrow> Some (False, n, [])
      | Some n1 \<Rightarrow>
          (case (if has_on_disconnect (nd_protocols n1)
                 then (case od_response hs addr origin of
                         None \<Rightarrow> Some n1
                       | Some handle \<Rightarrow>
                           map_option snd (attach_on_disconnect debug handle addr n1))
                 else Some n1) of
             None \<Rightarrow> None
           | Some n2 \<Rightarrow>
               map_option (\<lambda>(aborted, n3). (True, n3, aborted)) (finalizer_drop debug addr n2)))"

definition disconnect ::
  "bool \<Rightarrow> 'sem handlers \<Rightarrow> socket_addr \<Rightarrow> 'sem node \<Rightarrow> (bool \<times> 'sem node \<times> task_id list) option"
where
  "disconnect debug hs addr n = disconnect_w_origin debug hs addr OriginUser None n"

section \<open>Shutting down\<close>

text \<open>The first part of \<open>Node::shut_down\<close>: the flag is set; then the task handles are moved out of
  the node and the listener is aborted. Returns the remaining handles and the aborted task.\<close>

definition take_tasks ::
  "'sem node \<Rightarrow> (node_task, task_id) fmap \<times> 'sem node \<times> task_id list" where
  "take_tasks n =
     (let ts = nd_tasks n in
      (fmdrop TaskListener ts, n\<lparr>nd_tasks := fmempty\<rparr>,
       case fmlookup ts TaskListener of None \<Rightarrow> [] | Some h \<Rightarrow> [h]))"

definition begin_shutdown :: "'sem node \<Rightarrow> 'sem node" where
  "begin_shutdown n = n\<lparr>nd_shutdown := shutdown_begin (nd_shutdown n)\<rparr>"

definition signal_shutdown :: "'sem node \<Rightarrow> 'sem node" where
  "signal_shutdown n = n\<lparr>nd_shutdown := signal_handlers (nd_shutdown n)\<rparr>"

definition clear_listening_addr :: "'sem node \<Rightarrow> 'sem node" where
  "clear_listening_addr n = n\<lparr>nd_listening_addr := None\<rparr>"

text \<open>The disconnect fan-out, one address after the other.\<close>

primrec disconnect_all ::
  "bool \<Rightarrow> 'sem handlers \<Rightarrow> socket_addr list \<Rightarrow> 'sem node \<Rightarrow> ('sem node \<times> task_id list) option"
where
  "disconnect_all debug hs [] n = Some (n, [])"
| "disconnect_all debug hs (a # as) n =
     (case disconnect_w_origin debug hs a OriginShutdown None n of
        None \<Rightarrow> None
      | Some (_, n', aborted) \<Rightarrow>
          map_option (\<lambda>(n'', aborted'). (n'', aborted @ aborted')) (disconnect_all debug hs as n'))"

text \<open>The order in which \<open>shut_down\<close> waits for the handler tasks to wind down.\<close>

definition wind_down_order :: "node_task list" where
  "wind_down_order = [TaskHandshake, TaskReading, TaskWriting, TaskOnConnect, TaskOnDisconnect]"

text \<open>\<open>Node::shut_down\<close> run without interference, with \<open>addrs\<close> the connected addresses in the map's
  iteration order: the node and every task it aborted. \<open>None\<close> is a failed assertion or one of
  the two drain waits never ending.\<close>

definition shut_down ::
  "bool \<Rightarrow> 'sem handlers \<Rightarrow> socket_addr list \<Rightarrow> 'sem node \<Rightarrow> ('sem node \<times> task_id list) option" where
  "shut_down debug hs addrs n =
     (let n1 = begin_shutdown n;
          (rest, n2, aborted1) = take_tasks n1
      in case disconnect_all debug hs addrs n2 of
           None \<Rightarrow> None
         | Some (n3, aborted2) \<Rightarrow>
             if active (nd_connections n3) \<noteq> fmempty then None
             else if sched_in_flight (nd_shutdown n3) \<noteq> 0 then None
             else
               (let n4 = signal_shutdown n3;
                    aborted3 = List.map_filter (fmlookup rest) wind_down_order
                in Some (clear_listening_addr n4, aborted1 @ aborted2 @ aborted3)))"

section \<open>Queries\<close>

definition connected_addrs :: "'sem node \<Rightarrow> socket_addr fset" where
  "connected_addrs n = connections_addrs (nd_connections n)"

text \<open>\<open>Node::name\<close> unwraps the name, which \<open>Node::new\<close> has filled in.\<close>

definition node_name :: "'sem node \<Rightarrow> string option" where
  "node_name n = cfg_name (nd_config n)"

definition is_connected :: "'sem node \<Rightarrow> socket_addr \<Rightarrow> bool" where
  "is_connected n addr = connections_is_connected (nd_connections n) addr"

definition is_connecting :: "'sem node \<Rightarrow> socket_addr \<Rightarrow> bool" where
  "is_connecting n addr \<longleftrightarrow> addr |\<in>| connecting (limits (nd_connections n))"

definition num_connected :: "'sem node \<Rightarrow> nat" where
  "num_connected n = connections_num_connected (nd_connections n)"

definition num_connecting :: "'sem node \<Rightarrow> nat" where
  "num_connecting n = fcard (connecting (limits (nd_connections n)))"

definition connection_info :: "'sem node \<Rightarrow> socket_addr \<Rightarrow> connection_info option" where
  "connection_info n addr = connections_get_info (nd_connections n) addr"

definition connection_infos :: "'sem node \<Rightarrow> (socket_addr, connection_info) fmap" where
  "connection_infos n = connections_infos (nd_connections n)"

text \<open>The consistency of the queries that the tests of the repository assert (\<open>assert_consistent\<close> in
  \<open>test-utils/src/lib.rs\<close>).\<close>

definition assert_consistent :: "'sem node \<Rightarrow> bool" where
  "assert_consistent n \<longleftrightarrow>
     num_connected n = fcard (connected_addrs n) \<and> num_connected n = fmlen (connection_infos n)
     \<and> (\<forall>addr \<in> fset (connected_addrs n).
          is_connected n addr \<and> connection_info n addr \<noteq> None \<and> \<not> is_connecting n addr)"

lemma assert_consistent_settled:
  assumes "connecting (limits (nd_connections n)) = {||}"
  shows "assert_consistent n"
  using assms
  by (auto simp: assert_consistent_def num_connected_def connections_num_connected_def connected_addrs_def
      connections_addrs_def connection_infos_def connections_infos_def fmlen_def is_connected_def
      connections_is_connected_def connection_info_def connections_get_info_def is_connecting_def dest: fmdom_notD)

section \<open>The operations by cases\<close>

lemma check_and_reserve_Inr:
  assumes "check_and_reserve a n = (Inr g, n')"
  shows "fmlookup (active (nd_connections n)) a = None"
    and "ip_charge (limits (nd_connections n)) (canonical_ip a)
      < max_connections_per_ip (nd_config n)"
    and "fcard (connecting (limits (nd_connections n))) < max_connecting (nd_config n)"
    and "fmlen (active (nd_connections n)) + fcard (connecting (limits (nd_connections n)))
      < max_connections (nd_config n)"
    and "a |\<notin>| connecting (limits (nd_connections n))"
    and "g = \<lparr>guard_addr = a, guard_completed = False\<rparr>"
    and "n' = n\<lparr>nd_connections := (nd_connections n)\<lparr>limits :=
      limits_reserve (limits (nd_connections n)) a\<rparr>\<rparr>"
  using assms
  by (auto simp: check_and_reserve_def Let_def limits_ip_count_charge not_le split: if_splits)

lemma check_and_reserve_Inl: "check_and_reserve a n = (Inl e, n') \<Longrightarrow> n' = n"
  by (auto simp: check_and_reserve_def Let_def split: if_splits)

lemma claim_disconnect_Some:
  assumes "claim_disconnect a cid n = Some n'"
  obtains conn where "fmlookup (active (nd_connections n)) a = Some conn"
    and "\<not> disconnecting conn" and "\<forall>i. cid = Some i \<longrightarrow> conn_id conn = i"
    and "n' = n\<lparr>nd_connections := (nd_connections n)\<lparr>active :=
      fmupd a (conn\<lparr>disconnecting := True\<rparr>) (active (nd_connections n))\<rparr>\<rparr>"
  using assms by (auto simp: claim_disconnect_def Let_def split: option.splits if_splits)

lemma claim_disconnect_None:
  "claim_disconnect a cid n = None \<longleftrightarrow>
     (\<forall>conn. fmlookup (active (nd_connections n)) a = Some conn \<longrightarrow>
        disconnecting conn \<or> (\<exists>i. cid = Some i \<and> conn_id conn \<noteq> i))"
  by (auto simp: claim_disconnect_def Let_def split: option.splits if_splits)

lemma take_permit_Inr:
  assumes "take_permit ops n = (Inr u, n')"
  obtains sem where "sem_try_acquire ops (nd_permits n) = Some sem" and "n' = n\<lparr>nd_permits := sem\<rparr>"
  using assms by (auto simp: take_permit_def split: option.splits)

lemma take_permit_Inl:
  assumes "take_permit ops n = (Inl e, n')"
  shows "sem_try_acquire ops (nd_permits n) = None"
    and "n' = n\<lparr>nd_heuristics := register_connect_budget_rejection (nd_heuristics n)\<rparr>"
  using assms by (auto simp: take_permit_def split: option.splits)

lemma guard_drop_completed:
  "node_guard_drop debug \<lparr>guard_addr = a, guard_completed = True\<rparr> n =
     Some (n\<lparr>nd_connections := (nd_connections n)\<lparr>limits := (limits (nd_connections n))\<lparr>connecting :=
       connecting (limits (nd_connections n)) |-| {|a|}\<rparr>\<rparr>\<rparr>)"
  by (simp add: node_guard_drop_def guard_drop_def Let_def)

lemma guard_drop_pending:
  assumes "limits_wf (limits (nd_connections n))"
    and "0 < ip_charge (limits (nd_connections n)) (canonical_ip a)"
  obtains l where "node_guard_drop debug \<lparr>guard_addr = a, guard_completed = False\<rparr> n
      = Some (n\<lparr>nd_connections := (nd_connections n)\<lparr>limits := l\<rparr>\<rparr>)"
    and "limits_wf l" and "connecting l = connecting (limits (nd_connections n)) |-| {|a|}"
    and "ip_charge l = (ip_charge (limits (nd_connections n)))
      (canonical_ip a := ip_charge (limits (nd_connections n)) (canonical_ip a) - 1)"
proof -
  let ?l = "(limits (nd_connections n))\<lparr>connecting := connecting (limits (nd_connections n)) |-| {|a|}\<rparr>"
  have "limits_wf ?l" and "0 < ip_charge ?l (canonical_ip a)"
    using assms by simp_all
  then obtain l where "limits_release_ip debug ?l a = Some l" "limits_wf l"
    "ip_charge l = (ip_charge ?l)(canonical_ip a := ip_charge ?l (canonical_ip a) - 1)"
    "connecting l = connecting ?l"
    by (rule release_ip_possible)
  then show thesis
    by (intro that [of l]) (simp_all add: node_guard_drop_def guard_drop_def Let_def)
qed

lemma finalizer_remove_active:
  assumes "limits_wf (limits (nd_connections n))"
    and "0 < ip_charge (limits (nd_connections n)) (canonical_ip a)"
    and "fmlookup (active (nd_connections n)) a = Some conn"
  obtains l where "finalizer_remove debug a n = Some (connection_drop conn,
      n\<lparr>nd_connections := \<lparr>active = fmdrop a (active (nd_connections n)), limits = l,
        drain_notify = drain_notify (nd_connections n) + 1\<rparr>\<rparr>)"
    and "limits_wf l" and "connecting l = connecting (limits (nd_connections n))"
    and "ip_charge l = (ip_charge (limits (nd_connections n)))
      (canonical_ip a := ip_charge (limits (nd_connections n)) (canonical_ip a) - 1)"
proof -
  from release_ip_possible [OF assms(1,2), where d = debug] obtain l where
    l: "limits_release_ip debug (limits (nd_connections n)) a = Some l" "limits_wf l"
      "ip_charge l = (ip_charge (limits (nd_connections n)))
        (canonical_ip a := ip_charge (limits (nd_connections n)) (canonical_ip a) - 1)"
      "connecting l = connecting (limits (nd_connections n))" .
  with assms(3) show thesis
    by (intro that [of l]) (simp_all add: finalizer_remove_def connections_remove_def Let_def)
qed

lemma sched_started_sel [simp]:
  "sched_in_flight (sched_started sd) = Suc (sched_in_flight sd)"
  "sd_flag (sched_started sd) = sd_flag sd"
  "sd_handler_signal (sched_started sd) = sd_handler_signal sd"
  by (simp_all add: sched_started_def)

lemma sched_finished_sel [simp]:
  "sched_in_flight (sched_finished sd) = sched_in_flight sd - 1"
  "sd_flag (sched_finished sd) = sd_flag sd"
  "sd_handler_signal (sched_finished sd) = sd_handler_signal sd"
  by (simp_all add: sched_finished_def Let_def)

section \<open>A small node\<close>

text \<open>A counting semaphore and a fresh node with the default configuration, on which the properties
  are exercised.\<close>

definition nat_sem :: "nat sem_ops" where
  "nat_sem = \<lparr>sem_new = (\<lambda>n. n), sem_try_acquire = (\<lambda>n. if n = 0 then None else Some (n - 1)),
     sem_release = Suc\<rparr>"

lemma nat_sem_contract: "semaphore_contract nat_sem (\<lambda>n. n)"
  by (auto simp: semaphore_contract_def nat_sem_def split: if_splits)

definition demo_handlers :: "'sem handlers" where
  "demo_handlers = \<lparr>hs_handler = (\<lambda>c n. (Some (Inr c), n)), rd_handler = (\<lambda>c n. (Some (Inr c), n)),
     wr_handler = (\<lambda>c n. (Some (Inr c), n)), oc_response = (\<lambda>_ _. None), od_response = (\<lambda>_ _. None)\<rparr>"

definition demo_node :: "nat node" where
  "demo_node = \<lparr>nd_config = (config_default False)\<lparr>cfg_name := Some ''demo''\<rparr>, nd_listening_addr = None,
     nd_protocols = protocols_default, nd_connections = connections_default, nd_permits = 100,
     nd_stats = stats_default 0, nd_heuristics = heuristics_default, nd_tasks = fmempty,
     nd_shutdown = shutdown_default\<rparr>"

definition demo_addr :: socket_addr where
  "demo_addr = SockV4 0x0A000001 4444"

section \<open>Construction, the listener and the accept loop\<close>

text \<open>\<open>Node::new\<close> rejects a configuration exactly when one of its three limits is zero; otherwise
  the node starts with no connection, no pending address and no task, and with limits of which none
  is zero and whose setup budget does not exceed the connection limit.\<close>

lemma node_new_sound:
  "(case node_new ops now cfg k of
      Inl _ \<Rightarrow> max_connections cfg = 0 \<or> max_connections_per_ip cfg = 0 \<or> max_connecting cfg = 0
    | Inr (n, k') \<Rightarrow>
        config_ok (nd_config n)
        \<and> max_connections (nd_config n) = max_connections cfg
        \<and> max_connections_per_ip (nd_config n) = max_connections_per_ip cfg
        \<and> max_connecting (nd_config n) = min (max_connecting cfg) (max_connections cfg)
        \<and> nd_permits n = sem_new ops (max_connecting (nd_config n))
        \<and> nd_connections n = connections_default \<and> nd_tasks n = fmempty
        \<and> (case cfg_name cfg of
             None \<Rightarrow> node_name n = Some (nat_to_string k) \<and> k' = k + 1
           | Some nm \<Rightarrow> node_name n = Some nm \<and> k' = k))"
  by (auto simp: node_new_def node_name_def Let_def config_ok_def unat_gt_0 word_less_nat_alt min_def
      split: option.split)

text \<open>Enabling the listener reports the configured address with the bound port, aborts
  nothing, and is undone by the next toggle, which aborts exactly the accept task it spawned and
  gives back the node it started from.\<close>

lemma toggle_listener_roundtrip:
  assumes "nd_listening_addr n = None" and "fmlookup (nd_tasks n) TaskListener = None"
    and "toggle_listener debug reuseport bl handle n = Some (Inr (Some addr), n1, aborted)"
  shows "aborted = [] \<and> listening_addr n1 = Inr addr
    \<and> (\<exists>la. cfg_listener_addr (nd_config n) = Some la \<and> sa_ip addr = sa_ip la)
    \<and> toggle_listener debug reuseport bl' handle' n1 = Some (Inr None, n, [handle])"
proof -
  have "n1 = n\<lparr>nd_tasks := fmupd TaskListener handle (nd_tasks n), nd_listening_addr := Some addr\<rparr>"
    "aborted = []" "\<exists>la. cfg_listener_addr (nd_config n) = Some la \<and> sa_ip addr = sa_ip la"
    using assms
    by (auto simp: toggle_listener_def start_listening_def unregistered_register_def
        unregistered_new_def unregistered_drop_def register_task_def Let_def
        split: option.splits if_splits sum.splits)
  with assms(1,2) show ?thesis
    by (simp add: toggle_listener_def listening_addr_def fmdrop_new)
qed



end
