(* ===== verification/Node_System.thy ===== *)
theory Node_System
  imports Node
begin

text \<open>
  The node under concurrency: every task that sets a connection up, schedules an \<open>OnConnect\<close>
  hook, disconnects, or shuts the node down is a thread with a program counter, and one step
  of the system is one lock-protected section (or one local move) of one thread, in any
  order. The state-changing parts of the rules are the operations of theory \<open>Node\<close>.

  Futures can be dropped at their await points: the rules \<open>dial_abandoned\<close>, \<open>setup_failed\<close>,
  \<open>wire_failed\<close>, \<open>await_done\<close>, \<open>disc_abandoned\<close>, \<open>hook_skipped\<close>, \<open>hook_done\<close> and \<open>sd_cancelled\<close>
  cover a cancellation together with the failures that take the same path. Steps of the rest
  of the program (listener, protocol handlers, statistics) may change everything but the
  connection bookkeeping (\<open>env\<close>, \<open>conn_stats\<close>).
\<close>

section \<open>Threads\<close>

text \<open>A connection setup: \<open>connect_inner\<close> or \<open>handle_connection_request\<close> with \<open>adapt_stream\<close>. The
  boolean of a counter says whether the thread holds the \<open>SchedulingGuard\<close>.\<close>

datatype setup_pc =
    CheckShutdown | CheckSelf | CheckDuplicate | Budget
  | Admitting
  | Permitted
  | Reserved
  | Wiring connection
  | Wired connection
  | Counted connection bool
  | Added u64 bool
  | Registered u64 bool
  | RollingBack bool
  | Uncounting
  | AwaitSched nat
  | Finishing

record setup_thread =
  su_addr :: socket_addr
  su_side :: connection_side
  su_pc :: setup_pc

text \<open>The checks of \<open>connect_inner\<close>, one read at a time.\<close>

fun dial_check :: "setup_pc \<Rightarrow> socket_addr \<Rightarrow> 'sem node \<Rightarrow> setup_pc io_result option" where
  "dial_check CheckShutdown addr n =
     Some (if is_underway (nd_shutdown n) then Inl shutting_down_error else Inr CheckSelf)"
| "dial_check CheckSelf addr n =
     Some (if self_connect addr n then Inl (IoError AddrInUse (Message ''own address''))
           else Inr CheckDuplicate)"
| "dial_check CheckDuplicate addr n =
     Some (if connections_is_connected (nd_connections n) addr
           then Inl (IoError AlreadyExists (Message ''already connected'')) else Inr Budget)"
| "dial_check _ addr n = None"

text \<open>The scheduling task of \<open>adapt_stream\<close>; the boolean says whether the hook's task has been
  dealt with, so that only the guard is left to drop.\<close>

record sched =
  sc_addr :: socket_addr
  sc_id :: u64
  sc_attached :: bool

text \<open>A call of \<open>disconnect_w_origin\<close>; \<open>dc_owner\<close> is the \<open>shut_down\<close> call that waits for it.\<close>

datatype disc_pc = Claiming | Claimed u64 | Hooked u64 | Finalizing u64 | Removing u64

record disc =
  dc_addr :: socket_addr
  dc_origin :: disconnect_origin
  dc_cid :: "u64 option"
  dc_owner :: "nat option"
  dc_pc :: disc_pc

datatype sd_pc =
    SdBegin | SdTake | SdSnapshot | SdFan "socket_addr fset"
  | SdDrain | SdSched | SdSignal | SdClear | SdDone

section \<open>System states\<close>

text \<open>Histories: \<open>sy_n_ids\<close> counts the identifiers handed out, \<open>sy_claims\<close> lists the connections
  whose disconnect was claimed, \<open>sy_hooks\<close> the \<open>OnDisconnect\<close> triggers, and \<open>sy_joined\<close> every
  connection that entered the active set. \<open>sy_panicked\<close> records a failed assertion.\<close>

record 'sem sys =
  sy_node :: "'sem node"
  sy_next_id :: u64
  sy_setups :: "(nat, setup_thread) fmap"
  sy_scheds :: "(nat, sched) fmap"
  sy_discs :: "(nat, disc) fmap"
  sy_sds :: "(nat, sd_pc) fmap"
  sy_n_ids :: nat
  sy_claims :: "u64 list"
  sy_hooks :: "(u64 \<times> disconnect_origin) list"
  sy_joined :: "u64 list"
  sy_panicked :: bool

text \<open>A fresh node: what \<open>node_new\<close> returns for a configuration it accepts.\<close>

definition sys_start :: "'sem sem_ops \<Rightarrow> 'sem sys \<Rightarrow> bool" where
  "sys_start ops s \<longleftrightarrow>
     (\<exists>now cfg k k'. node_new ops now cfg k = Inr (sy_node s, k'))
     \<and> sy_next_id s = 0 \<and> sy_setups s = fmempty \<and> sy_scheds s = fmempty
     \<and> sy_discs s = fmempty \<and> sy_sds s = fmempty \<and> sy_n_ids s = 0 \<and> sy_claims s = []
     \<and> sy_hooks s = [] \<and> sy_joined s = [] \<and> \<not> sy_panicked s"

text \<open>Updates of one thread.\<close>

definition upd_setup :: "nat \<Rightarrow> setup_thread \<Rightarrow> setup_pc \<Rightarrow> 'sem sys \<Rightarrow> 'sem sys" where
  "upd_setup k su pc s = s\<lparr>sy_setups := fmupd k (su\<lparr>su_pc := pc\<rparr>) (sy_setups s)\<rparr>"

definition del_setup :: "nat \<Rightarrow> 'sem sys \<Rightarrow> 'sem sys" where
  "del_setup k s = s\<lparr>sy_setups := fmdrop k (sy_setups s)\<rparr>"

definition upd_disc :: "nat \<Rightarrow> disc \<Rightarrow> disc_pc \<Rightarrow> 'sem sys \<Rightarrow> 'sem sys" where
  "upd_disc k d pc s = s\<lparr>sy_discs := fmupd k (d\<lparr>dc_pc := pc\<rparr>) (sy_discs s)\<rparr>"

definition del_disc :: "nat \<Rightarrow> 'sem sys \<Rightarrow> 'sem sys" where
  "del_disc k s = s\<lparr>sy_discs := fmdrop k (sy_discs s)\<rparr>"

definition upd_sd :: "nat \<Rightarrow> sd_pc \<Rightarrow> 'sem sys \<Rightarrow> 'sem sys" where
  "upd_sd k pc s = s\<lparr>sy_sds := fmupd k pc (sy_sds s)\<rparr>"

definition set_node :: "'sem node \<Rightarrow> 'sem sys \<Rightarrow> 'sem sys" where
  "set_node n s = s\<lparr>sy_node := n\<rparr>"

text \<open>The node after a rejected reservation: an inbound one is counted.\<close>

definition rejected :: "connection_side \<Rightarrow> 'sem node \<Rightarrow> 'sem node" where
  "rejected own_side n =
     (case own_side of
        Initiator \<Rightarrow> n
      | Responder \<Rightarrow> n\<lparr>nd_heuristics := register_inbound_rejection (nd_heuristics n)\<rparr>)"

section \<open>Steps\<close>

inductive node_step :: "bool \<Rightarrow> 'sem sem_ops \<Rightarrow> 'sem sys \<Rightarrow> 'sem sys \<Rightarrow> bool"
  for debug :: bool and ops :: "'sem sem_ops"
where
  dial_started:
    "fmlookup (sy_setups s) k = None \<Longrightarrow>
     node_step debug ops s
       (s\<lparr>sy_setups := fmupd k \<lparr>su_addr = a, su_side = Initiator, su_pc = CheckShutdown\<rparr>
            (sy_setups s)\<rparr>)"
| dial_passed:
    "fmlookup (sy_setups s) k = Some su \<Longrightarrow>
     dial_check (su_pc su) (su_addr su) (sy_node s) = Some (Inr pc) \<Longrightarrow>
     node_step debug ops s (upd_setup k su pc s)"
| dial_refused:
    "fmlookup (sy_setups s) k = Some su \<Longrightarrow>
     dial_check (su_pc su) (su_addr su) (sy_node s) = Some (Inl e) \<Longrightarrow>
     node_step debug ops s (del_setup k s)"
| dial_abandoned:
    "fmlookup (sy_setups s) k = Some su \<Longrightarrow> su_pc su = CheckSelf \<Longrightarrow>
     node_step debug ops s (del_setup k s)"
| budget_taken:
    "fmlookup (sy_setups s) k = Some su \<Longrightarrow> su_pc su = Budget \<Longrightarrow>
     take_permit ops (sy_node s) = (Inr u, n) \<Longrightarrow>
     node_step debug ops s (set_node n (upd_setup k su Permitted s))"
| budget_refused:
    "fmlookup (sy_setups s) k = Some su \<Longrightarrow> su_pc su = Budget \<Longrightarrow>
     take_permit ops (sy_node s) = (Inl e, n) \<Longrightarrow>
     node_step debug ops s (set_node n (del_setup k s))"
| accepted:
    "fmlookup (sy_setups s) k = None \<Longrightarrow>
     sem_try_acquire ops (nd_permits (sy_node s)) = Some sem \<Longrightarrow>
     node_step debug ops s
       (s\<lparr>sy_node := (sy_node s)\<lparr>nd_permits := sem\<rparr>,
          sy_setups := fmupd k \<lparr>su_addr = a, su_side = Responder, su_pc = Admitting\<rparr>
            (sy_setups s)\<rparr>)"
| inbound_passed:
    "fmlookup (sy_setups s) k = Some su \<Longrightarrow> su_pc su = Admitting \<Longrightarrow>
     \<not> is_underway (nd_shutdown (sy_node s)) \<Longrightarrow>
     node_step debug ops s (upd_setup k su Permitted s)"
| inbound_refused:
    "fmlookup (sy_setups s) k = Some su \<Longrightarrow> su_pc su = Admitting \<Longrightarrow>
     is_underway (nd_shutdown (sy_node s)) \<Longrightarrow>
     node_step debug ops s (upd_setup k su Finishing s)"
| reserved:
    "fmlookup (sy_setups s) k = Some su \<Longrightarrow> su_pc su = Permitted \<Longrightarrow>
     check_and_reserve (su_addr su) (sy_node s) = (Inr g, n) \<Longrightarrow>
     node_step debug ops s (set_node n (upd_setup k su Reserved s))"
| reserve_refused:
    "fmlookup (sy_setups s) k = Some su \<Longrightarrow> su_pc su = Permitted \<Longrightarrow>
     check_and_reserve (su_addr su) (sy_node s) = (Inl e, n) \<Longrightarrow>
     node_step debug ops s (set_node (rejected (su_side su) n) (upd_setup k su Finishing s))"
| stream_ready:
    "fmlookup (sy_setups s) k = Some su \<Longrightarrow> su_pc su = Reserved \<Longrightarrow>
     connection_new (sy_next_id s) now (su_addr su) strm (side_not (su_side su)) = (conn, i) \<Longrightarrow>
     node_step debug ops s
       (upd_setup k su (Wiring conn) (s\<lparr>sy_next_id := i, sy_n_ids := Suc (sy_n_ids s)\<rparr>))"
| setup_failed:
    "fmlookup (sy_setups s) k = Some su \<Longrightarrow> su_pc su = Reserved \<Longrightarrow> su_side su = Initiator \<Longrightarrow>
     node_step debug ops s (upd_setup k su (RollingBack False) s)"
| wire_passed:
    "fmlookup (sy_setups s) k = Some su \<Longrightarrow> su_pc su = Wiring conn \<Longrightarrow>
     conn_id conn' = conn_id conn \<Longrightarrow> conn_addr conn' = conn_addr conn \<Longrightarrow>
     conn_side conn' = conn_side conn \<Longrightarrow> disconnecting conn' = disconnecting conn \<Longrightarrow>
     node_step debug ops s (upd_setup k su (Wired conn') s)"
| wire_failed:
    "fmlookup (sy_setups s) k = Some su \<Longrightarrow> su_pc su = Wiring conn \<Longrightarrow>
     node_step debug ops s (upd_setup k su (RollingBack False) s)"
| sched_counted:
    "fmlookup (sy_setups s) k = Some su \<Longrightarrow> su_pc su = Wired conn \<Longrightarrow>
     has_on_connect (nd_protocols (sy_node s)) \<Longrightarrow>
     node_step debug ops s
       (set_node ((sy_node s)\<lparr>nd_shutdown := sched_started (nd_shutdown (sy_node s))\<rparr>)
          (upd_setup k su (Counted conn True) s))"
| sched_skipped:
    "fmlookup (sy_setups s) k = Some su \<Longrightarrow> su_pc su = Wired conn \<Longrightarrow>
     \<not> has_on_connect (nd_protocols (sy_node s)) \<Longrightarrow>
     node_step debug ops s (upd_setup k su (Counted conn False) s)"
| added:
    "fmlookup (sy_setups s) k = Some su \<Longrightarrow> su_pc su = Counted conn b \<Longrightarrow>
     add_active (is_underway (nd_shutdown (sy_node s))) conn
       \<lparr>guard_addr = su_addr su, guard_completed = False\<rparr> (nd_connections (sy_node s))
       = (Inr g, cs) \<Longrightarrow>
     node_step debug ops s
       (set_node ((sy_node s)\<lparr>nd_connections := cs\<rparr>)
          (upd_setup k su (Added (conn_id conn) b) (s\<lparr>sy_joined := sy_joined s @ [conn_id conn]\<rparr>)))"
| add_refused:
    "fmlookup (sy_setups s) k = Some su \<Longrightarrow> su_pc su = Counted conn b \<Longrightarrow>
     add_active (is_underway (nd_shutdown (sy_node s))) conn
       \<lparr>guard_addr = su_addr su, guard_completed = False\<rparr> (nd_connections (sy_node s))
       = (Inl e, cs) \<Longrightarrow>
     node_step debug ops s
       (set_node ((sy_node s)\<lparr>nd_connections := cs\<rparr>) (upd_setup k su (RollingBack b) s))"
| guard_settled:
    "fmlookup (sy_setups s) k = Some su \<Longrightarrow> su_pc su = Added cid b \<Longrightarrow>
     node_guard_drop debug \<lparr>guard_addr = su_addr su, guard_completed = True\<rparr> (sy_node s) = Some n \<Longrightarrow>
     node_step debug ops s (set_node n (upd_setup k su (Registered cid b) s))"
| rolled_back:
    "fmlookup (sy_setups s) k = Some su \<Longrightarrow> su_pc su = RollingBack b \<Longrightarrow>
     node_guard_drop debug \<lparr>guard_addr = su_addr su, guard_completed = False\<rparr> (sy_node s)
       = Some n \<Longrightarrow>
     node_step debug ops s
       (set_node n (upd_setup k su (if b then Uncounting else Finishing) s))"
| rollback_panic:
    "fmlookup (sy_setups s) k = Some su \<Longrightarrow> su_pc su = RollingBack b \<Longrightarrow>
     node_guard_drop debug \<lparr>guard_addr = su_addr su, guard_completed = False\<rparr> (sy_node s) = None \<Longrightarrow>
     node_step debug ops s (s\<lparr>sy_panicked := True\<rparr>)"
| uncounted:
    "fmlookup (sy_setups s) k = Some su \<Longrightarrow> su_pc su = Uncounting \<Longrightarrow>
     node_step debug ops s
       (set_node ((sy_node s)\<lparr>nd_shutdown := sched_finished (nd_shutdown (sy_node s))\<rparr>)
          (upd_setup k su Finishing s))"
| sched_spawned:
    "fmlookup (sy_setups s) k = Some su \<Longrightarrow> su_pc su = Registered cid True \<Longrightarrow>
     fmlookup (sy_scheds s) j = None \<Longrightarrow>
     node_step debug ops s
       (upd_setup k su (AwaitSched j)
          (s\<lparr>sy_scheds := fmupd j \<lparr>sc_addr = su_addr su, sc_id = cid, sc_attached = False\<rparr>
               (sy_scheds s)\<rparr>))"
| no_sched:
    "fmlookup (sy_setups s) k = Some su \<Longrightarrow> su_pc su = Registered cid False \<Longrightarrow>
     node_step debug ops s (upd_setup k su Finishing s)"
| hook_attached:
    "fmlookup (sy_scheds s) j = Some sc \<Longrightarrow> \<not> sc_attached sc \<Longrightarrow>
     attach_on_connect resp (sc_addr sc) (sc_id sc) (sy_node s) = (fate, n) \<Longrightarrow>
     node_step debug ops s
       (set_node n (s\<lparr>sy_scheds := fmupd j (sc\<lparr>sc_attached := True\<rparr>) (sy_scheds s)\<rparr>))"
| sched_done:
    "fmlookup (sy_scheds s) j = Some sc \<Longrightarrow> sc_attached sc \<Longrightarrow>
     node_step debug ops s
       (set_node ((sy_node s)\<lparr>nd_shutdown := sched_finished (nd_shutdown (sy_node s))\<rparr>)
          (s\<lparr>sy_scheds := fmdrop j (sy_scheds s)\<rparr>))"
| await_done:
    "fmlookup (sy_setups s) k = Some su \<Longrightarrow> su_pc su = AwaitSched j \<Longrightarrow>
     fmlookup (sy_scheds s) j = None \<or> su_side su = Initiator \<Longrightarrow>
     node_step debug ops s (upd_setup k su Finishing s)"
| finished:
    "fmlookup (sy_setups s) k = Some su \<Longrightarrow> su_pc su = Finishing \<Longrightarrow>
     node_step debug ops s (set_node (drop_permit ops (sy_node s)) (del_setup k s))"
| disc_started:
    "fmlookup (sy_discs s) k = None \<Longrightarrow>
     node_step debug ops s
       (s\<lparr>sy_discs := fmupd k \<lparr>dc_addr = a, dc_origin = org, dc_cid = cid, dc_owner = None,
            dc_pc = Claiming\<rparr> (sy_discs s)\<rparr>)"
| disc_abandoned:
    "fmlookup (sy_discs s) k = Some d \<Longrightarrow> dc_pc d = Claiming \<Longrightarrow>
     (case dc_owner d of None \<Rightarrow> True | Some j \<Rightarrow> fmlookup (sy_sds s) j = None) \<Longrightarrow>
     node_step debug ops s (del_disc k s)"
| claim_refused:
    "fmlookup (sy_discs s) k = Some d \<Longrightarrow> dc_pc d = Claiming \<Longrightarrow>
     claim_disconnect (dc_addr d) (dc_cid d) (sy_node s) = None \<Longrightarrow>
     node_step debug ops s (del_disc k s)"
| claimed:
    "fmlookup (sy_discs s) k = Some d \<Longrightarrow> dc_pc d = Claiming \<Longrightarrow>
     claim_disconnect (dc_addr d) (dc_cid d) (sy_node s) = Some n \<Longrightarrow>
     fmlookup (active (nd_connections (sy_node s))) (dc_addr d) = Some conn \<Longrightarrow>
     node_step debug ops s
       (set_node n
          (upd_disc k d (Claimed (conn_id conn)) (s\<lparr>sy_claims := sy_claims s @ [conn_id conn]\<rparr>)))"
| hook_skipped:
    "fmlookup (sy_discs s) k = Some d \<Longrightarrow> dc_pc d = Claimed i \<Longrightarrow>
     node_step debug ops s (upd_disc k d (Finalizing i) s)"
| hook_triggered:
    "fmlookup (sy_discs s) k = Some d \<Longrightarrow> dc_pc d = Claimed i \<Longrightarrow>
     has_on_disconnect (nd_protocols (sy_node s)) \<Longrightarrow>
     attach_on_disconnect debug h (dc_addr d) (sy_node s) = Some (fate, n) \<Longrightarrow>
     node_step debug ops s
       (set_node n (upd_disc k d (Hooked i) (s\<lparr>sy_hooks := sy_hooks s @ [(i, dc_origin d)]\<rparr>)))"
| hook_panic:
    "fmlookup (sy_discs s) k = Some d \<Longrightarrow> dc_pc d = Claimed i \<Longrightarrow>
     has_on_disconnect (nd_protocols (sy_node s)) \<Longrightarrow>
     attach_on_disconnect debug h (dc_addr d) (sy_node s) = None \<Longrightarrow>
     node_step debug ops s (s\<lparr>sy_panicked := True\<rparr>)"
| hook_done:
    "fmlookup (sy_discs s) k = Some d \<Longrightarrow> dc_pc d = Hooked i \<Longrightarrow>
     node_step debug ops s (upd_disc k d (Finalizing i) s)"
| sender_removed:
    "fmlookup (sy_discs s) k = Some d \<Longrightarrow> dc_pc d = Finalizing i \<Longrightarrow>
     node_step debug ops s
       (set_node (finalizer_senders (dc_addr d) (sy_node s)) (upd_disc k d (Removing i) s))"
| conn_removed:
    "fmlookup (sy_discs s) k = Some d \<Longrightarrow> dc_pc d = Removing i \<Longrightarrow>
     finalizer_remove debug (dc_addr d) (sy_node s) = Some (ts, n) \<Longrightarrow>
     node_step debug ops s (set_node n (del_disc k s))"
| remove_panic:
    "fmlookup (sy_discs s) k = Some d \<Longrightarrow> dc_pc d = Removing i \<Longrightarrow>
     finalizer_remove debug (dc_addr d) (sy_node s) = None \<Longrightarrow>
     node_step debug ops s (s\<lparr>sy_panicked := True\<rparr>)"
| sd_called:
    "fmlookup (sy_sds s) k = None \<Longrightarrow> node_step debug ops s (upd_sd k SdBegin s)"
| sd_begun:
    "fmlookup (sy_sds s) k = Some SdBegin \<Longrightarrow>
     node_step debug ops s (set_node (begin_shutdown (sy_node s)) (upd_sd k SdTake s))"
| sd_taken:
    "fmlookup (sy_sds s) k = Some SdTake \<Longrightarrow> take_tasks (sy_node s) = (rest, n, ts) \<Longrightarrow>
     node_step debug ops s (set_node n (upd_sd k SdSnapshot s))"
| sd_snapshot:
    "fmlookup (sy_sds s) k = Some SdSnapshot \<Longrightarrow>
     node_step debug ops s (upd_sd k (SdFan (connected_addrs (sy_node s))) s)"
| sd_launched:
    "fmlookup (sy_sds s) k = Some (SdFan as) \<Longrightarrow> a |\<in>| as \<Longrightarrow> fmlookup (sy_discs s) j = None \<Longrightarrow>
     node_step debug ops s
       (upd_sd k (SdFan (as |-| {|a|}))
          (s\<lparr>sy_discs := fmupd j \<lparr>dc_addr = a, dc_origin = OriginShutdown, dc_cid = None,
               dc_owner = Some k, dc_pc = Claiming\<rparr> (sy_discs s)\<rparr>))"
| sd_joined:
    "fmlookup (sy_sds s) k = Some (SdFan {||}) \<Longrightarrow>
     (\<forall>j d. fmlookup (sy_discs s) j = Some d \<longrightarrow> dc_owner d \<noteq> Some k) \<Longrightarrow>
     node_step debug ops s (upd_sd k SdDrain s)"
| sd_drained:
    "fmlookup (sy_sds s) k = Some SdDrain \<Longrightarrow>
     active (nd_connections (sy_node s)) = fmempty \<Longrightarrow>
     node_step debug ops s (upd_sd k SdSched s)"
| sd_sched_drained:
    "fmlookup (sy_sds s) k = Some SdSched \<Longrightarrow>
     sched_in_flight (nd_shutdown (sy_node s)) = 0 \<Longrightarrow>
     node_step debug ops s (upd_sd k SdSignal s)"
| sd_signalled:
    "fmlookup (sy_sds s) k = Some SdSignal \<Longrightarrow>
     node_step debug ops s (set_node (signal_shutdown (sy_node s)) (upd_sd k SdClear s))"
| sd_cleared:
    "fmlookup (sy_sds s) k = Some SdClear \<Longrightarrow>
     node_step debug ops s (set_node (clear_listening_addr (sy_node s)) (upd_sd k SdDone s))"
| sd_cancelled:
    "fmlookup (sy_sds s) k = Some pc \<Longrightarrow> pc \<noteq> SdDone \<Longrightarrow>
     node_step debug ops s (s\<lparr>sy_sds := fmdrop k (sy_sds s)\<rparr>)"
| env:
    "nd_connections n = nd_connections (sy_node s) \<Longrightarrow> nd_permits n = nd_permits (sy_node s) \<Longrightarrow>
     nd_config n = nd_config (sy_node s) \<Longrightarrow> nd_shutdown n = nd_shutdown (sy_node s) \<Longrightarrow>
     node_step debug ops s (set_node n s)"
| conn_stats:
    "fmlookup (active (nd_connections (sy_node s))) a = Some conn \<Longrightarrow>
     node_step debug ops s
       (set_node ((sy_node s)\<lparr>nd_connections := (nd_connections (sy_node s))\<lparr>active :=
          fmupd a (conn\<lparr>conn_info := (conn_info conn)\<lparr>info_stats := st\<rparr>\<rparr>)
            (active (nd_connections (sy_node s)))\<rparr>\<rparr>) s)"

abbreviation sys_run :: "bool \<Rightarrow> 'sem sem_ops \<Rightarrow> 'sem sys \<Rightarrow> 'sem sys \<Rightarrow> bool" where
  "sys_run debug ops \<equiv> (node_step debug ops)\<^sup>*\<^sup>*"

end
