(* ===== verification/Node_Invariants.thy ===== *)
theory Node_Invariants
  imports Node_System
begin

text \<open>
  The invariants of the interleaved node, each with its own preservation lemma over the steps
  of \<open>node_step\<close>: the permits of the connection-setup budget, the pending set, the active set,
  the per-IP charges, the connection caps, the claims of disconnects and the count of
  scheduling guards. Counting the threads at the relevant program points turns "exactly one
  owner" into an equation, so that each step is arithmetic on one updated map.
\<close>

section \<open>Program points\<close>

text \<open>Setups that hold a permit, an uncompleted guard, any guard, a scheduling guard, and the
  connection object not yet in the active set.\<close>

fun holds_permit :: "setup_pc \<Rightarrow> bool" where
  "holds_permit CheckShutdown = False"
| "holds_permit CheckSelf = False"
| "holds_permit CheckDuplicate = False"
| "holds_permit Budget = False"
| "holds_permit _ = True"

fun pending :: "setup_pc \<Rightarrow> bool" where
  "pending Reserved = True"
| "pending (Wiring _) = True"
| "pending (Wired _) = True"
| "pending (Counted _ _) = True"
| "pending (RollingBack _) = True"
| "pending _ = False"

fun guarded :: "setup_pc \<Rightarrow> bool" where
  "guarded (Added _ _) = True"
| "guarded pc = pending pc"

fun counted :: "setup_pc \<Rightarrow> bool" where
  "counted (Counted _ b) = b"
| "counted (Added _ b) = b"
| "counted (Registered _ b) = b"
| "counted (RollingBack b) = b"
| "counted Uncounting = True"
| "counted _ = False"

fun pc_conn :: "setup_pc \<Rightarrow> connection option" where
  "pc_conn (Wiring c) = Some c"
| "pc_conn (Wired c) = Some c"
| "pc_conn (Counted c _) = Some c"
| "pc_conn _ = None"

text \<open>The connection whose finalizer a disconnect call holds.\<close>

fun claimed_id :: "disc_pc \<Rightarrow> u64 option" where
  "claimed_id Claiming = None"
| "claimed_id (Claimed i) = Some i"
| "claimed_id (Hooked i) = Some i"
| "claimed_id (Finalizing i) = Some i"
| "claimed_id (Removing i) = Some i"

section \<open>The active set as the invariants see it\<close>

text \<open>What the invariants need to know of an active connection.\<close>

record peer =
  p_id :: u64
  p_addr :: socket_addr
  p_side :: connection_side
  p_disc :: bool

definition peer_of :: "connection \<Rightarrow> peer" where
  "peer_of c = \<lparr>p_id = conn_id c, p_addr = conn_addr c, p_side = conn_side c,
     p_disc = disconnecting c\<rparr>"

definition peers :: "'sem node \<Rightarrow> (socket_addr, peer) fmap" where
  "peers n = fmmap peer_of (active (nd_connections n))"

lemma peer_of_sel [simp]:
  "p_id (peer_of c) = conn_id c" "p_addr (peer_of c) = conn_addr c"
  "p_side (peer_of c) = conn_side c" "p_disc (peer_of c) = disconnecting c"
  by (simp_all add: peer_of_def)

lemma peers_lookup:
  "fmlookup (peers n) a = map_option peer_of (fmlookup (active (nd_connections n)) a)"
  by (simp add: peers_def)

lemma peers_cong [simp]:
  "peers (n\<lparr>nd_permits := x\<rparr>) = peers n" "peers (n\<lparr>nd_heuristics := h\<rparr>) = peers n"
  "peers (n\<lparr>nd_shutdown := sd\<rparr>) = peers n" "peers (n\<lparr>nd_tasks := ts\<rparr>) = peers n"
  "peers (n\<lparr>nd_protocols := ps\<rparr>) = peers n" "peers (n\<lparr>nd_listening_addr := la\<rparr>) = peers n"
  "peers (n\<lparr>nd_connections := cs\<lparr>limits := l\<rparr>\<rparr>) = peers (n\<lparr>nd_connections := cs\<rparr>)"
  "peers (n\<lparr>nd_connections := nd_connections n\<rparr>) = peers n"
  by (simp_all add: peers_def)

lemma peers_active_upd [simp]:
  "peers (n\<lparr>nd_connections := (nd_connections n)\<lparr>active := fmupd a c (active (nd_connections n))\<rparr>\<rparr>)
   = fmupd a (peer_of c) (peers n)"
  by (simp add: peers_def)

lemma peers_same [simp]:
  "fmlookup (active (nd_connections n)) a = Some c \<Longrightarrow> fmupd a (peer_of c) (peers n) = peers n"
  by (rule fmupd_id) (simp add: peers_def)

lemma peer_of_upd [simp]:
  "peer_of (c\<lparr>conn_tasks := ts\<rparr>) = peer_of c"
  "peer_of (c\<lparr>disconnecting := b\<rparr>) = (peer_of c)\<lparr>p_disc := b\<rparr>"
  "peer_of (c\<lparr>conn_info := (conn_info c)\<lparr>info_stats := st\<rparr>\<rparr>) = peer_of c"
  by (simp_all add: peer_of_def)

abbreviation sy_peers :: "'sem sys \<Rightarrow> (socket_addr, peer) fmap" where
  "sy_peers s \<equiv> peers (sy_node s)"

abbreviation sy_limits :: "'sem sys \<Rightarrow> connection_limits" where
  "sy_limits s \<equiv> limits (nd_connections (sy_node s))"

abbreviation sy_config :: "'sem sys \<Rightarrow> config" where
  "sy_config s \<equiv> nd_config (sy_node s)"

lemmas sys_defs = upd_setup_def del_setup_def upd_disc_def del_disc_def upd_sd_def set_node_def

lemma dial_check_Inr:
  "dial_check pc a n = Some (Inr pc') \<Longrightarrow>
   \<not> holds_permit pc \<and> \<not> holds_permit pc' \<and> \<not> guarded pc \<and> \<not> guarded pc' \<and> \<not> pending pc
   \<and> \<not> pending pc' \<and> \<not> counted pc \<and> \<not> counted pc' \<and> pc_conn pc = None \<and> pc_conn pc' = None"
  by (cases pc) (auto split: if_splits)

lemma dial_check_Inl:
  "dial_check pc a n = Some (Inl e) \<Longrightarrow>
   \<not> holds_permit pc \<and> \<not> guarded pc \<and> \<not> pending pc \<and> \<not> counted pc \<and> pc_conn pc = None"
  by (cases pc) (auto split: if_splits)

section \<open>Frames\<close>

named_theorems frames \<open>what the operations change and leave alone\<close>

text \<open>Everything but the connection bookkeeping.\<close>

definition same_rest :: "'sem node \<Rightarrow> 'sem node \<Rightarrow> bool" where
  "same_rest n' n \<longleftrightarrow> nd_permits n' = nd_permits n \<and> nd_config n' = nd_config n
     \<and> nd_shutdown n' = nd_shutdown n \<and> nd_protocols n' = nd_protocols n"

lemma same_restD [frames]:
  assumes "same_rest n' n"
  shows "nd_permits n' = nd_permits n \<and> nd_config n' = nd_config n
     \<and> nd_shutdown n' = nd_shutdown n \<and> nd_protocols n' = nd_protocols n"
  using assms by (simp add: same_rest_def)

lemma take_permit_frame [frames]:
  "take_permit ops n = (r, n') \<Longrightarrow> nd_connections n' = nd_connections n \<and> nd_config n' = nd_config n
     \<and> nd_shutdown n' = nd_shutdown n \<and> nd_protocols n' = nd_protocols n \<and> peers n' = peers n"
  by (auto simp: take_permit_def split: option.splits)

lemma check_and_reserve_frame [frames]:
  "check_and_reserve a n = (Inr g, n') \<Longrightarrow> a |\<notin>| connecting (limits (nd_connections n))
     \<and> fmlookup (peers n) a = None
     \<and> ip_charge (limits (nd_connections n)) (canonical_ip a) < max_connections_per_ip (nd_config n)
     \<and> fmlen (peers n) + fcard (connecting (limits (nd_connections n)))
       < max_connections (nd_config n)
     \<and> limits (nd_connections n') = limits_reserve (limits (nd_connections n)) a
     \<and> peers n' = peers n \<and> same_rest n' n"
  by (frule check_and_reserve_Inr(7)) (simp add: check_and_reserve_Inr peers_def same_rest_def)

lemma add_active_frame [frames]:
  "add_active u conn g cs = (Inr g', cs') \<Longrightarrow>
     \<not> u \<and> cs' = cs\<lparr>active := fmupd (conn_addr conn) conn (active cs)\<rparr>"
  by (auto simp: add_active_def split: if_splits)

lemma add_active_Inl_frame [frames]:
  "add_active u conn g cs = (Inl e, cs') \<Longrightarrow> u \<and> cs' = cs"
  by (auto simp: add_active_def split: if_splits)

lemma node_guard_drop_frame:
  assumes "node_guard_drop d g n = Some n'"
  shows "same_rest n' n \<and> peers n' = peers n
     \<and> (\<forall>a. a |\<in>| connecting (limits (nd_connections n'))
          \<longleftrightarrow> a |\<in>| connecting (limits (nd_connections n)) \<and> a \<noteq> guard_addr g)"
proof -
  let ?l = "limits (nd_connections n)"
  define l1 where "l1 = ?l\<lparr>connecting := connecting ?l |-| {|guard_addr g|}\<rparr>"
  obtain l where "connecting l = connecting l1"
    and "n' = n\<lparr>nd_connections := (nd_connections n)\<lparr>limits := l\<rparr>\<rparr>"
  proof (cases "guard_completed g")
    case True
    with assms show ?thesis
      by (intro that [of l1]) (simp_all add: node_guard_drop_def guard_drop_def Let_def l1_def)
  next
    case False
    with assms obtain l where "limits_release_ip d l1 (guard_addr g) = Some l"
      and "n' = n\<lparr>nd_connections := (nd_connections n)\<lparr>limits := l\<rparr>\<rparr>"
      by (auto simp: node_guard_drop_def guard_drop_def Let_def l1_def)
    then show ?thesis
      by (intro that [of l]) (simp_all add: limits_release_connecting)
  qed
  then show ?thesis
    by (simp add: same_rest_def peers_def l1_def)
qed

lemma attach_on_connect_frame [frames]:
  "attach_on_connect resp a cid n = (fate, n') \<Longrightarrow> same_rest n' n \<and> peers n' = peers n
     \<and> limits (nd_connections n') = limits (nd_connections n)"
  by (auto simp: attach_on_connect_def Let_def same_rest_def split: option.splits if_splits)

lemma claim_disconnect_frame [frames]:
  "claim_disconnect a cid n = Some n' \<Longrightarrow> same_rest n' n
     \<and> (\<exists>p. fmlookup (peers n) a = Some p \<and> \<not> p_disc p \<and> (\<forall>i. cid = Some i \<longrightarrow> p_id p = i)
         \<and> peers n' = fmupd a (p\<lparr>p_disc := True\<rparr>) (peers n))
     \<and> limits (nd_connections n') = limits (nd_connections n)"
  by (auto simp: claim_disconnect_def Let_def same_rest_def peers_lookup split: option.splits if_splits)

lemma attach_on_disconnect_frame [frames]:
  "attach_on_disconnect d h a n = Some (fate, n') \<Longrightarrow> same_rest n' n \<and> peers n' = peers n
     \<and> limits (nd_connections n') = limits (nd_connections n)"
  by (auto simp: attach_on_disconnect_def Let_def same_rest_def split: option.splits if_splits)

lemma connections_remove_sel [simp]:
  "limits (snd (connections_remove a cs)) = limits cs"
  "active (snd (connections_remove a cs)) = fmdrop a (active cs)"
  by (simp_all add: connections_remove_def Let_def)

lemma finalizer_remove_frame:
  assumes "finalizer_remove d a n = Some (ts, n')"
  shows "same_rest n' n \<and> peers n' = fmdrop a (peers n)
     \<and> (\<forall>x. x |\<in>| connecting (limits (nd_connections n'))
          \<longleftrightarrow> x |\<in>| connecting (limits (nd_connections n)))"
proof -
  obtain l where l: "limits_release_ip d (limits (nd_connections n)) a = Some l"
    using assms by (cases "limits_release_ip d (limits (nd_connections n)) a")
      (simp_all add: finalizer_remove_def case_prod_beta)
  with assms have "n' = n\<lparr>nd_connections :=
      (snd (connections_remove a (nd_connections n)))\<lparr>limits := l\<rparr>\<rparr>"
    by (simp add: finalizer_remove_def case_prod_beta)
  then show ?thesis
    by (simp add: same_rest_def peers_def limits_release_connecting [OF l])
qed

lemmas strong_frames = node_guard_drop_frame finalizer_remove_frame

lemma node_guard_drop_weak:
  "node_guard_drop d g n = Some n' \<Longrightarrow> same_rest n' n \<and> peers n' = peers n"
  by (simp add: node_guard_drop_frame)

lemma finalizer_remove_weak:
  "finalizer_remove d a n = Some (ts, n') \<Longrightarrow> same_rest n' n \<and> peers n' = fmdrop a (peers n)"
  by (simp add: finalizer_remove_frame)

lemmas weak_frames = node_guard_drop_weak finalizer_remove_weak

lemma finalizer_senders_frame [simp]:
  "nd_permits (finalizer_senders a n) = nd_permits n"
  "nd_config (finalizer_senders a n) = nd_config n"
  "nd_shutdown (finalizer_senders a n) = nd_shutdown n"
  "nd_connections (finalizer_senders a n) = nd_connections n"
  "peers (finalizer_senders a n) = peers n"
  by (simp_all add: finalizer_senders_def)

lemma take_tasks_frame [frames]:
  "take_tasks n = (rest, n', ts) \<Longrightarrow> same_rest n' n \<and> nd_connections n' = nd_connections n
     \<and> peers n' = peers n"
  by (auto simp: take_tasks_def Let_def same_rest_def)

lemma rejected_frame [simp]:
  "nd_permits (rejected side n) = nd_permits n"
  "nd_config (rejected side n) = nd_config n"
  "nd_shutdown (rejected side n) = nd_shutdown n"
  "nd_connections (rejected side n) = nd_connections n"
  "peers (rejected side n) = peers n"
  by (simp_all add: rejected_def split: connection_side.split)

lemma nd_connections_frame [frames]:
  "nd_connections n' = nd_connections n \<Longrightarrow>
     peers n' = peers n \<and> limits (nd_connections n') = limits (nd_connections n)"
  by (simp add: peers_def)

declare check_and_reserve_Inl [frames]

lemmas shutdown_defs = begin_shutdown_def shutdown_begin_def signal_shutdown_def signal_handlers_def
  clear_listening_addr_def drop_permit_def is_underway_def

section \<open>Invariants\<close>

text \<open>Every permit of the budget is free or held by one setup.\<close>

definition inv_permits :: "('sem \<Rightarrow> nat) \<Rightarrow> 'sem sys \<Rightarrow> bool" where
  "inv_permits avail s \<longleftrightarrow>
     avail (nd_permits (sy_node s)) + fmcount (\<lambda>_ su. holds_permit (su_pc su)) (sy_setups s)
     = max_connecting (sy_config s)"

lemma semaphore_contractD:
  assumes "semaphore_contract ops avail"
  shows "avail (sem_new ops n) = n" "sem_try_acquire ops x = Some x' \<Longrightarrow> avail x = Suc (avail x')"
    "avail (sem_release ops x) = Suc (avail x)"
  using assms by (auto simp: semaphore_contract_def)

text \<open>Every pending entry belongs to exactly one setup that holds its guard.\<close>

definition guards_exact :: "'sem sys \<Rightarrow> bool" where
  "guards_exact s \<longleftrightarrow>
     (\<forall>a. fmcount (\<lambda>_ su. guarded (su_pc su) \<and> su_addr su = a) (sy_setups s)
        = of_bool (a |\<in>| connecting (sy_limits s)))"

text \<open>An address with an uncompleted guard is not active.\<close>

definition pending_inactive :: "'sem sys \<Rightarrow> bool" where
  "pending_inactive s \<longleftrightarrow>
     (\<forall>k su. fmlookup (sy_setups s) k = Some su \<longrightarrow> pending (su_pc su) \<longrightarrow>
        fmlookup (sy_peers s) (su_addr su) = None)"

text \<open>A connection being set up carries its setup's address and the peer's side.\<close>

definition wiring_ok :: "'sem sys \<Rightarrow> bool" where
  "wiring_ok s \<longleftrightarrow>
     (\<forall>k su c. fmlookup (sy_setups s) k = Some su \<longrightarrow> pc_conn (su_pc su) = Some c \<longrightarrow>
        conn_addr c = su_addr su \<and> conn_side c = side_not (su_side su) \<and> \<not> disconnecting c)"

definition active_keyed :: "'sem sys \<Rightarrow> bool" where
  "active_keyed s \<longleftrightarrow> (\<forall>a p. fmlookup (sy_peers s) a = Some p \<longrightarrow> p_addr p = a)"

text \<open>Every connection being torn down belongs to exactly one call that holds its finalizer.\<close>

definition claims_exact :: "'sem sys \<Rightarrow> bool" where
  "claims_exact s \<longleftrightarrow>
     (\<forall>a. fmcount (\<lambda>_ d. claimed_id (dc_pc d) \<noteq> None \<and> dc_addr d = a) (sy_discs s)
        = of_bool (\<exists>p. fmlookup (sy_peers s) a = Some p \<and> p_disc p))"

definition claims_ids :: "'sem sys \<Rightarrow> bool" where
  "claims_ids s \<longleftrightarrow>
     (\<forall>k d i. fmlookup (sy_discs s) k = Some d \<longrightarrow> claimed_id (dc_pc d) = Some i \<longrightarrow>
        (\<exists>p. fmlookup (sy_peers s) (dc_addr d) = Some p \<and> p_id p = i))"

text \<open>The charge of an IP is the number of its active and pending connections.\<close>

definition charges_exact :: "'sem sys \<Rightarrow> bool" where
  "charges_exact s \<longleftrightarrow> limits_wf (sy_limits s)
     \<and> (\<forall>ip. ip_charge (sy_limits s) ip
          = fmcount (\<lambda>a _. canonical_ip a = ip) (sy_peers s)
            + fmcount (\<lambda>_ su. pending (su_pc su) \<and> canonical_ip (su_addr su) = ip) (sy_setups s))"

text \<open>The configured caps, counting pending connections as connected.\<close>

definition caps_kept :: "'sem sys \<Rightarrow> bool" where
  "caps_kept s \<longleftrightarrow>
     (\<forall>ip. fmcount (\<lambda>a _. canonical_ip a = ip) (sy_peers s)
        + fmcount (\<lambda>_ su. pending (su_pc su) \<and> canonical_ip (su_addr su) = ip) (sy_setups s)
        \<le> max_connections_per_ip (sy_config s))
     \<and> fmlen (sy_peers s) + fmcount (\<lambda>_ su. pending (su_pc su)) (sy_setups s)
       \<le> max_connections (sy_config s)"

text \<open>The scheduling count is the number of scheduling guards alive.\<close>

definition sched_exact :: "'sem sys \<Rightarrow> bool" where
  "sched_exact s \<longleftrightarrow> sched_in_flight (nd_shutdown (sy_node s))
     = fmcount (\<lambda>_ su. counted (su_pc su)) (sy_setups s) + fmlen (sy_scheds s)"

lemma pending_guarded: "pending pc \<Longrightarrow> guarded pc"
  by (cases pc) auto

lemma pc_conn_pending: "pc_conn pc = Some c \<Longrightarrow> pending pc"
  by (cases pc) auto

text \<open>At most one setup per address holds a guard, and at most one call a finalizer.\<close>

lemma guard_unique:
  assumes "guards_exact s" and "fmlookup (sy_setups s) k = Some su" and "guarded (su_pc su)"
    and "fmlookup (sy_setups s) k' = Some su'" and "guarded (su_pc su')" and "su_addr su' = su_addr su"
  shows "k' = k"
  by (rule fmcount_unique [where P = "\<lambda>_ v. guarded (su_pc v) \<and> su_addr v = su_addr su",
        OF _ assms(4) _ assms(2)])
    (use assms in \<open>auto simp: guards_exact_def\<close>)

lemma claim_unique:
  assumes "claims_exact s" and "fmlookup (sy_discs s) k = Some d" and "claimed_id (dc_pc d) = Some i"
    and "fmlookup (sy_discs s) k' = Some d'" and "claimed_id (dc_pc d') = Some i'"
    and "dc_addr d' = dc_addr d"
  shows "k' = k"
  by (rule fmcount_unique [where P = "\<lambda>_ v. claimed_id (dc_pc v) \<noteq> None \<and> dc_addr v = dc_addr d",
        OF _ assms(4) _ assms(2)])
    (use assms in \<open>auto simp: claims_exact_def\<close>)

lemma claimed_disc:
  assumes "claims_exact s" and "fmlookup (sy_discs s) k = Some d" and "claimed_id (dc_pc d) = Some i"
  obtains p where "fmlookup (sy_peers s) (dc_addr d) = Some p" and "p_disc p"
proof -
  have "0 < fmcount (\<lambda>_ v. claimed_id (dc_pc v) \<noteq> None \<and> dc_addr v = dc_addr d) (sy_discs s)"
    by (rule fmcount_pos [OF assms(2)]) (simp add: assms(3))
  with assms(1) have "\<exists>p. fmlookup (sy_peers s) (dc_addr d) = Some p \<and> p_disc p"
    by (simp add: claims_exact_def split: if_splits)
  with that show thesis by blast
qed

lemma connecting_card:
  assumes "guards_exact s"
  shows "fcard (connecting (sy_limits s)) = fmcount (\<lambda>_ su. guarded (su_pc su)) (sy_setups s)"
proof (rule fmcount_image)
  fix k k' su su'
  assume "fmlookup (sy_setups s) k = Some su" "fmlookup (sy_setups s) k' = Some su'"
    "guarded (su_pc su)" "guarded (su_pc su')" "su_addr su = su_addr su'"
  then show "k = k'"
    by (intro guard_unique [OF assms, of k' su' k su])
next
  fix a
  have "a |\<in>| connecting (sy_limits s)
      \<longleftrightarrow> fmcount (\<lambda>_ su. guarded (su_pc su) \<and> su_addr su = a) (sy_setups s) \<noteq> 0"
    using assms by (simp add: guards_exact_def)
  then show "a |\<in>| connecting (sy_limits s)
      \<longleftrightarrow> (\<exists>k su. fmlookup (sy_setups s) k = Some su \<and> guarded (su_pc su) \<and> su_addr su = a)"
    by (simp add: fmcount_0_iff)
qed

lemma pending_le_connecting:
  assumes "guards_exact s"
  shows "fmcount (\<lambda>_ su. pending (su_pc su)) (sy_setups s) \<le> fcard (connecting (sy_limits s))"
  unfolding connecting_card [OF assms] by (intro fmcount_mono pending_guarded)

section \<open>Preservation\<close>

lemma inv_permits_step:
  assumes sem: "semaphore_contract ops avail" and inv: "inv_permits avail s"
    and step: "node_step debug ops s t"
  shows "inv_permits avail t"
  using step
proof cases
  case (budget_taken k su u n)
  from budget_taken(4) obtain sem where "sem_try_acquire ops (nd_permits (sy_node s)) = Some sem"
    and n: "n = (sy_node s)\<lparr>nd_permits := sem\<rparr>" by (rule take_permit_Inr)
  with semaphore_contractD(2) [OF sem] have "avail (nd_permits (sy_node s)) = Suc (avail sem)"
    by blast
  with budget_taken(1-3) n inv show ?thesis
    by (simp add: sys_defs inv_permits_def)
next
  case (budget_refused k su e n)
  with take_permit_Inl(2) [OF budget_refused(4)] inv show ?thesis
    by (simp add: sys_defs inv_permits_def)
next
  case (finished k su)
  then show ?thesis
    using inv fmcount_pos [OF finished(2), of "\<lambda>_ su. holds_permit (su_pc su)"]
    by (simp add: sys_defs inv_permits_def drop_permit_def semaphore_contractD(3) [OF sem])
next
  case (accepted k sem' a)
  with semaphore_contractD(2) [OF sem] have "avail (nd_permits (sy_node s)) = Suc (avail sem')"
    by blast
  with accepted inv show ?thesis
    by (simp add: inv_permits_def)
qed (insert inv,
    auto simp: sys_defs inv_permits_def shutdown_defs
      dest!: frames weak_frames dial_check_Inr dial_check_Inl)

lemma guards_exact_step:
  assumes inv: "guards_exact s" and step: "node_step debug ops s t"
  shows "guards_exact t"
  using step
proof cases
qed (insert inv,
    auto simp: sys_defs guards_exact_def shutdown_defs
      dest!: frames strong_frames dial_check_Inr dial_check_Inl)

lemma wiring_ok_step:
  assumes inv: "wiring_ok s" and step: "node_step debug ops s t"
  shows "wiring_ok t"
  using step
proof cases
qed (insert inv,
    auto simp: sys_defs wiring_ok_def shutdown_defs connection_new_def
      dest!: frames weak_frames dial_check_Inr dial_check_Inl split: if_splits)

lemma active_keyed_step:
  assumes inv: "active_keyed s" and step: "node_step debug ops s t"
  shows "active_keyed t"
  using step
proof cases
qed (insert inv,
    auto simp: sys_defs active_keyed_def shutdown_defs
      dest!: frames weak_frames split: if_splits)

lemma pending_inactive_step:
  assumes inv: "pending_inactive s" and g: "guards_exact s" and w: "wiring_ok s"
    and step: "node_step debug ops s t"
  shows "pending_inactive t"
  using step
proof cases
  case (added k su conn b g' cs)
  then have cs: "cs = (nd_connections (sy_node s))\<lparr>active :=
      fmupd (su_addr su) conn (active (nd_connections (sy_node s)))\<rparr>"
    using w by (auto simp: wiring_ok_def dest!: add_active_frame)
  have other: "su_addr su' \<noteq> su_addr su"
    if "fmlookup (sy_setups s) k' = Some su'" "pending (su_pc su')" "k' \<noteq> k" for k' su'
    using guard_unique [OF g added(2) _ that(1) pending_guarded [OF that(2)]] added(3) that(3)
    by auto
  show ?thesis
    unfolding pending_inactive_def
  proof (intro allI impI)
    fix k' su'
    assume a: "fmlookup (sy_setups t) k' = Some su'" "pending (su_pc su')"
    with added(1) have "k' \<noteq> k" and k': "fmlookup (sy_setups s) k' = Some su'"
      by (auto simp: sys_defs split: if_splits)
    with other a(2) have "su_addr su' \<noteq> su_addr su" by blast
    moreover have "fmlookup (sy_peers s) (su_addr su') = None"
      using inv k' a(2) by (auto simp: pending_inactive_def)
    ultimately show "fmlookup (sy_peers t) (su_addr su') = None"
      using added(1) cs by (simp add: sys_defs)
  qed
qed (insert inv,
    auto simp: sys_defs pending_inactive_def shutdown_defs
      dest!: frames weak_frames dial_check_Inr split: if_splits)

lemma claims_exact_step:
  assumes inv: "claims_exact s" and p: "pending_inactive s" and w: "wiring_ok s"
    and step: "node_step debug ops s t"
  shows "claims_exact t"
  using step
proof cases
  case (added k su conn b g' cs)
  then have cs: "cs = (nd_connections (sy_node s))\<lparr>active :=
      fmupd (su_addr su) conn (active (nd_connections (sy_node s)))\<rparr>" and "\<not> disconnecting conn"
    using w by (auto simp: wiring_ok_def dest!: add_active_frame)
  moreover have "fmlookup (sy_peers s) (su_addr su) = None"
    using p added(2,3) by (auto simp: pending_inactive_def)
  ultimately show ?thesis
    using inv added(1) by (simp add: sys_defs claims_exact_def)
next
  case (conn_removed k d i ts n)
  from inv conn_removed show ?thesis
    by (auto simp: sys_defs claims_exact_def dest!: finalizer_remove_weak split: if_splits)
next
  case (claimed k d n conn)
  from claimed(4) obtain p where p: "fmlookup (sy_peers s) (dc_addr d) = Some p" "\<not> p_disc p"
    "peers n = fmupd (dc_addr d) (p\<lparr>p_disc := True\<rparr>) (sy_peers s)"
    by (blast dest: claim_disconnect_frame)
  with inv claimed(1-3) show ?thesis
    by (simp add: sys_defs claims_exact_def)
qed (insert inv,
    auto simp: sys_defs claims_exact_def shutdown_defs dest!: frames weak_frames)

lemma claims_ids_step:
  assumes inv: "claims_ids s" and c: "claims_exact s" and p: "pending_inactive s"
    and w: "wiring_ok s" and step: "node_step debug ops s t"
  shows "claims_ids t"
  using step
proof cases
  case (added k su conn b g' cs)
  then have cs: "cs = (nd_connections (sy_node s))\<lparr>active :=
      fmupd (su_addr su) conn (active (nd_connections (sy_node s)))\<rparr>"
    using w by (auto simp: wiring_ok_def dest!: add_active_frame)
  moreover have "fmlookup (sy_peers s) (su_addr su) = None"
    using p added(2,3) by (auto simp: pending_inactive_def)
  ultimately show ?thesis
    using inv added(1) by (force simp: sys_defs claims_ids_def)
next
  case (conn_removed k d i ts n)
  have other: "dc_addr d' \<noteq> dc_addr d"
    if "fmlookup (sy_discs s) k' = Some d'" "claimed_id (dc_pc d') = Some i'" "k' \<noteq> k" for k' d' i'
    using claim_unique [OF c conn_removed(2) _ that(1,2)] conn_removed(3) that(3) by auto
  show ?thesis
    unfolding claims_ids_def
  proof (intro allI impI)
    fix k' d' i'
    assume a: "fmlookup (sy_discs t) k' = Some d'" "claimed_id (dc_pc d') = Some i'"
    with conn_removed(1) have "k' \<noteq> k" "fmlookup (sy_discs s) k' = Some d'"
      by (auto simp: sys_defs split: if_splits)
    with other a(2) inv have "dc_addr d' \<noteq> dc_addr d"
      and "\<exists>p. fmlookup (sy_peers s) (dc_addr d') = Some p \<and> p_id p = i'"
      by (blast, auto simp: claims_ids_def)
    with conn_removed(1) finalizer_remove_weak [OF conn_removed(4)]
    show "\<exists>p. fmlookup (sy_peers t) (dc_addr d') = Some p \<and> p_id p = i'"
      by (simp add: sys_defs)
  qed
next
  case (claimed k d n conn)
  from claimed(4) obtain p where p: "fmlookup (sy_peers s) (dc_addr d) = Some p"
    "peers n = fmupd (dc_addr d) (p\<lparr>p_disc := True\<rparr>) (sy_peers s)"
    by (blast dest: claim_disconnect_frame)
  moreover from p(1) claimed(5) have "p_id p = conn_id conn"
    by (auto simp: peers_lookup)
  ultimately show ?thesis
    using inv claimed(1-3) by (force simp: sys_defs claims_ids_def)
qed (insert inv,
    auto simp: sys_defs claims_ids_def shutdown_defs dest!: frames weak_frames)

text \<open>A removal or a rollback meets a positive charge, and takes one off it.\<close>

lemma charges_removed:
  assumes inv: "charges_exact s" and c: "claims_exact s"
    and d: "fmlookup (sy_discs s) k = Some d" "claimed_id (dc_pc d) = Some i"
    and rem: "finalizer_remove debug (dc_addr d) (sy_node s) = Some (ts, n)"
  obtains q where "fmlookup (sy_peers s) (dc_addr d) = Some q"
    and "0 < fmcount (\<lambda>a _. canonical_ip a = canonical_ip (dc_addr d)) (sy_peers s)"
    and "peers n = fmdrop (dc_addr d) (sy_peers s)" and "limits_wf (limits (nd_connections n))"
    and "ip_charge (limits (nd_connections n)) = (ip_charge (sy_limits s))
      (canonical_ip (dc_addr d) := ip_charge (sy_limits s) (canonical_ip (dc_addr d)) - 1)"
proof -
  obtain q where q: "fmlookup (sy_peers s) (dc_addr d) = Some q"
    using claimed_disc [OF c d] by auto
  then have pos: "0 < fmcount (\<lambda>a _. canonical_ip a = canonical_ip (dc_addr d)) (sy_peers s)"
    by (rule fmcount_pos) simp
  with inv have wf: "limits_wf (sy_limits s)" "0 < ip_charge (sy_limits s) (canonical_ip (dc_addr d))"
    by (simp_all add: charges_exact_def)
  from q obtain conn where "fmlookup (active (nd_connections (sy_node s))) (dc_addr d) = Some conn"
    by (auto simp: peers_lookup)
  with wf obtain l where "n = (sy_node s)\<lparr>nd_connections :=
      \<lparr>active = fmdrop (dc_addr d) (active (nd_connections (sy_node s))), limits = l,
        drain_notify = drain_notify (nd_connections (sy_node s)) + 1\<rparr>\<rparr>"
    "limits_wf l" "ip_charge l = (ip_charge (sy_limits s))
      (canonical_ip (dc_addr d) := ip_charge (sy_limits s) (canonical_ip (dc_addr d)) - 1)"
    using rem by (elim finalizer_remove_active [where debug = debug]) auto
  with q pos show ?thesis
    by (intro that [of q]) (simp_all add: peers_def)
qed

lemma charges_rolled_back:
  assumes inv: "charges_exact s" and k: "fmlookup (sy_setups s) k = Some su" "pending (su_pc su)"
    and drop: "node_guard_drop debug \<lparr>guard_addr = su_addr su, guard_completed = False\<rparr> (sy_node s) = Some n"
  obtains l where "0 < fmcount (\<lambda>_ v. pending (su_pc v) \<and> canonical_ip (su_addr v) = canonical_ip (su_addr su)) (sy_setups s)"
    and "n = (sy_node s)\<lparr>nd_connections := (nd_connections (sy_node s))\<lparr>limits := l\<rparr>\<rparr>"
    and "limits_wf l" and "ip_charge l = (ip_charge (sy_limits s))
      (canonical_ip (su_addr su) := ip_charge (sy_limits s) (canonical_ip (su_addr su)) - 1)"
proof -
  have pos: "0 < fmcount (\<lambda>_ v. pending (su_pc v) \<and> canonical_ip (su_addr v) = canonical_ip (su_addr su)) (sy_setups s)"
    by (rule fmcount_pos [OF k(1)]) (simp add: k(2))
  with inv have "limits_wf (sy_limits s)" "0 < ip_charge (sy_limits s) (canonical_ip (su_addr su))"
    by (simp_all add: charges_exact_def)
  then show ?thesis
    using drop that [OF pos] by (elim guard_drop_pending [where debug = debug]) auto
qed

lemma charges_exact_step:
  assumes inv: "charges_exact s" and c: "claims_exact s" and p: "pending_inactive s"
    and w: "wiring_ok s" and step: "node_step debug ops s t"
  shows "charges_exact t"
  using step
proof cases
  case (reserved k su g n)
  have "limits (nd_connections n) = limits_reserve (sy_limits s) (su_addr su)" "peers n = sy_peers s"
    using check_and_reserve_frame [OF reserved(4)] by auto
  then show ?thesis
    using inv reserved(1-3)
    by (auto simp: sys_defs charges_exact_def lim.wf_charge lim.count_charge)
next
  case (added k su conn b g' cs)
  then have cs: "cs = (nd_connections (sy_node s))\<lparr>active :=
      fmupd (su_addr su) conn (active (nd_connections (sy_node s)))\<rparr>"
    using w by (auto simp: wiring_ok_def dest!: add_active_frame)
  moreover have "fmlookup (sy_peers s) (su_addr su) = None"
    using p added(2,3) by (auto simp: pending_inactive_def)
  moreover have "0 < fmcount (\<lambda>_ v. pending (su_pc v) \<and> canonical_ip (su_addr v) = canonical_ip (su_addr su))
      (sy_setups s)"
    by (rule fmcount_pos [OF added(2)]) (simp add: added(3))
  ultimately show ?thesis
    using inv added(1-3) by (simp add: sys_defs charges_exact_def)
next
  case (rolled_back k su b n)
  show ?thesis
    by (rule charges_rolled_back [OF inv rolled_back(2) _ rolled_back(4)])
      (use inv rolled_back(1-3) in \<open>simp_all add: sys_defs charges_exact_def\<close>)
next
  case (guard_settled k su cid b n)
  then show ?thesis
    using inv by (simp add: guard_drop_completed sys_defs charges_exact_def) auto
next
  case (conn_removed k d i ts n)
  show ?thesis
    by (rule charges_removed [OF inv c conn_removed(2) _ conn_removed(4)])
      (use inv conn_removed(1-3) in \<open>simp_all add: sys_defs charges_exact_def\<close>)
next
  case (claimed k d n conn)
  from claimed(4) obtain p where "fmlookup (sy_peers s) (dc_addr d) = Some p"
    "peers n = fmupd (dc_addr d) (p\<lparr>p_disc := True\<rparr>) (sy_peers s)"
    "limits (nd_connections n) = sy_limits s"
    by (blast dest: claim_disconnect_frame)
  with inv claimed(1-3) show ?thesis
    by (simp add: sys_defs charges_exact_def)
qed (insert inv,
    auto simp: sys_defs charges_exact_def shutdown_defs
      dest!: frames weak_frames dial_check_Inr dial_check_Inl)

lemma caps_kept_step:
  assumes inv: "caps_kept s" and ch: "charges_exact s" and c: "claims_exact s"
    and p: "pending_inactive s" and w: "wiring_ok s" and g: "guards_exact s"
    and step: "node_step debug ops s t"
  shows "caps_kept t"
  using step
proof cases
  case (reserved k su g' n)
  have "ip_charge (sy_limits s) (canonical_ip (su_addr su)) < max_connections_per_ip (sy_config s)"
    "fmlen (sy_peers s) + fcard (connecting (sy_limits s)) < max_connections (sy_config s)"
    "peers n = sy_peers s" "nd_config n = sy_config s"
    using check_and_reserve_frame [OF reserved(4)] by (auto dest: same_restD)
  then show ?thesis
    using inv ch reserved(1-3) pending_le_connecting [OF g]
    by (auto simp: sys_defs caps_kept_def charges_exact_def)
next
  case (added k su conn b g' cs)
  then have cs: "cs = (nd_connections (sy_node s))\<lparr>active :=
      fmupd (su_addr su) conn (active (nd_connections (sy_node s)))\<rparr>"
    using w by (auto simp: wiring_ok_def dest!: add_active_frame)
  moreover have "fmlookup (sy_peers s) (su_addr su) = None"
    using p added(2,3) by (auto simp: pending_inactive_def)
  moreover have "0 < fmcount (\<lambda>_ v. pending (su_pc v) \<and> canonical_ip (su_addr v) = canonical_ip (su_addr su))
      (sy_setups s)" "0 < fmcount (\<lambda>_ v. pending (su_pc v)) (sy_setups s)"
    by (rule fmcount_pos [OF added(2)], simp add: added(3))+
  ultimately show ?thesis
    using inv added(1-3) by (auto simp: sys_defs caps_kept_def)
next
  case (rolled_back k su b n)
  from node_guard_drop_weak [OF rolled_back(4)] have "peers n = sy_peers s" "nd_config n = sy_config s"
    by (auto dest: same_restD)
  then show ?thesis
    using inv rolled_back(1-3)
    by (auto simp: sys_defs caps_kept_def intro: add_diff_le)
next
  case (conn_removed k d i ts n)
  obtain q where q: "fmlookup (sy_peers s) (dc_addr d) = Some q"
    using claimed_disc [OF c conn_removed(2)] conn_removed(3) by auto
  from finalizer_remove_weak [OF conn_removed(4)] have "peers n = fmdrop (dc_addr d) (sy_peers s)"
    "nd_config n = sy_config s" by (auto dest: same_restD)
  then show ?thesis
    using inv conn_removed(1-3) q
    by (auto simp: sys_defs caps_kept_def intro: add_diff_le)
next
  case (claimed k d n conn)
  from claimed(4) obtain p where "fmlookup (sy_peers s) (dc_addr d) = Some p"
    "peers n = fmupd (dc_addr d) (p\<lparr>p_disc := True\<rparr>) (sy_peers s)"
    "nd_config n = sy_config s"
    by (blast dest: claim_disconnect_frame same_restD)
  with inv claimed(1-3) show ?thesis
    by (simp add: sys_defs caps_kept_def)
qed (insert inv,
    auto simp: sys_defs caps_kept_def shutdown_defs
      dest!: frames weak_frames dial_check_Inr dial_check_Inl)

lemma sched_exact_step:
  assumes inv: "sched_exact s" and step: "node_step debug ops s t"
  shows "sched_exact t"
  using step
proof cases
  case (uncounted k su)
  then show ?thesis
    using inv fmcount_pos [OF uncounted(2), of "\<lambda>_ su. counted (su_pc su)"]
    by (simp add: sys_defs sched_exact_def)
next
  case (sched_spawned k su cid j)
  then show ?thesis
    using inv fmcount_pos [OF sched_spawned(2), of "\<lambda>_ su. counted (su_pc su)"]
    by (simp add: sys_defs sched_exact_def)
next
  case (sched_done j sc)
  then show ?thesis
    using inv fmlen_pos [OF sched_done(2)] by (simp add: sys_defs sched_exact_def)
qed (insert inv,
    auto simp: sys_defs sched_exact_def shutdown_defs
      dest!: frames weak_frames dial_check_Inr dial_check_Inl)

end
