(* ===== verification/Node_Shutdown.thy ===== *)
theory Node_Shutdown
  imports Node_Invariants
begin

text \<open>
  More invariants of the interleaved node: no assertion fails, identifiers are carried by at
  most one connection and claimed and hooked at most once, and what is known at each point of
  a \<open>shut_down\<close> call. The conjunction of all invariants is \<open>sys_inv\<close>; the interpretation of
  \<open>invariant_system\<close> on the steps of the node carries it to every reachable state.
\<close>

section \<open>Assertions\<close>

lemma no_panic_step:
  assumes "\<not> sy_panicked s" and ch: "charges_exact s" and c: "claims_exact s"
    and step: "node_step debug ops s t"
  shows "\<not> sy_panicked t"
  using step
proof cases
  case (rollback_panic k su b)
  have "0 < fmcount (\<lambda>_ v. pending (su_pc v) \<and> canonical_ip (su_addr v) = canonical_ip (su_addr su))
      (sy_setups s)"
    by (rule fmcount_pos [OF rollback_panic(2)]) (simp add: rollback_panic(3))
  with ch have "limits_wf (sy_limits s)" "0 < ip_charge (sy_limits s) (canonical_ip (su_addr su))"
    by (simp_all add: charges_exact_def)
  then obtain l where "node_guard_drop debug \<lparr>guard_addr = su_addr su, guard_completed = False\<rparr>
      (sy_node s) = Some l"
    by (rule guard_drop_pending [where debug = debug]) blast
  with rollback_panic(4) show ?thesis by simp
next
  case (hook_panic k d i h)
  obtain p where "fmlookup (sy_peers s) (dc_addr d) = Some p"
    using claimed_disc [OF c hook_panic(2)] hook_panic(3) by auto
  with hook_panic(5) have False
    by (auto simp: attach_on_disconnect_def Let_def peers_lookup)
  then show ?thesis ..
next
  case (remove_panic k d i)
  obtain p where p: "fmlookup (sy_peers s) (dc_addr d) = Some p"
    using claimed_disc [OF c remove_panic(2)] remove_panic(3) by auto
  then have "0 < fmcount (\<lambda>a _. canonical_ip a = canonical_ip (dc_addr d)) (sy_peers s)"
    by (rule fmcount_pos) simp
  with ch have "limits_wf (sy_limits s)" "0 < ip_charge (sy_limits s) (canonical_ip (dc_addr d))"
    by (simp_all add: charges_exact_def)
  moreover from p obtain conn where "fmlookup (active (nd_connections (sy_node s))) (dc_addr d) = Some conn"
    by (auto simp: peers_lookup)
  ultimately obtain r where "finalizer_remove debug (dc_addr d) (sy_node s) = Some r"
    by (rule finalizer_remove_active [where debug = debug]) blast
  with remove_panic(4) show ?thesis by simp
qed (insert assms(1), auto simp: sys_defs)

section \<open>Identifiers\<close>

text \<open>The identifiers handed out so far.\<close>

definition issued :: "nat \<Rightarrow> u64 set" where
  "issued n = of_nat ` {..<n}"

definition pc_id :: "setup_pc \<Rightarrow> u64 option" where
  "pc_id pc = map_option conn_id (pc_conn pc)"

lemma pc_id_simps [simp]:
  "pc_id CheckShutdown = None" "pc_id CheckSelf = None" "pc_id CheckDuplicate = None"
  "pc_id Budget = None" "pc_id Admitting = None" "pc_id Permitted = None" "pc_id Reserved = None"
  "pc_id (Wiring c) = Some (conn_id c)" "pc_id (Wired c) = Some (conn_id c)"
  "pc_id (Counted c b) = Some (conn_id c)" "pc_id (Added cid b) = None"
  "pc_id (Registered cid b) = None" "pc_id (RollingBack b) = None" "pc_id Uncounting = None"
  "pc_id (AwaitSched j) = None" "pc_id Finishing = None"
  by (simp_all add: pc_id_def)

lemma pc_id_dial:
  "dial_check pc a n = Some r \<Longrightarrow> pc_id pc = None"
  "dial_check pc a n = Some (Inr pc') \<Longrightarrow> pc_id pc' = None"
  by (cases pc; auto split: if_splits)+

text \<open>An identifier is carried by at most one connection, being set up or having joined, and
  only after it was issued.\<close>

definition ids_fresh :: "'sem sys \<Rightarrow> bool" where
  "ids_fresh s \<longleftrightarrow> sy_next_id s = of_nat (sy_n_ids s)
     \<and> (sy_n_ids s \<le> 2 ^ 64 \<longrightarrow>
          (\<forall>i. fmcount (\<lambda>_ su. pc_id (su_pc su) = Some i) (sy_setups s) + count_list (sy_joined s) i
             \<le> of_bool (i \<in> issued (sy_n_ids s))))"

text \<open>Active connections have joined; disconnects are claimed for joined connections, at most
  once, and an active connection that is not disconnecting has not been claimed.\<close>

definition ids_active :: "'sem sys \<Rightarrow> bool" where
  "ids_active s \<longleftrightarrow> (sy_n_ids s \<le> 2 ^ 64 \<longrightarrow>
     (\<forall>i. fmcount (\<lambda>_ p. p_id p = i) (sy_peers s) \<le> count_list (sy_joined s) i
        \<and> count_list (sy_claims s) i + fmcount (\<lambda>_ p. p_id p = i \<and> \<not> p_disc p) (sy_peers s)
          \<le> count_list (sy_joined s) i))"

definition ids_hooks :: "'sem sys \<Rightarrow> bool" where
  "ids_hooks s \<longleftrightarrow>
     (\<forall>i. count_list (map fst (sy_hooks s)) i + fmcount (\<lambda>_ d. dc_pc d = Claimed i) (sy_discs s)
        \<le> count_list (sy_claims s) i)"

lemma ids_fresh_drop:
  assumes "ids_fresh s" and "fmlookup (sy_setups s) k = Some su" and "pc_id pc = None"
  shows "ids_fresh (upd_setup k su pc s)"
proof -
  have "fmcount (\<lambda>_ su. pc_id (su_pc su) = Some i) (sy_setups (upd_setup k su pc s))
      \<le> fmcount (\<lambda>_ su. pc_id (su_pc su) = Some i) (sy_setups s)" for i
    using assms(2,3) by (simp add: upd_setup_def)
  then have le: "fmcount (\<lambda>_ su. pc_id (su_pc su) = Some i) (sy_setups (upd_setup k su pc s)) + c \<le> r"
    if "fmcount (\<lambda>_ su. pc_id (su_pc su) = Some i) (sy_setups s) + c \<le> r" for i c r
    using that by (meson add_le_cancel_right order_trans)
  moreover have "sy_next_id (upd_setup k su pc s) = sy_next_id s"
    "sy_n_ids (upd_setup k su pc s) = sy_n_ids s" "sy_joined (upd_setup k su pc s) = sy_joined s"
    by (simp_all add: upd_setup_def)
  ultimately show ?thesis
    using assms(1) unfolding ids_fresh_def by metis
qed

lemma ids_fresh_set_node [simp]: "ids_fresh (set_node n s) = ids_fresh s"
  by (simp add: ids_fresh_def set_node_def)

lemma ids_fresh_step:
  assumes inv: "ids_fresh s" and step: "node_step debug ops s t"
  shows "ids_fresh t"
  using step
proof cases
  case (stream_ready k su now strm conn i)
  from stream_ready(4) have c: "conn_id conn = sy_next_id s" "i = fetch_add (sy_next_id s) 1"
    by (auto simp: connection_new_def)
  have next_id: "sy_next_id s = of_nat (sy_n_ids s)"
    using inv by (simp add: ids_fresh_def)
  have new: "sy_next_id s \<notin> issued (sy_n_ids s)" if "Suc (sy_n_ids s) \<le> 2 ^ 64"
    using of_nat_u64_fresh [of "sy_n_ids s"] that by (simp add: issued_def next_id)
  have iss: "issued (sy_n_ids t) = insert (sy_next_id s) (issued (sy_n_ids s))"
    using stream_ready(1) by (simp add: sys_defs issued_def lessThan_Suc next_id)
  show ?thesis
    unfolding ids_fresh_def iss
  proof (intro conjI impI allI)
    show "sy_next_id t = of_nat (sy_n_ids t)"
      using stream_ready(1) c by (simp add: sys_defs fetch_add_def next_id)
    fix j
    assume "sy_n_ids t \<le> 2 ^ 64"
    then have le: "Suc (sy_n_ids s) \<le> 2 ^ 64"
      using stream_ready(1) by (simp add: sys_defs)
    then have "fmcount (\<lambda>_ su. pc_id (su_pc su) = Some j) (sy_setups s) + count_list (sy_joined s) j
        \<le> of_bool (j \<in> issued (sy_n_ids s))"
      using inv by (simp add: ids_fresh_def)
    with new [OF le] stream_ready(1-3) c(1)
    show "fmcount (\<lambda>_ su. pc_id (su_pc su) = Some j) (sy_setups t) + count_list (sy_joined t) j
        \<le> of_bool (j \<in> insert (sy_next_id s) (issued (sy_n_ids s)))"
      by (cases "j = sy_next_id s") (simp_all add: sys_defs)
  qed
next
  case (added k su conn b g cs)
  have "0 < fmcount (\<lambda>_ su. pc_id (su_pc su) = Some (conn_id conn)) (sy_setups s)"
    by (rule fmcount_pos [OF added(2)]) (simp add: added(3))
  then show ?thesis
    using inv added by (auto simp: sys_defs ids_fresh_def)
next
  case (wire_failed k su conn)
  with inv show ?thesis by (simp add: ids_fresh_drop)
next
  case (add_refused k su conn b e cs)
  with inv show ?thesis by (simp add: ids_fresh_drop)
qed (insert inv,
    auto simp: sys_defs ids_fresh_def shutdown_defs pc_id_dial
      dest!: frames weak_frames)

lemma ids_active_step:
  assumes inv: "ids_active s" and p: "pending_inactive s" and w: "wiring_ok s"
    and c: "claims_exact s" and step: "node_step debug ops s t"
  shows "ids_active t"
  using step
proof cases
  case (added k su conn b g' cs)
  then have cs: "cs = (nd_connections (sy_node s))\<lparr>active :=
      fmupd (su_addr su) conn (active (nd_connections (sy_node s)))\<rparr>" and "\<not> disconnecting conn"
    using w by (auto simp: wiring_ok_def dest!: add_active_frame)
  moreover have "fmlookup (sy_peers s) (su_addr su) = None"
    using p added(2,3) by (auto simp: pending_inactive_def)
  ultimately show ?thesis
    using inv added(1) by (auto simp: sys_defs ids_active_def)
next
  case (conn_removed k d i ts n)
  obtain q where q: "fmlookup (sy_peers s) (dc_addr d) = Some q"
    using claimed_disc [OF c conn_removed(2)] conn_removed(3) by auto
  from finalizer_remove_weak [OF conn_removed(4)] have "peers n = fmdrop (dc_addr d) (sy_peers s)"
    by simp
  with q inv conn_removed(1-3) show ?thesis
    by (auto simp: sys_defs ids_active_def intro: add_diff_le diff_le_self [THEN order_trans])
next
  case (claimed k d n conn)
  from claimed(4) obtain p where p: "fmlookup (sy_peers s) (dc_addr d) = Some p" "\<not> p_disc p"
    "peers n = fmupd (dc_addr d) (p\<lparr>p_disc := True\<rparr>) (sy_peers s)"
    by (blast dest: claim_disconnect_frame)
  moreover from p(1) claimed(5) have "p_id p = conn_id conn"
    by (auto simp: peers_lookup)
  moreover have "0 < fmcount (\<lambda>_ q. p_id q = p_id p \<and> \<not> p_disc q) (sy_peers s)"
    by (rule fmcount_pos [OF p(1)]) (simp add: p(2))
  ultimately show ?thesis
    using inv claimed(1-3) by (auto simp: sys_defs ids_active_def)
qed (insert inv,
    auto simp: sys_defs ids_active_def shutdown_defs dest!: frames weak_frames)

lemma ids_hooks_step:
  assumes inv: "ids_hooks s" and step: "node_step debug ops s t"
  shows "ids_hooks t"
  using step
proof cases
  case (hook_triggered k d i h fate n)
  have "0 < fmcount (\<lambda>_ d. dc_pc d = Claimed i) (sy_discs s)"
    by (rule fmcount_pos [OF hook_triggered(2)]) (simp add: hook_triggered(3))
  with inv hook_triggered(1-3) show ?thesis
    by (auto simp: sys_defs ids_hooks_def)
next
  case (hook_skipped k d i)
  with inv show ?thesis
    by (auto simp: sys_defs ids_hooks_def intro: add_diff_le)
qed (insert inv,
    auto simp: sys_defs ids_hooks_def shutdown_defs dest!: frames weak_frames)

section \<open>Shutdown\<close>

abbreviation underway :: "'sem sys \<Rightarrow> bool" where
  "underway s \<equiv> sd_flag (nd_shutdown (sy_node s))"

text \<open>A setup whose connection has joined and whose \<open>OnConnect\<close> hook is still to be scheduled.\<close>

fun to_schedule :: "setup_pc \<Rightarrow> bool" where
  "to_schedule (Added _ b) = b"
| "to_schedule (Registered _ b) = b"
| "to_schedule _ = False"

definition quiescent :: "'sem sys \<Rightarrow> bool" where
  "quiescent s \<longleftrightarrow> underway s \<and> sy_peers s = fmempty \<and> sy_scheds s = fmempty
     \<and> (\<forall>k su. fmlookup (sy_setups s) k = Some su \<longrightarrow> \<not> to_schedule (su_pc su))"

definition all_claimed :: "'sem sys \<Rightarrow> bool" where
  "all_claimed s \<longleftrightarrow> (\<forall>a p. fmlookup (sy_peers s) a = Some p \<longrightarrow> p_disc p)"

text \<open>During the fan-out of call \<open>k\<close>, a connection nobody is tearing down yet is still to be
  visited, or a disconnect aimed at it is waiting for its turn.\<close>

definition fan_ok :: "nat \<Rightarrow> socket_addr fset \<Rightarrow> 'sem sys \<Rightarrow> bool" where
  "fan_ok k as s \<longleftrightarrow>
     (\<forall>a p. fmlookup (sy_peers s) a = Some p \<longrightarrow> \<not> p_disc p \<longrightarrow> a |\<notin>| as \<longrightarrow>
        (\<exists>j d. fmlookup (sy_discs s) j = Some d \<and> dc_owner d = Some k \<and> dc_pc d = Claiming
           \<and> dc_addr d = a \<and> dc_cid d = None))"

fun sd_inv :: "nat \<Rightarrow> sd_pc \<Rightarrow> 'sem sys \<Rightarrow> bool" where
  "sd_inv k SdBegin s = True"
| "sd_inv k SdTake s = underway s"
| "sd_inv k SdSnapshot s = underway s"
| "sd_inv k (SdFan as) s = (underway s \<and> fan_ok k as s)"
| "sd_inv k SdDrain s = (underway s \<and> all_claimed s)"
| "sd_inv k SdSched s = (underway s \<and> sy_peers s = fmempty)"
| "sd_inv k SdSignal s = quiescent s"
| "sd_inv k SdClear s = quiescent s"
| "sd_inv k SdDone s = quiescent s"

definition shutdown_ok :: "'sem sys \<Rightarrow> bool" where
  "shutdown_ok s \<longleftrightarrow> (\<forall>k pc. fmlookup (sy_sds s) k = Some pc \<longrightarrow> sd_inv k pc s)
     \<and> (sd_handler_signal (nd_shutdown (sy_node s)) \<longrightarrow> quiescent s)"

lemma to_schedule_counted: "to_schedule pc \<Longrightarrow> counted pc"
  by (cases pc) auto

lemma underway_step:
  assumes "underway s" and step: "node_step debug ops s t"
  shows "underway t"
  using step
proof cases
qed (insert assms(1), auto simp: sys_defs shutdown_defs dest!: frames weak_frames)

text \<open>Once the node is shutting down, connections only leave, and a claimed one stays claimed.\<close>

lemma peers_shrink_step:
  assumes "underway s" and step: "node_step debug ops s t" and "fmlookup (sy_peers t) a = Some p"
  shows "\<exists>q. fmlookup (sy_peers s) a = Some q \<and> (p_disc q \<longrightarrow> p_disc p)"
  using step
proof cases
  case (claimed k d n conn)
  from claimed(4) obtain p' where "fmlookup (sy_peers s) (dc_addr d) = Some p'"
    "peers n = fmupd (dc_addr d) (p'\<lparr>p_disc := True\<rparr>) (sy_peers s)"
    by (blast dest: claim_disconnect_frame)
  with assms(3) claimed(1) show ?thesis
    by (auto simp: sys_defs split: if_splits)
qed (insert assms(1,3), auto simp: sys_defs shutdown_defs dest!: frames weak_frames split: if_splits)

lemma all_claimed_step:
  assumes "underway s" and "all_claimed s" and "node_step debug ops s t"
  shows "all_claimed t"
  using assms(2) peers_shrink_step [OF assms(1,3)] unfolding all_claimed_def by blast

lemma peers_empty_step:
  assumes "underway s" and "sy_peers s = fmempty" and "node_step debug ops s t"
  shows "sy_peers t = fmempty"
proof (rule fmap_ext)
  fix a
  show "fmlookup (sy_peers t) a = fmlookup fmempty a"
    using peers_shrink_step [OF assms(1,3), of a] assms(2)
    by (cases "fmlookup (sy_peers t) a") auto
qed

lemma quiescent_step:
  assumes "quiescent s" and step: "node_step debug ops s t"
  shows "quiescent t"
proof -
  have *: "underway s" "sy_peers s = fmempty" "sy_scheds s = fmempty"
    "\<And>k su. fmlookup (sy_setups s) k = Some su \<Longrightarrow> \<not> to_schedule (su_pc su)"
    using assms(1) by (auto simp: quiescent_def)
  have dial: "\<not> to_schedule pc'" if "dial_check pc a n = Some (Inr pc')" for pc pc' a and n :: "'a node"
    using that by (cases pc) (auto split: if_splits)
  from step have "sy_scheds t = fmempty
      \<and> (\<forall>k su. fmlookup (sy_setups t) k = Some su \<longrightarrow> \<not> to_schedule (su_pc su))"
  proof cases
    case (sched_spawned k su cid j)
    with *(4) [of k su] show ?thesis by simp
  next
    case (added k su conn b g cs)
    with *(1) show ?thesis by (auto simp: shutdown_defs dest!: add_active_frame)
  next
    case (guard_settled k su cid b n)
    with *(4) [of k su] *(3,4) show ?thesis by (auto simp: sys_defs split: if_splits)
  qed (insert *(3,4), auto simp: sys_defs dial split: if_splits)
  with underway_step [OF *(1) step] peers_empty_step [OF *(1,2) step] show ?thesis
    by (simp add: quiescent_def)
qed


lemma fan_ok_step:
  assumes "underway s" and "fan_ok k as s" and step: "node_step debug ops s t"
    and k: "fmlookup (sy_sds s) k = Some pc"
  shows "fan_ok k as t"
  unfolding fan_ok_def
proof (intro allI impI)
  fix a p
  assume p: "fmlookup (sy_peers t) a = Some p" "\<not> p_disc p" "a |\<notin>| as"
  obtain q where q: "fmlookup (sy_peers s) a = Some q" "\<not> p_disc q"
    using peers_shrink_step [OF assms(1) step p(1)] p(2) by blast
  with assms(2) p(3) obtain j d where d: "fmlookup (sy_discs s) j = Some d" "dc_owner d = Some k"
    "dc_pc d = Claiming" "dc_addr d = a" "dc_cid d = None"
    unfolding fan_ok_def by blast
  from step have "fmlookup (sy_discs t) j = Some d"
  proof cases
    case (claimed k' d' n conn)
    then have "k' \<noteq> j"
      using p(1,2) d q by (auto simp: sys_defs dest!: claim_disconnect_frame)
    with claimed(1) d(1) show ?thesis by (simp add: sys_defs)
  next
    case (claim_refused k' d')
    then have "k' \<noteq> j"
      using d q by (auto simp: claim_disconnect_None peers_lookup)
    with claim_refused(1) d(1) show ?thesis by (simp add: sys_defs)
  next
    case (disc_abandoned k' d')
    then have "k' \<noteq> j"
      using d k by auto
    with disc_abandoned(1) d(1) show ?thesis by (simp add: sys_defs)
  qed (insert d, auto simp: sys_defs)
  with d(2-5) show "\<exists>j d. fmlookup (sy_discs t) j = Some d \<and> dc_owner d = Some k
      \<and> dc_pc d = Claiming \<and> dc_addr d = a \<and> dc_cid d = None"
    by blast
qed

lemma sd_inv_step:
  assumes "sd_inv k pc s" and step: "node_step debug ops s t" and "fmlookup (sy_sds s) k = Some pc"
  shows "sd_inv k pc t"
  using assms
  by (cases pc) (auto intro: underway_step all_claimed_step peers_empty_step quiescent_step fan_ok_step)

lemma fan_ok_launched:
  assumes "fan_ok k as t" and "fmlookup (sy_discs t) j = Some d"
    and "dc_owner d = Some k" "dc_pc d = Claiming" "dc_addr d = a" "dc_cid d = None"
  shows "fan_ok k (as |-| {|a|}) t"
  using assms unfolding fan_ok_def by (metis finsertE fempty_iff fminus_iff)

lemma fan_ok_joined:
  assumes "fan_ok k {||} t" and "\<forall>j d. fmlookup (sy_discs t) j = Some d \<longrightarrow> dc_owner d \<noteq> Some k"
  shows "all_claimed t"
  using assms unfolding fan_ok_def all_claimed_def by blast

lemma shutdown_ok_step:
  assumes inv: "shutdown_ok s" and sc: "sched_exact s" and step: "node_step debug ops s t"
  shows "shutdown_ok t"
proof -
  have old: "sd_inv k pc t" if "fmlookup (sy_sds s) k = Some pc" for k pc
    using inv step that by (auto simp: shutdown_ok_def intro: sd_inv_step)
  have sig: "quiescent t" if "sd_handler_signal (nd_shutdown (sy_node s))"
    using inv step that by (auto simp: shutdown_ok_def intro: quiescent_step)
  from step show ?thesis
  proof cases
    case (sd_taken k rest n ts)
    then show ?thesis using old [of k] old sig
      by (auto simp: shutdown_ok_def sys_defs dest!: frames)
  next
    case (sd_snapshot k)
    then show ?thesis using old [of k] old sig
      by (auto simp: shutdown_ok_def sys_defs fan_ok_def connected_addrs_def connections_addrs_def
          peers_lookup fmlookup_dom_iff)
  next
    case (sd_launched k as a j)
    then have t: "underway t" "fan_ok k as t"
      using old [of k] by auto
    from fan_ok_launched [OF t(2), of j] have "fan_ok k (as |-| {|a|}) t"
      using sd_launched(1) by (simp add: sys_defs)
    with t(1) old sig sd_launched(1) show ?thesis
      by (auto simp: shutdown_ok_def sys_defs)
  next
    case (sd_joined k)
    then have "underway t" "fan_ok k {||} t"
      using old [of k] by auto
    moreover from this(2) have "all_claimed t"
      by (rule fan_ok_joined) (use sd_joined(1,3) in \<open>simp add: sys_defs\<close>)
    ultimately show ?thesis using old sig sd_joined(1)
      by (auto simp: shutdown_ok_def sys_defs)
  next
    case (sd_drained k)
    then show ?thesis using old [of k] old sig
      by (auto simp: shutdown_ok_def sys_defs peers_def)
  next
    case (sd_sched_drained k)
    then show ?thesis using old [of k] old sig sc
      by (auto simp: shutdown_ok_def sys_defs sched_exact_def quiescent_def fmcount_0_iff
          dest: to_schedule_counted)
  next
    case (sd_signalled k)
    then show ?thesis using old [of k] old sig
      by (auto simp: shutdown_ok_def sys_defs shutdown_defs)
  next
    case (sd_cleared k)
    then show ?thesis using old [of k] old sig
      by (auto simp: shutdown_ok_def sys_defs shutdown_defs)
  qed (insert old sig, auto simp: shutdown_ok_def sys_defs shutdown_defs dest!: frames weak_frames)
qed

section \<open>All invariants\<close>

definition sys_inv :: "('sem \<Rightarrow> nat) \<Rightarrow> 'sem sys \<Rightarrow> bool" where
  "sys_inv avail s \<longleftrightarrow>
     inv_permits avail s \<and> guards_exact s \<and> wiring_ok s \<and> active_keyed s \<and> pending_inactive s
     \<and> claims_exact s \<and> claims_ids s \<and> charges_exact s \<and> caps_kept s \<and> sched_exact s
     \<and> \<not> sy_panicked s \<and> ids_fresh s \<and> ids_active s \<and> ids_hooks s \<and> shutdown_ok s"

lemma sys_invD:
  assumes "sys_inv avail s"
  shows "inv_permits avail s" "guards_exact s" "wiring_ok s" "active_keyed s" "pending_inactive s"
    "claims_exact s" "claims_ids s" "charges_exact s" "caps_kept s" "sched_exact s"
    "\<not> sy_panicked s" "ids_fresh s" "ids_active s" "ids_hooks s" "shutdown_ok s"
  using assms by (simp_all add: sys_inv_def)

lemma sys_inv_step:
  assumes sem: "semaphore_contract ops avail" and inv: "sys_inv avail s"
    and step: "node_step debug ops s t"
  shows "sys_inv avail t"
  unfolding sys_inv_def
  using inv_permits_step [OF sem _ step] guards_exact_step [OF _ step] wiring_ok_step [OF _ step]
    active_keyed_step [OF _ step] pending_inactive_step [OF _ _ _ step]
    claims_exact_step [OF _ _ _ step] claims_ids_step [OF _ _ _ _ step]
    charges_exact_step [OF _ _ _ _ step] caps_kept_step [OF _ _ _ _ _ _ step]
    sched_exact_step [OF _ step] no_panic_step [OF _ _ _ step] ids_fresh_step [OF _ step]
    ids_active_step [OF _ _ _ _ step] ids_hooks_step [OF _ step] shutdown_ok_step [OF _ _ step]
    sys_invD [OF inv]
  by blast

lemma node_new_Inr:
  assumes "node_new ops now cfg k = Inr (n, k')"
  shows "nd_connections n = connections_default" "nd_shutdown n = shutdown_default"
    "nd_permits n = sem_new ops (max_connecting (nd_config n))"
  using assms by (auto simp: node_new_def Let_def split: if_splits)

lemma sys_inv_start:
  assumes sem: "semaphore_contract ops avail" and start: "sys_start ops s"
  shows "sys_inv avail s"
proof -
  from start obtain now cfg k k' where "node_new ops now cfg k = Inr (sy_node s, k')"
    by (auto simp: sys_start_def)
  note n = node_new_Inr [OF this]
  have peers: "sy_peers s = fmempty"
    by (simp add: peers_def n connections_default_def)
  have lim: "sy_limits s = limits_default"
    by (simp add: n connections_default_def)
  have sd: "sched_in_flight (nd_shutdown (sy_node s)) = 0"
    "\<not> sd_handler_signal (nd_shutdown (sy_node s))"
    by (simp_all add: n shutdown_default_def)
  show ?thesis
    using start unfolding sys_start_def sys_inv_def
    by (simp add: peers lim sd n(3) semaphore_contractD(1) [OF sem] inv_permits_def guards_exact_def
        wiring_ok_def active_keyed_def pending_inactive_def claims_exact_def claims_ids_def
        charges_exact_def caps_kept_def sched_exact_def ids_fresh_def ids_active_def ids_hooks_def
        shutdown_ok_def limits_default_def [THEN arg_cong, of connecting])
qed

interpretation node_sys: invariant_system "sys_start ops" "node_step debug ops"
  "\<lambda>s. semaphore_contract ops avail \<longrightarrow> sys_inv avail s"
  by unfold_locales (auto intro: sys_inv_start sys_inv_step)

lemma sys_inv_reachable:
  assumes "semaphore_contract ops avail" and "sys_start ops s" and "sys_run debug ops s t"
  shows "sys_inv avail t"
  using node_sys.inv_reachable [OF assms(2,3), of avail] assms(1) by simp

end
