(* ===== verification/Node_Runs.thy ===== *)
theory Node_Runs
  imports Node_Shutdown
begin

text \<open>
  The calls of theory \<open>Node\<close>, written there as straight-line functions, are runs of the
  interleaved system of theory \<open>Node_System\<close>: a \<open>connect\<close> that meets no interference takes
  exactly the steps of its thread, and ends in the node that \<open>connect_inner\<close> computes; the same
  holds for an inbound request and for a disconnect.
\<close>

section \<open>One setup thread\<close>

text \<open>The system \<open>s\<close> with one more setup thread \<open>k\<close>.\<close>

definition with_setup ::
  "nat \<Rightarrow> socket_addr \<Rightarrow> connection_side \<Rightarrow> setup_pc \<Rightarrow> 'sem sys \<Rightarrow> 'sem sys" where
  "with_setup k a side pc s =
     s\<lparr>sy_setups := fmupd k \<lparr>su_addr = a, su_side = side, su_pc = pc\<rparr> (sy_setups s)\<rparr>"

lemma with_setup_sel [simp]:
  "sy_node (with_setup k a side pc s) = sy_node s"
  "sy_next_id (with_setup k a side pc s) = sy_next_id s"
  "sy_n_ids (with_setup k a side pc s) = sy_n_ids s"
  "sy_joined (with_setup k a side pc s) = sy_joined s"
  "sy_scheds (with_setup k a side pc s) = sy_scheds s"
  "fmlookup (sy_setups (with_setup k a side pc s)) k
     = Some \<lparr>su_addr = a, su_side = side, su_pc = pc\<rparr>"
  by (simp_all add: with_setup_def)

lemma upd_with_setup [simp]:
  "upd_setup k \<lparr>su_addr = a, su_side = side, su_pc = pc\<rparr> pc' (with_setup k a side pc s)
     = with_setup k a side pc' s"
  by (simp add: upd_setup_def with_setup_def)

lemma set_node_with_setup [simp]:
  "set_node n (with_setup k a side pc s) = with_setup k a side pc (set_node n s)"
  by (simp add: set_node_def with_setup_def)

lemma joined_with_setup [simp]:
  "(with_setup k a side pc s)\<lparr>sy_joined := xs\<rparr> = with_setup k a side pc (s\<lparr>sy_joined := xs\<rparr>)"
  by (cases s) (simp add: with_setup_def)

lemma scheds_commute [simp]:
  "(with_setup k a side pc s)\<lparr>sy_scheds := x\<rparr> = with_setup k a side pc (s\<lparr>sy_scheds := x\<rparr>)"
  "(set_node n s)\<lparr>sy_scheds := x\<rparr> = set_node n (s\<lparr>sy_scheds := x\<rparr>)"
  by (cases s, simp add: with_setup_def set_node_def)+

lemma set_node_sel [simp]:
  "sy_node (set_node n s) = n" "sy_next_id (set_node n s) = sy_next_id s"
  "sy_setups (set_node n s) = sy_setups s" "sy_scheds (set_node n s) = sy_scheds s"
  "sy_discs (set_node n s) = sy_discs s" "sy_sds (set_node n s) = sy_sds s"
  "sy_n_ids (set_node n s) = sy_n_ids s" "sy_joined (set_node n s) = sy_joined s"
  by (simp_all add: set_node_def)

lemma set_node_twice [simp]: "set_node n (set_node m s) = set_node n s"
  by (simp add: set_node_def)

lemma set_node_id [simp]: "set_node (sy_node s) s = s"
  by (simp add: set_node_def)

lemma del_with_setup:
  "fmlookup (sy_setups s) k = None \<Longrightarrow> del_setup k (with_setup k a side pc s) = s"
  by (simp add: del_setup_def with_setup_def fmdrop_new)

text \<open>The steps of that thread.\<close>

lemma start_dial:
  "fmlookup (sy_setups s) k = None \<Longrightarrow>
   node_step debug ops s (with_setup k a Initiator CheckShutdown s)"
  unfolding with_setup_def by (rule dial_started)

lemma thread_dial_check:
  assumes "dial_check pc a (sy_node s) = Some (Inr pc')"
  shows "node_step debug ops (with_setup k a side pc s) (with_setup k a side pc' s)"
  using dial_passed [of "with_setup k a side pc s" k _ pc' debug ops] assms by simp

lemma thread_dial_refused:
  assumes "dial_check pc a (sy_node s) = Some (Inl e)" and "fmlookup (sy_setups s) k = None"
  shows "node_step debug ops (with_setup k a side pc s) s"
  using dial_refused [of "with_setup k a side pc s" k _ e debug ops] assms by (simp add: del_with_setup)

lemma thread_permit:
  assumes "take_permit ops (sy_node s) = (Inr u, n)"
  shows "node_step debug ops (with_setup k a side Budget s) (with_setup k a side Permitted (set_node n s))"
  using budget_taken [of "with_setup k a side Budget s" k _ ops u n debug] assms by simp

lemma thread_no_permit:
  assumes "take_permit ops (sy_node s) = (Inl e, n)" and "fmlookup (sy_setups s) k = None"
  shows "node_step debug ops (with_setup k a side Budget s) (set_node n s)"
  using budget_refused [of "with_setup k a side Budget s" k _ ops e n debug] assms
  by (simp add: del_with_setup)

lemma thread_reserve:
  assumes "check_and_reserve a (sy_node s) = (Inr g, n)"
  shows "node_step debug ops (with_setup k a side Permitted s) (with_setup k a side Reserved (set_node n s))"
  using reserved [of "with_setup k a side Permitted s" k _ g n debug ops] assms by simp

lemma thread_no_reserve:
  assumes "check_and_reserve a (sy_node s) = (Inl e, n)"
  shows "node_step debug ops (with_setup k a side Permitted s)
    (with_setup k a side Finishing (set_node (rejected side n) s))"
  using reserve_refused [of "with_setup k a side Permitted s" k _ e n debug ops] assms by simp

lemma thread_stream:
  assumes "connection_new (sy_next_id s) now a strm (side_not side) = (conn, i)"
  shows "node_step debug ops (with_setup k a side Reserved s)
    (with_setup k a side (Wiring conn) (s\<lparr>sy_next_id := i, sy_n_ids := Suc (sy_n_ids s)\<rparr>))"
  using stream_ready [of "with_setup k a side Reserved s" k _ now strm conn i debug ops] assms
  by (simp add: with_setup_def upd_setup_def)

lemma thread_fail:
  "node_step debug ops (with_setup k a Initiator Reserved s) (with_setup k a Initiator (RollingBack False) s)"
  using setup_failed [of "with_setup k a Initiator Reserved s" k _ debug ops] by simp

lemma thread_wire:
  assumes "conn_id c' = conn_id c" "conn_addr c' = conn_addr c" "conn_side c' = conn_side c"
    "disconnecting c' = disconnecting c"
  shows "node_step debug ops (with_setup k a side (Wiring c) s) (with_setup k a side (Wired c') s)"
  using wire_passed [of "with_setup k a side (Wiring c) s" k _ c c' debug ops] assms by simp

lemma thread_wire_fail:
  "node_step debug ops (with_setup k a side (Wiring c) s) (with_setup k a side (RollingBack False) s)"
  using wire_failed [of "with_setup k a side (Wiring c) s" k _ c debug ops] by simp

lemma thread_count:
  "node_step debug ops (with_setup k a side (Wired c) s)
    (with_setup k a side (Counted c (has_on_connect (nd_protocols (sy_node s))))
      (set_node (if has_on_connect (nd_protocols (sy_node s))
         then (sy_node s)\<lparr>nd_shutdown := sched_started (nd_shutdown (sy_node s))\<rparr> else sy_node s) s))"
  using sched_counted [of "with_setup k a side (Wired c) s" k _ c debug ops]
    sched_skipped [of "with_setup k a side (Wired c) s" k _ c debug ops] by auto

lemma thread_add:
  assumes "add_active (is_underway (nd_shutdown (sy_node s))) c
      \<lparr>guard_addr = a, guard_completed = False\<rparr> (nd_connections (sy_node s)) = (Inr g, cs)"
  shows "node_step debug ops (with_setup k a side (Counted c b) s)
    (with_setup k a side (Added (conn_id c) b)
      (set_node ((sy_node s)\<lparr>nd_connections := cs\<rparr>) (s\<lparr>sy_joined := sy_joined s @ [conn_id c]\<rparr>)))"
  using added [of "with_setup k a side (Counted c b) s" k _ c b g cs debug ops] assms
  by simp

lemma thread_no_add:
  assumes "add_active (is_underway (nd_shutdown (sy_node s))) c
      \<lparr>guard_addr = a, guard_completed = False\<rparr> (nd_connections (sy_node s)) = (Inl e, cs)"
  shows "node_step debug ops (with_setup k a side (Counted c b) s)
    (with_setup k a side (RollingBack b) (set_node ((sy_node s)\<lparr>nd_connections := cs\<rparr>) s))"
  using add_refused [of "with_setup k a side (Counted c b) s" k _ c b e cs debug ops] assms by simp

lemma thread_settle:
  assumes "node_guard_drop debug \<lparr>guard_addr = a, guard_completed = True\<rparr> (sy_node s) = Some n"
  shows "node_step debug ops (with_setup k a side (Added cid b) s)
    (with_setup k a side (Registered cid b) (set_node n s))"
  using guard_settled [of "with_setup k a side (Added cid b) s" k _ cid b debug n ops] assms by simp

lemma thread_rollback:
  assumes "node_guard_drop debug \<lparr>guard_addr = a, guard_completed = False\<rparr> (sy_node s) = Some n"
  shows "node_step debug ops (with_setup k a side (RollingBack b) s)
    (with_setup k a side (if b then Uncounting else Finishing) (set_node n s))"
  using rolled_back [of "with_setup k a side (RollingBack b) s" k _ b debug n ops] assms by simp

lemma thread_uncount:
  "node_step debug ops (with_setup k a side Uncounting s) (with_setup k a side Finishing
    (set_node ((sy_node s)\<lparr>nd_shutdown := sched_finished (nd_shutdown (sy_node s))\<rparr>) s))"
  using uncounted [of "with_setup k a side Uncounting s" k _ debug ops] by simp

lemma thread_no_sched:
  "node_step debug ops (with_setup k a side (Registered cid False) s) (with_setup k a side Finishing s)"
  using no_sched [of "with_setup k a side (Registered cid False) s" k _ cid debug ops] by simp

lemma thread_finish:
  assumes "fmlookup (sy_setups s) k = None"
  shows "node_step debug ops (with_setup k a side Finishing s) (set_node (drop_permit ops (sy_node s)) s)"
  using finished [of "with_setup k a side Finishing s" k _ debug ops] assms by (simp add: del_with_setup)

lemma thread_env:
  assumes "nd_connections n = nd_connections (sy_node s)" "nd_permits n = nd_permits (sy_node s)"
    "nd_config n = nd_config (sy_node s)" "nd_shutdown n = nd_shutdown (sy_node s)"
  shows "node_step debug ops (with_setup k a side pc s) (with_setup k a side pc (set_node n s))"
  using env [of n "with_setup k a side pc s" debug ops] assms by simp


section \<open>Runs of one setup thread\<close>

text \<open>Two systems with the same threads.\<close>

definition same_threads :: "'sem sys \<Rightarrow> 'sem sys \<Rightarrow> bool" where
  "same_threads t s \<longleftrightarrow> sy_setups t = sy_setups s \<and> sy_scheds t = sy_scheds s
     \<and> sy_discs t = sy_discs s \<and> sy_sds t = sy_sds s"

lemma same_threads_refl [simp]: "same_threads s s"
  by (simp add: same_threads_def)

lemma same_threads_set_node [simp]: "same_threads (set_node n t) s = same_threads t s"
  by (simp add: same_threads_def)

lemma run_scheduling:
  assumes "fmlookup (sy_scheds s) j = None"
    and "attach_on_connect resp a cid (sy_node s) = (fate, n)"
  shows "sys_run debug ops (with_setup k a side (Registered cid True) s)
    (with_setup k a side Finishing
      (set_node (n\<lparr>nd_shutdown := sched_finished (nd_shutdown n)\<rparr>) s))"
proof -
  let ?su = "\<lambda>pc. \<lparr>su_addr = a, su_side = side, su_pc = pc\<rparr>"
  let ?sc = "\<lambda>b. \<lparr>sc_addr = a, sc_id = cid, sc_attached = b\<rparr>"
  define u where "u b = s\<lparr>sy_scheds := fmupd j (?sc b) (sy_scheds s)\<rparr>" for b
  have "sys_run debug ops (with_setup k a side (Registered cid True) s)
      (with_setup k a side (AwaitSched j) (u False))"
    using sched_spawned [of "with_setup k a side (Registered cid True) s" k "?su (Registered cid True)"
        cid j debug ops] assms(1)
    by (intro r_into_rtranclp) (simp add: u_def)
  also have "node_step debug ops \<dots> (with_setup k a side (AwaitSched j) (set_node n (u True)))"
    using hook_attached [of "with_setup k a side (AwaitSched j) (u False)" j "?sc False" resp fate n
        debug ops] assms(2)
    by (simp add: u_def)
  also have "node_step debug ops \<dots> (with_setup k a side (AwaitSched j)
      (set_node (n\<lparr>nd_shutdown := sched_finished (nd_shutdown n)\<rparr>) s))"
    using sched_done [of "with_setup k a side (AwaitSched j) (set_node n (u True))" j "?sc True"
        debug ops] assms(1)
    by (simp add: u_def fmdrop_new)
  also have "node_step debug ops \<dots> (with_setup k a side Finishing
      (set_node (n\<lparr>nd_shutdown := sched_finished (nd_shutdown n)\<rparr>) s))"
    using await_done [of "with_setup k a side (AwaitSched j)
        (set_node (n\<lparr>nd_shutdown := sched_finished (nd_shutdown n)\<rparr>) s)" k _ j debug ops] assms(1)
    by simp
  finally show ?thesis .
qed

lemma run_rollback:
  assumes "node_guard_drop debug \<lparr>guard_addr = a, guard_completed = False\<rparr> (sy_node s) = Some n"
  shows "sys_run debug ops (with_setup k a side (RollingBack b) s)
    (with_setup k a side Finishing
      (set_node (if b then n\<lparr>nd_shutdown := sched_finished (nd_shutdown n)\<rparr> else n) s))"
proof (cases b)
  case True
  have "sys_run debug ops (with_setup k a side (RollingBack b) s)
      (with_setup k a side Uncounting (set_node n s))"
    using thread_rollback [OF assms, of ops k side b] True by auto
  also have "node_step debug ops \<dots> (with_setup k a side Finishing
      (set_node (n\<lparr>nd_shutdown := sched_finished (nd_shutdown n)\<rparr>) s))"
    using thread_uncount [of debug ops k a side "set_node n s"] by simp
  finally show ?thesis using True by simp
next
  case False
  then show ?thesis
    using thread_rollback [OF assms, of ops k side b] by auto
qed

text \<open>What the protocol handlers may do: they leave the connection bookkeeping alone and hand
  back the connection they were given.\<close>

definition env_same :: "'sem node \<Rightarrow> 'sem node \<Rightarrow> bool" where
  "env_same n' n \<longleftrightarrow> nd_connections n' = nd_connections n \<and> nd_permits n' = nd_permits n
     \<and> nd_config n' = nd_config n \<and> nd_shutdown n' = nd_shutdown n"

definition same_conn :: "connection \<Rightarrow> connection \<Rightarrow> bool" where
  "same_conn c' c \<longleftrightarrow> conn_id c' = conn_id c \<and> conn_addr c' = conn_addr c
     \<and> conn_side c' = conn_side c \<and> disconnecting c' = disconnecting c"

definition handler_frame :: "'sem setup_handler \<Rightarrow> bool" where
  "handler_frame h \<longleftrightarrow> (\<forall>c n r n'. h c n = (r, n') \<longrightarrow>
     env_same n' n \<and> (\<forall>c'. r = Some (Inr c') \<longrightarrow> same_conn c' c))"

definition handlers_frame :: "'sem handlers \<Rightarrow> bool" where
  "handlers_frame hs \<longleftrightarrow>
     handler_frame (hs_handler hs) \<and> handler_frame (rd_handler hs) \<and> handler_frame (wr_handler hs)"

lemma enable_protocol_frame:
  assumes "handler_frame h" and "enable_protocol published h c n = (r, n')"
  shows "env_same n' n \<and> (\<forall>c'. r = Inr c' \<longrightarrow> same_conn c' c)"
proof (cases published)
  case True
  obtain r0 n0 where h: "h c n = (r0, n0)" by fastforce
  with assms(1) have "env_same n0 n" "\<And>c'. r0 = Some (Inr c') \<Longrightarrow> same_conn c' c"
    by (auto simp: handler_frame_def)
  with assms(2) True h show ?thesis
    by (cases r0) (auto simp: enable_protocol_def)
next
  case False
  with assms(2) show ?thesis
    by (auto simp: enable_protocol_def env_same_def same_conn_def)
qed

lemma env_same_trans: "env_same n2 n1 \<Longrightarrow> env_same n1 n \<Longrightarrow> env_same n2 n"
  by (simp add: env_same_def)

lemma same_conn_trans: "same_conn c2 c1 \<Longrightarrow> same_conn c1 c \<Longrightarrow> same_conn c2 c"
  by (simp add: same_conn_def)

lemma same_conn_split: "same_conn (split_stream c) c"
  by (simp add: same_conn_def split_stream_def split: option.split)

lemma enable_protocols_frame:
  assumes hs: "handlers_frame hs" and en: "enable_protocols hs c n = (r, n')"
  shows "env_same n' n \<and> (\<forall>c'. r = Inr c' \<longrightarrow> same_conn c' c)"
proof -
  note f = enable_protocol_frame
  have h: "handler_frame (hs_handler hs)" "handler_frame (rd_handler hs)" "handler_frame (wr_handler hs)"
    using hs by (simp_all add: handlers_frame_def)
  obtain r1 n1 where e1: "enable_protocol (has_handshake (nd_protocols n)) (hs_handler hs) c n = (r1, n1)"
    by fastforce
  note f1 = f [OF h(1) e1]
  show ?thesis
  proof (cases r1)
    case (Inl e)
    with en e1 f1 show ?thesis by (auto simp: enable_protocols_def)
  next
    case (Inr c1)
    obtain r2 n2 where e2: "enable_protocol (has_reading (nd_protocols n1)) (rd_handler hs)
        (split_stream c1) n1 = (r2, n2)" by fastforce
    note f2 = f [OF h(2) e2]
    show ?thesis
    proof (cases r2)
      case (Inl e)
      with en e1 e2 Inr have "r = Inl e" "n' = n2"
        by (simp_all add: enable_protocols_def \<open>r1 = Inr c1\<close>)
      with f1 f2 show ?thesis by (blast intro: env_same_trans)
    next
      case (Inr c2)
      have e3: "enable_protocol (writing_handler (nd_protocols n2) \<noteq> None)
          (wr_handler hs) c2 n2 = (r, n')"
        using en unfolding enable_protocols_def e1 \<open>r1 = Inr c1\<close> prod.case sum.case e2 Inr .
      note f3 = f [OF h(3) e3]
      have "same_conn c2 c"
        using f1 f2 Inr \<open>r1 = Inr c1\<close> same_conn_split [of c1] same_conn_trans by metis
      with f1 f2 f3 show ?thesis by (metis env_same_trans same_conn_trans)
    qed
  qed
qed


lemma node_guard_drop_conn:
  "guard_drop debug g cs = Some cs' \<Longrightarrow>
   node_guard_drop debug g (n\<lparr>nd_connections := cs\<rparr>) = Some (n\<lparr>nd_connections := cs'\<rparr>)"
  by (simp add: node_guard_drop_def)

lemma run_add_refused:
  assumes "connections_add debug c \<lparr>guard_addr = a, guard_completed = False\<rparr>
      (is_underway (nd_shutdown (sy_node s))) (nd_connections (sy_node s)) = Some (Inl e, cs)"
  shows "sys_run debug ops (with_setup k a side (Counted c b) s)
    (with_setup k a side Finishing (set_node (if b
       then (sy_node s)\<lparr>nd_connections := cs, nd_shutdown := sched_finished (nd_shutdown (sy_node s))\<rparr>
       else (sy_node s)\<lparr>nd_connections := cs\<rparr>) s))"
proof -
  let ?g = "\<lparr>guard_addr = a, guard_completed = False\<rparr>"
  from assms have u: "add_active (is_underway (nd_shutdown (sy_node s))) c ?g
      (nd_connections (sy_node s)) = (Inl e, nd_connections (sy_node s))"
    and d: "guard_drop debug ?g (nd_connections (sy_node s)) = Some cs"
    by (auto simp: connections_add_def add_active_def split: if_splits)
  have "sys_run debug ops (with_setup k a side (Counted c b) s) (with_setup k a side (RollingBack b) s)"
    using thread_no_add [OF u, of debug ops k side b] by simp
  also have "sys_run debug ops \<dots> (with_setup k a side Finishing (set_node (if b
       then (sy_node s)\<lparr>nd_connections := cs, nd_shutdown := sched_finished (nd_shutdown (sy_node s))\<rparr>
       else (sy_node s)\<lparr>nd_connections := cs\<rparr>) s))"
    using run_rollback [of debug a s "(sy_node s)\<lparr>nd_connections := cs\<rparr>" ops k side b] d
    by (simp add: node_guard_drop_def cong: if_cong)
  finally show ?thesis .
qed

lemma run_add:
  assumes "connections_add debug c \<lparr>guard_addr = a, guard_completed = False\<rparr>
      (is_underway (nd_shutdown (sy_node s))) (nd_connections (sy_node s)) = Some (Inr u, cs)"
  shows "sys_run debug ops (with_setup k a side (Counted c b) s)
    (with_setup k a side (Registered (conn_id c) b)
       (set_node ((sy_node s)\<lparr>nd_connections := cs\<rparr>) (s\<lparr>sy_joined := sy_joined s @ [conn_id c]\<rparr>)))"
proof -
  let ?g = "\<lambda>b. \<lparr>guard_addr = a, guard_completed = b\<rparr>"
  let ?s = "s\<lparr>sy_joined := sy_joined s @ [conn_id c]\<rparr>"
  from assms obtain cs1 where a: "add_active (is_underway (nd_shutdown (sy_node s))) c (?g False)
      (nd_connections (sy_node s)) = (Inr (?g True), cs1)"
    and d: "guard_drop debug (?g True) cs1 = Some cs"
    by (auto simp: connections_add_def add_active_def split: if_splits)
  have "sys_run debug ops (with_setup k a side (Counted c b) s)
      (with_setup k a side (Added (conn_id c) b) (set_node ((sy_node s)\<lparr>nd_connections := cs1\<rparr>) ?s))"
    using thread_add [OF a, of debug ops k side b] by blast
  also have "node_step debug ops \<dots> (with_setup k a side (Registered (conn_id c) b)
      (set_node ((sy_node s)\<lparr>nd_connections := cs\<rparr>) ?s))"
    using thread_settle [of debug a "set_node ((sy_node s)\<lparr>nd_connections := cs1\<rparr>) ?s"
        "(sy_node s)\<lparr>nd_connections := cs\<rparr>" ops k side "conn_id c" b] d
    by (simp add: node_guard_drop_conn)
  finally show ?thesis .
qed


lemma run_wiring:
  assumes hs: "handlers_frame hs"
    and new: "connection_new (sy_next_id s) now a strm (side_not side) = (c0, i)"
    and en: "enable_protocols hs c0 (sy_node s) = (r, n)"
  shows "sys_run debug ops (with_setup k a side Reserved s)
    (with_setup k a side (Wiring c0) (set_node n (s\<lparr>sy_next_id := i, sy_n_ids := Suc (sy_n_ids s)\<rparr>)))"
proof -
  have "sys_run debug ops (with_setup k a side Reserved s)
      (with_setup k a side (Wiring c0) (s\<lparr>sy_next_id := i, sy_n_ids := Suc (sy_n_ids s)\<rparr>))"
    using thread_stream [OF new] by blast
  also have "node_step debug ops \<dots>
      (with_setup k a side (Wiring c0) (set_node n (s\<lparr>sy_next_id := i, sy_n_ids := Suc (sy_n_ids s)\<rparr>)))"
    using enable_protocols_frame [OF hs en] by (intro thread_env) (simp_all add: env_same_def)
  finally show ?thesis .
qed

lemma run_counted:
  assumes "same_conn c c0" and b: "b = has_on_connect (nd_protocols (sy_node s))"
  shows "sys_run debug ops (with_setup k a side (Wiring c0) s)
    (with_setup k a side (Counted c b) (set_node (if b
       then (sy_node s)\<lparr>nd_shutdown := sched_started (nd_shutdown (sy_node s))\<rparr> else sy_node s) s))"
proof -
  have "sys_run debug ops (with_setup k a side (Wiring c0) s) (with_setup k a side (Wired c) s)"
    using assms(1) by (intro r_into_rtranclp thread_wire) (simp_all add: same_conn_def)
  also have "node_step debug ops \<dots> (with_setup k a side (Counted c b) (set_node (if b
       then (sy_node s)\<lparr>nd_shutdown := sched_started (nd_shutdown (sy_node s))\<rparr> else sy_node s) s))"
    unfolding b by (rule thread_count)
  finally show ?thesis .
qed

lemma run_registered:
  assumes j: "fmlookup (sy_scheds s) j = None"
    and at: "attach_on_connect resp a cid (sy_node s) = (fate, n)"
  shows "sys_run debug ops (with_setup k a side (Registered cid b) s) (with_setup k a side Finishing
    (set_node (if b then n\<lparr>nd_shutdown := sched_finished (nd_shutdown n)\<rparr> else sy_node s) s))"
  by (cases b) (auto intro: run_scheduling [OF assms] r_into_rtranclp thread_no_sched)

text \<open>From the scheduling decision to the end, with the result and the node that \<open>adapt_stream\<close>
  computes.\<close>

lemma run_joined:
  assumes j: "fmlookup (sy_scheds s) j = None"
    and add: "connections_add debug c \<lparr>guard_addr = a, guard_completed = False\<rparr>
      (is_underway (nd_shutdown (sy_node s))) (nd_connections (sy_node s)) = Some (r, cs)"
    and at: "attach_on_connect resp a (conn_id c) ((sy_node s)\<lparr>nd_connections := cs\<rparr>) = (fate, n4)"
  defines "fin \<equiv> \<lambda>n. n\<lparr>nd_shutdown := sched_finished (nd_shutdown n)\<rparr>"
    and "n3 \<equiv> (sy_node s)\<lparr>nd_connections := cs\<rparr>"
  shows "\<exists>t. sys_run debug ops (with_setup k a side (Counted c b) s) (with_setup k a side Finishing t)
    \<and> sy_node t = (if b then (case r of Inl _ \<Rightarrow> fin n3 | Inr _ \<Rightarrow> fin n4) else n3)
    \<and> sy_next_id t = sy_next_id s \<and> sy_n_ids t = sy_n_ids s \<and> same_threads t s"
proof (cases r)
  case (Inl e)
  with run_add_refused [of debug c a s e cs ops k side b] add show ?thesis
    by (intro exI [of _ "set_node (if b then fin n3 else n3) s"])
      (simp add: fin_def n3_def cong: if_cong)
next
  case (Inr u)
  let ?s = "s\<lparr>sy_joined := sy_joined s @ [conn_id c]\<rparr>"
  note run_add [OF add [unfolded Inr], of ops k side b, folded n3_def]
  also have "sys_run debug ops (with_setup k a side (Registered (conn_id c) b) (set_node n3 ?s))
      (with_setup k a side Finishing (set_node (if b then fin n4 else n3) ?s))"
    using run_registered [of "set_node n3 ?s" j resp a "conn_id c" fate n4 debug ops k side b] j at
    by (simp add: fin_def n3_def cong: if_cong)
  finally show ?thesis
    using Inr
    by (intro exI [of _ "set_node (if b then fin n4 else n3) ?s"])
      (simp add: same_threads_def)
qed

lemma run_adapt:
  assumes hs: "handlers_frame hs" and j: "fmlookup (sy_scheds s) j = None"
    and ad: "adapt_stream debug hs now strm a side \<lparr>guard_addr = a, guard_completed = False\<rparr>
      (sy_next_id s) (sy_node s) = Some (r, n', i', fate)"
  shows "\<exists>t. sys_run debug ops (with_setup k a side Reserved s) (with_setup k a side Finishing t)
    \<and> sy_node t = n' \<and> sy_next_id t = i' \<and> sy_n_ids t = Suc (sy_n_ids s) \<and> same_threads t s"
proof -
  let ?g = "\<lparr>guard_addr = a, guard_completed = False\<rparr>"
  obtain c0 i where new: "connection_new (sy_next_id s) now a strm (side_not side) = (c0, i)"
    by fastforce
  obtain r1 n1 where en: "enable_protocols hs c0 (sy_node s) = (r1, n1)" by fastforce
  define s1 where "s1 = set_node n1 (s\<lparr>sy_next_id := i, sy_n_ids := Suc (sy_n_ids s)\<rparr>)"
  have s1: "sy_node s1 = n1" "sy_next_id s1 = i" "same_threads s1 s" "sy_scheds s1 = sy_scheds s"
    "sy_n_ids s1 = Suc (sy_n_ids s)"
    by (simp_all add: s1_def same_threads_def)
  note run1 = run_wiring [OF hs new en, of debug ops k, folded s1_def]
  show ?thesis
  proof (cases r1)
    case (Inl e)
    with ad new en have d: "node_guard_drop debug ?g n1 = Some n'" and i': "i' = i"
      by (auto simp: adapt_stream_def)
    note rtranclp.rtrancl_into_rtrancl [OF run1 thread_wire_fail]
    also have "sys_run debug ops (with_setup k a side (RollingBack False) s1)
        (with_setup k a side Finishing (set_node n' s1))"
      using run_rollback [of debug a s1 n' ops k side False] d s1(1) by simp
    finally show ?thesis
      using s1 i' by (intro exI [of _ "set_node n' s1"]) simp
  next
    case (Inr c1)
    define c where "c = c1\<lparr>readiness_notifier := None\<rparr>"
    define b where "b = has_on_connect (nd_protocols n1)"
    define n2 where "n2 = (if b then n1\<lparr>nd_shutdown := sched_started (nd_shutdown n1)\<rparr> else n1)"
    have "same_conn c c0"
      using enable_protocols_frame [OF hs en] Inr by (simp add: c_def same_conn_def)
    from rtranclp_trans [OF run1 run_counted [OF this refl]]
    have run2: "sys_run debug ops (with_setup k a side Reserved s)
        (with_setup k a side (Counted c b) (set_node n2 s1))"
      unfolding s1(1) b_def [symmetric] n2_def [symmetric] .
    have s2: "sy_node (set_node n2 s1) = n2" "sy_next_id (set_node n2 s1) = i"
      "sy_n_ids (set_node n2 s1) = Suc (sy_n_ids s)"
      "fmlookup (sy_scheds (set_node n2 s1)) j = None"
      using j s1 by simp_all
    from ad new en Inr obtain r2 cs where add: "connections_add debug c ?g
        (is_underway (nd_shutdown n2)) (nd_connections n2) = Some (r2, cs)"
      by (auto simp: adapt_stream_def Let_def c_def n2_def b_def split: option.splits)
    obtain f4 n4 where at: "attach_on_connect (oc_response hs a (conn_id c)) a (conn_id c)
        (n2\<lparr>nd_connections := cs\<rparr>) = (f4, n4)" by fastforce
    from run_joined [where s = "set_node n2 s1", unfolded s2(1-3), OF s2(4) add at, of ops k side b]
    obtain t where t: "sys_run debug ops (with_setup k a side (Counted c b) (set_node n2 s1))
        (with_setup k a side Finishing t)" "sy_next_id t = i" "same_threads t (set_node n2 s1)"
      "sy_n_ids t = Suc (sy_n_ids s)"
      "sy_node t = (if b then (case r2 of
           Inl _ \<Rightarrow> n2\<lparr>nd_connections := cs, nd_shutdown :=
             sched_finished (nd_shutdown (n2\<lparr>nd_connections := cs\<rparr>))\<rparr>
         | Inr _ \<Rightarrow> n4\<lparr>nd_shutdown := sched_finished (nd_shutdown n4)\<rparr>)
         else n2\<lparr>nd_connections := cs\<rparr>)"
      by blast
    moreover have "n' = sy_node t \<and> i' = i"
      using ad new en Inr add at unfolding adapt_stream_def t(5)
      by (auto simp: Let_def c_def [symmetric] n2_def [symmetric] b_def [symmetric]
          split: sum.splits)
    ultimately show ?thesis
      using rtranclp_trans [OF run2 t(1)] s1(3) by (auto simp: same_threads_def)
  qed
qed


lemma run_finish:
  assumes "fmlookup (sy_setups t) k = None"
    and "sys_run debug ops s (with_setup k a side Finishing t)"
  shows "sys_run debug ops s (set_node (drop_permit ops (sy_node t)) t)"
  using rtranclp.rtrancl_into_rtrancl [OF assms(2) thread_finish [OF assms(1)]] .

text \<open>The checks of \<open>connect_inner\<close>, one read after the other.\<close>

lemma run_precheck:
  assumes "connect_precheck a (sy_node s) = Inr u" and "fmlookup (sy_setups s) k = None"
  shows "sys_run debug ops s (with_setup k a Initiator Budget s)"
proof -
  from assms(1) have c: "\<not> is_underway (nd_shutdown (sy_node s))" "\<not> self_connect a (sy_node s)"
    "\<not> connections_is_connected (nd_connections (sy_node s)) a"
    by (auto simp: connect_precheck_def split: if_splits)
  have "sys_run debug ops s (with_setup k a Initiator CheckShutdown s)"
    using assms(2) by (intro r_into_rtranclp start_dial)
  also have "node_step debug ops \<dots> (with_setup k a Initiator CheckSelf s)"
    using c(1) by (intro thread_dial_check) simp
  also have "node_step debug ops \<dots> (with_setup k a Initiator CheckDuplicate s)"
    using c(2) by (intro thread_dial_check) simp
  also have "node_step debug ops \<dots> (with_setup k a Initiator Budget s)"
    using c(3) by (intro thread_dial_check) simp
  finally show ?thesis .
qed

lemma run_reserved:
  assumes "connect_precheck a (sy_node s) = Inr u" and "fmlookup (sy_setups s) k = None"
    and "take_permit ops (sy_node s) = (Inr v, n1)" and "check_and_reserve a n1 = (Inr g, n2)"
  shows "sys_run debug ops s (with_setup k a Initiator Reserved (set_node n2 s))"
proof -
  note run_precheck [OF assms(1,2)]
  also have "node_step debug ops (with_setup k a Initiator Budget s)
      (with_setup k a Initiator Permitted (set_node n1 s))"
    using assms(3) by (rule thread_permit)
  also have "node_step debug ops \<dots> (with_setup k a Initiator Reserved (set_node n2 s))"
    using thread_reserve [of a "set_node n1 s" g n2 debug ops k Initiator] assms(4) by simp
  finally show ?thesis .
qed

lemma connect_reserved_run:
  assumes hs: "handlers_frame hs" and k: "fmlookup (sy_setups s) k = None"
    and j: "fmlookup (sy_scheds s) j = None"
    and con: "connect_inner debug ops hs now dialled a (sy_next_id s) (sy_node s) = Some (r, n', i')"
    and pre: "connect_precheck a (sy_node s) = Inr u" and tp: "take_permit ops (sy_node s) = (Inr v, n1)"
    and cr: "check_and_reserve a n1 = (Inr g, n2)"
  shows "\<exists>t. sys_run debug ops s t \<and> sy_node t = n' \<and> sy_next_id t = i'
    \<and> sy_n_ids t \<le> Suc (sy_n_ids s) \<and> same_threads t s"
proof -
  have g: "g = \<lparr>guard_addr = a, guard_completed = False\<rparr>"
    using check_and_reserve_Inr(6) [OF cr] .
  note run = run_reserved [OF pre k tp cr, of debug]
  show ?thesis
  proof (cases "create_stream dialled")
    case (Inl e)
    with con pre tp cr g obtain n3 where
      n3: "node_guard_drop debug \<lparr>guard_addr = a, guard_completed = False\<rparr> n2 = Some n3"
      "n' = drop_permit ops n3" "i' = sy_next_id s"
      by (auto simp: connect_inner_def)
    have "sys_run debug ops s (with_setup k a Initiator Finishing (set_node n3 s))"
      using rtranclp_trans [OF rtranclp.rtrancl_into_rtrancl [OF run thread_fail]]
        run_rollback [of debug a "set_node n2 s" n3 ops k Initiator False] n3(1) by simp
    from run_finish [OF _ this] k n3 show ?thesis
      by (intro exI [of _ "set_node n' s"]) simp
  next
    case (Inr strm)
    with con pre tp cr g obtain n3 fate where
      "adapt_stream debug hs now strm a Initiator \<lparr>guard_addr = a, guard_completed = False\<rparr>
         (sy_next_id (set_node n2 s)) (sy_node (set_node n2 s)) = Some (r, n3, i', fate)"
      and n': "n' = drop_permit ops n3"
      by (auto simp: connect_inner_def)
    from run_adapt [OF hs _ this(1), of j ops k] j obtain t where
      "sys_run debug ops (with_setup k a Initiator Reserved (set_node n2 s))
         (with_setup k a Initiator Finishing t)"
      and t: "sy_node t = n3" "sy_next_id t = i'" "sy_n_ids t = Suc (sy_n_ids s)"
        "same_threads t (set_node n2 s)" by auto
    from run_finish [OF _ rtranclp_trans [OF run this(1)]] k t n' show ?thesis
      by (intro exI [of _ "set_node n' t"]) (simp add: same_threads_def)
  qed
qed

lemma connect_inner_run:
  assumes hs: "handlers_frame hs" and k: "fmlookup (sy_setups s) k = None"
    and j: "fmlookup (sy_scheds s) j = None"
    and con: "connect_inner debug ops hs now dialled a (sy_next_id s) (sy_node s) = Some (r, n', i')"
  shows "\<exists>t. sys_run debug ops s t \<and> sy_node t = n' \<and> sy_next_id t = i'
    \<and> sy_n_ids t \<le> Suc (sy_n_ids s) \<and> same_threads t s"
proof (cases "connect_precheck a (sy_node s)")
  case (Inl e)
  with con show ?thesis by (intro exI [of _ s]) (simp add: connect_inner_def)
next
  case pre: (Inr u)
  obtain r1 n1 where tp: "take_permit ops (sy_node s) = (r1, n1)" by fastforce
  show ?thesis
  proof (cases r1)
    case (Inl e)
    with rtranclp.rtrancl_into_rtrancl [OF run_precheck [OF pre k] thread_no_permit] tp k
    have "sys_run debug ops s (set_node n1 s)" by blast
    with con pre tp Inl show ?thesis
      by (intro exI [of _ "set_node n1 s"]) (simp add: connect_inner_def)
  next
    case (Inr v)
    obtain r2 n2 where cr: "check_and_reserve a n1 = (r2, n2)" by fastforce
    show ?thesis
    proof (cases r2)
      case (Inl e)
      have "node_step debug ops (with_setup k a Initiator Permitted (set_node n1 s))
          (with_setup k a Initiator Finishing (set_node n2 s))"
        using thread_no_reserve [of a "set_node n1 s" e n2 debug ops k Initiator] cr Inl
        by (simp add: rejected_def)
      from run_finish [OF _ rtranclp.rtrancl_into_rtrancl [OF rtranclp.rtrancl_into_rtrancl
            [OF run_precheck [OF pre k] thread_permit [OF tp [unfolded Inr]]] this]] k
      have "sys_run debug ops s (set_node (drop_permit ops n2) s)" by simp
      with con pre tp \<open>r1 = Inr v\<close> cr Inl show ?thesis
        by (intro exI [of _ "set_node (drop_permit ops n2) s"]) (simp add: connect_inner_def)
    next
      case (Inr g)
      with connect_reserved_run [OF hs k j con pre] tp \<open>r1 = Inr v\<close> cr show ?thesis
        by blast
    qed
  qed
qed


lemma admitted_run:
  assumes hs: "handlers_frame hs" and j: "fmlookup (sy_scheds s) j = None"
    and up: "\<not> is_underway (nd_shutdown (sy_node s))"
    and req: "handle_connection_request debug hs now strm a (sy_next_id s) (sy_node s) = Some (r, n', i')"
  shows "\<exists>t. sys_run debug ops (with_setup k a Responder Permitted s) (with_setup k a Responder Finishing t)
    \<and> sy_node t = n' \<and> sy_next_id t = i' \<and> same_threads t s"
proof -
  obtain r1 n1 where cr: "check_and_reserve a (sy_node s) = (r1, n1)" by fastforce
  show ?thesis
  proof (cases r1)
    case (Inl e)
    have "node_step debug ops (with_setup k a Responder Permitted s)
        (with_setup k a Responder Finishing (set_node (rejected Responder n1) s))"
      using thread_no_reserve [of a s e n1 debug ops k Responder] cr Inl by simp
    with r_into_rtranclp [of "node_step debug ops", OF this] req up cr Inl show ?thesis
      by (intro exI [of _ "set_node (rejected Responder n1) s"])
        (simp add: handle_connection_request_def admit_inbound_def rejected_def)
  next
    case (Inr g)
    have g: "g = \<lparr>guard_addr = a, guard_completed = False\<rparr>"
      using check_and_reserve_Inr(6) [OF cr [unfolded Inr]] .
    have res: "node_step debug ops (with_setup k a Responder Permitted s)
        (with_setup k a Responder Reserved (set_node n1 s))"
      using thread_reserve [of a s g n1 debug ops k Responder] cr Inr by simp
    from req up cr Inr g obtain fate where
      "adapt_stream debug hs now strm a Responder \<lparr>guard_addr = a, guard_completed = False\<rparr>
         (sy_next_id (set_node n1 s)) (sy_node (set_node n1 s)) = Some (r, n', i', fate)"
      by (auto simp: handle_connection_request_def admit_inbound_def)
    from run_adapt [OF hs _ this, of j ops k] j obtain t where
      t: "sys_run debug ops (with_setup k a Responder Reserved (set_node n1 s))
           (with_setup k a Responder Finishing t)"
        "sy_node t = n'" "sy_next_id t = i'" "same_threads t (set_node n1 s)" by auto
    with converse_rtranclp_into_rtranclp [of "node_step debug ops", OF res t(1)] show ?thesis
      by (intro exI [of _ t]) (simp add: same_threads_def)
  qed
qed

lemma handle_connection_request_run:
  assumes hs: "handlers_frame hs" and k: "fmlookup (sy_setups s) k = None"
    and j: "fmlookup (sy_scheds s) j = None"
    and sem: "sem_try_acquire ops (nd_permits (sy_node s)) = Some sem"
    and req: "handle_connection_request debug hs now strm a (sy_next_id s)
      ((sy_node s)\<lparr>nd_permits := sem\<rparr>) = Some (r, n', i')"
  shows "\<exists>t. sys_run debug ops s t \<and> sy_node t = drop_permit ops n' \<and> sy_next_id t = i'
    \<and> same_threads t s"
proof -
  let ?s = "set_node ((sy_node s)\<lparr>nd_permits := sem\<rparr>) s"
  have start: "sys_run debug ops s (with_setup k a Responder Admitting ?s)"
    using accepted [OF k sem, of debug a] by (intro r_into_rtranclp) (simp add: with_setup_def set_node_def)
  have "\<exists>t. sys_run debug ops (with_setup k a Responder Admitting ?s) (with_setup k a Responder Finishing t)
      \<and> sy_node t = n' \<and> sy_next_id t = i' \<and> same_threads t s"
  proof (cases "is_underway (nd_shutdown (sy_node s))")
    case True
    have "node_step debug ops (with_setup k a Responder Admitting ?s) (with_setup k a Responder Finishing ?s)"
      using inbound_refused [of "with_setup k a Responder Admitting ?s" k _ debug ops] True by simp
    with req True show ?thesis
      by (intro exI [of _ ?s]) (auto simp: handle_connection_request_def admit_inbound_def)
  next
    case False
    have "node_step debug ops (with_setup k a Responder Admitting ?s) (with_setup k a Responder Permitted ?s)"
      using inbound_passed [of "with_setup k a Responder Admitting ?s" k _ debug ops] False by simp
    moreover obtain t where "sys_run debug ops (with_setup k a Responder Permitted ?s) (with_setup k a Responder Finishing t)"
        "sy_node t = n'" "sy_next_id t = i'" "same_threads t ?s"
      using admitted_run [of hs ?s j debug now strm a r n' i' ops k] hs j req False by auto
    ultimately show ?thesis
      by (intro exI [of _ t]) (auto simp: same_threads_def intro: converse_rtranclp_into_rtranclp)
  qed
  then obtain t where t: "sys_run debug ops (with_setup k a Responder Admitting ?s) (with_setup k a Responder Finishing t)"
      "sy_node t = n'" "sy_next_id t = i'" "same_threads t s" by blast
  from run_finish [OF _ rtranclp_trans [OF start t(1)]] t(2-4) k show ?thesis
    by (intro exI [of _ "set_node (drop_permit ops n') t"]) (simp add: same_threads_def)
qed

section \<open>Runs of a disconnect\<close>

text \<open>The system \<open>s\<close> with one more disconnect call \<open>k\<close>.\<close>

definition with_disc :: "nat \<Rightarrow> disc \<Rightarrow> disc_pc \<Rightarrow> 'sem sys \<Rightarrow> 'sem sys" where
  "with_disc k d pc s = s\<lparr>sy_discs := fmupd k (d\<lparr>dc_pc := pc\<rparr>) (sy_discs s)\<rparr>"

lemma with_disc_sel [simp]:
  "sy_node (with_disc k d pc s) = sy_node s"
  "sy_claims (with_disc k d pc s) = sy_claims s" "sy_hooks (with_disc k d pc s) = sy_hooks s"
  "fmlookup (sy_discs (with_disc k d pc s)) k = Some (d\<lparr>dc_pc := pc\<rparr>)"
  by (simp_all add: with_disc_def)

lemma with_disc_upd [simp]:
  "upd_disc k (d\<lparr>dc_pc := pc\<rparr>) pc' (with_disc k d pc s) = with_disc k d pc' s"
  "set_node n (with_disc k d pc s) = with_disc k d pc (set_node n s)"
  "fmlookup (sy_discs s) k = None \<Longrightarrow> del_disc k (with_disc k d pc s) = s"
  by (simp_all add: upd_disc_def with_disc_def set_node_def del_disc_def fmdrop_new)

lemma with_disc_hist [simp]:
  "(with_disc k d pc s)\<lparr>sy_claims := cl\<rparr> = with_disc k d pc (s\<lparr>sy_claims := cl\<rparr>)"
  "(with_disc k d pc s)\<lparr>sy_hooks := hk\<rparr> = with_disc k d pc (s\<lparr>sy_hooks := hk\<rparr>)"
  by (cases s, simp add: with_disc_def)+

lemma run_finalize:
  assumes k: "fmlookup (sy_discs s) k = None"
    and fin: "finalizer_drop debug (dc_addr d) (sy_node s) = Some (ts, n')"
  shows "sys_run debug ops (with_disc k d (Finalizing i) s) (set_node n' s)"
proof -
  let ?n = "finalizer_senders (dc_addr d) (sy_node s)"
  have "sys_run debug ops (with_disc k d (Finalizing i) s) (with_disc k d (Removing i) (set_node ?n s))"
    using sender_removed [of "with_disc k d (Finalizing i) s" k _ i debug ops]
    by (intro r_into_rtranclp) simp
  also have "node_step debug ops \<dots> (set_node n' s)"
    using conn_removed [of "with_disc k d (Removing i) (set_node ?n s)" k _ i debug ts n' ops] fin k
    by (simp add: finalizer_drop_def)
  finally show ?thesis .
qed

text \<open>The hook, if it is enabled and its handler answers.\<close>

lemma run_hook:
  assumes "(if has_on_disconnect (nd_protocols n)
            then (case od_response hs (dc_addr d) (dc_origin d) of
                    None \<Rightarrow> Some n
                  | Some h \<Rightarrow> map_option snd (attach_on_disconnect debug h (dc_addr d) n))
            else Some n) = Some n2"
    and "sy_node s = n"
  shows "\<exists>hk. sys_run debug ops (with_disc k d (Claimed i) s)
    (with_disc k d (Finalizing i) (set_node n2 (s\<lparr>sy_hooks := hk\<rparr>)))"
proof (cases "n2 = n \<and> (\<not> has_on_disconnect (nd_protocols n) \<or> od_response hs (dc_addr d) (dc_origin d) = None)")
  case True
  have "sys_run debug ops (with_disc k d (Claimed i) s) (with_disc k d (Finalizing i) s)"
    using hook_skipped [of "with_disc k d (Claimed i) s" k _ i debug ops]
    by (intro r_into_rtranclp) simp
  with True assms(2) show ?thesis
    by (intro exI [of _ "sy_hooks s"]) (auto simp: set_node_def)
next
  case False
  with assms obtain h fate where h: "has_on_disconnect (nd_protocols n)"
    "attach_on_disconnect debug h (dc_addr d) n = Some (fate, n2)"
    by (auto split: if_splits option.splits)
  let ?s = "set_node n2 (s\<lparr>sy_hooks := sy_hooks s @ [(i, dc_origin d)]\<rparr>)"
  have "sys_run debug ops (with_disc k d (Claimed i) s) (with_disc k d (Hooked i) ?s)"
    using hook_triggered [of "with_disc k d (Claimed i) s" k _ i debug h fate n2 ops] h assms(2)
    by (intro r_into_rtranclp) simp
  also have "node_step debug ops \<dots> (with_disc k d (Finalizing i) ?s)"
    using hook_done [of "with_disc k d (Hooked i) ?s" k _ i debug ops] by simp
  finally show ?thesis by blast
qed

lemma disconnect_w_origin_run:
  assumes k: "fmlookup (sy_discs s) k = None"
    and dis: "disconnect_w_origin debug hs a origin cid (sy_node s) = Some (b, n', ts)"
  shows "\<exists>t. sys_run debug ops s t \<and> sy_node t = n' \<and> same_threads t s"
proof -
  define d where "d = \<lparr>dc_addr = a, dc_origin = origin, dc_cid = cid, dc_owner = None, dc_pc = Claiming\<rparr>"
  have d: "dc_addr d = a" "dc_cid d = cid" "dc_origin d = origin" by (simp_all add: d_def)
  have start: "node_step debug ops s (with_disc k d Claiming s)"
    using disc_started [OF k, of debug ops a origin cid] by (simp add: with_disc_def d_def)
  show ?thesis
  proof (cases "claim_disconnect a cid (sy_node s)")
    case None
    with dis show ?thesis by (intro exI [of _ s]) (simp add: disconnect_w_origin_def)
  next
    case (Some n1)
    then obtain conn where conn: "fmlookup (active (nd_connections (sy_node s))) a = Some conn"
      by (elim claim_disconnect_Some)
    let ?i = "conn_id conn"
    let ?s1 = "\<lambda>n. set_node n (s\<lparr>sy_claims := sy_claims s @ [?i]\<rparr>)"
    have claim: "sys_run debug ops s (with_disc k d (Claimed ?i) (?s1 n1))"
      using claimed [of "with_disc k d Claiming s" k _ n1 conn debug ops] Some conn d
      by (intro converse_rtranclp_into_rtranclp [of "node_step debug ops", OF start] r_into_rtranclp)
        simp
    from dis Some obtain n2 where n2: "finalizer_drop debug a n2 = Some (ts, n')"
      and "(if has_on_disconnect (nd_protocols n1)
            then (case od_response hs (dc_addr d) (dc_origin d) of
                    None \<Rightarrow> Some n1
                  | Some h \<Rightarrow> map_option snd (attach_on_disconnect debug h (dc_addr d) n1))
            else Some n1) = Some n2"
      unfolding d by (auto simp: disconnect_w_origin_def split: option.splits)
    from run_hook [OF this(2), of "?s1 n1" ops k ?i] obtain hk where
      hook: "sys_run debug ops (with_disc k d (Claimed ?i) (?s1 n1))
        (with_disc k d (Finalizing ?i) (set_node n2 ((?s1 n1)\<lparr>sy_hooks := hk\<rparr>)))" by auto
    have "sys_run debug ops (with_disc k d (Finalizing ?i) (set_node n2 ((?s1 n1)\<lparr>sy_hooks := hk\<rparr>)))
        (set_node n' ((?s1 n1)\<lparr>sy_hooks := hk\<rparr>))"
      using run_finalize [of "set_node n2 ((?s1 n1)\<lparr>sy_hooks := hk\<rparr>)" k debug d ts n' ops ?i] n2 k d
      by simp
    from rtranclp_trans [OF claim rtranclp_trans [OF hook this]] show ?thesis
      by (intro exI [of _ "set_node n' ((?s1 n1)\<lparr>sy_hooks := hk\<rparr>)"]) (simp add: same_threads_def)
  qed
qed

end
