(* ===== verification/Node_Liveness.thy ===== *)
theory Node_Liveness
  imports Node_Runs
begin

text \<open>
  Nothing wedges: from every reachable state, a claimed disconnect can be completed, the active
  set can be drained once all its members are claimed, the scheduling count can be brought to
  zero, and a \<open>shut_down\<close> call can be brought to its end. Each lemma exhibits a run that leaves
  the other \<open>shut_down\<close> calls where they are.
\<close>

lemma with_setup_self:
  assumes "fmlookup (sy_setups s) k = Some su"
  shows "with_setup k (su_addr su) (su_side su) (su_pc su) s = s"
  using assms by (cases s) (simp add: with_setup_def fmupd_id)

lemma with_disc_self:
  assumes "fmlookup (sy_discs s) k = Some d" and "dc_pc d = pc"
  shows "with_disc k d pc s = s"
proof -
  have "d\<lparr>dc_pc := pc\<rparr> = d" using assms(2) by simp
  then show ?thesis
    using assms(1) by (cases s) (simp add: with_disc_def fmupd_id)
qed

text \<open>A call that holds a finalizer can always complete it, whatever it was doing.\<close>

lemma finalizer_remove_possible:
  assumes inv: "sys_inv avail s" and d: "fmlookup (sy_discs s) k = Some d" "claimed_id (dc_pc d) = Some i"
  obtains ts n where "finalizer_remove debug (dc_addr d) (sy_node s) = Some (ts, n)"
proof -
  obtain p where p: "fmlookup (sy_peers s) (dc_addr d) = Some p"
    using claimed_disc [OF sys_invD(6) [OF inv] d] by auto
  then have "0 < fmcount (\<lambda>a _. canonical_ip a = canonical_ip (dc_addr d)) (sy_peers s)"
    by (rule fmcount_pos) simp
  with sys_invD(8) [OF inv] have "limits_wf (sy_limits s)"
    "0 < ip_charge (sy_limits s) (canonical_ip (dc_addr d))"
    by (simp_all add: charges_exact_def)
  moreover from p obtain conn where "fmlookup (active (nd_connections (sy_node s))) (dc_addr d) = Some conn"
    by (auto simp: peers_lookup)
  ultimately show thesis
    by (rule finalizer_remove_active [where debug = debug]) (rule that)
qed

lemma finalize_run:
  assumes inv: "sys_inv avail s" and d: "fmlookup (sy_discs s) k = Some d" "claimed_id (dc_pc d) = Some i"
  shows "\<exists>t. sys_run debug ops s t \<and> sy_peers t = fmdrop (dc_addr d) (sy_peers s)
    \<and> sy_discs t = fmdrop k (sy_discs s) \<and> sy_sds t = sy_sds s"
proof -
  let ?n = "finalizer_senders (dc_addr d) (sy_node s)"
  have skip: "sys_run debug ops s (with_disc k d (Finalizing i) s)"
    if "dc_pc d = Claimed i \<or> dc_pc d = Hooked i"
    using that hook_skipped [OF d(1), of i debug ops] hook_done [OF d(1), of i debug ops]
    by (auto simp: upd_disc_def with_disc_def)
  have send: "sys_run debug ops s (with_disc k d (Removing i) (set_node ?n s))"
    if "dc_pc d \<noteq> Removing i"
  proof -
    have "sys_run debug ops s (with_disc k d (Finalizing i) s)"
      using d(2) that skip with_disc_self [OF d(1)] by (cases "dc_pc d") auto
    also have "node_step debug ops \<dots> (with_disc k d (Removing i) (set_node ?n s))"
      using sender_removed [of "with_disc k d (Finalizing i) s" k _ i debug ops] by simp
    finally show ?thesis .
  qed
  define n0 where "n0 = (if dc_pc d = Removing i then sy_node s else ?n)"
  have run: "sys_run debug ops s (with_disc k d (Removing i) (set_node n0 s))"
    using send with_disc_self [OF d(1)] by (cases "dc_pc d = Removing i") (auto simp: n0_def)
  have peers0: "peers n0 = sy_peers s" and conns0: "nd_connections n0 = nd_connections (sy_node s)"
    by (simp_all add: n0_def)
  obtain ts n where rem: "finalizer_remove debug (dc_addr d) n0 = Some (ts, n)"
    using finalizer_remove_possible [OF inv d, of debug] conns0
    by (force simp: finalizer_remove_def case_prod_beta)
  have "node_step debug ops (with_disc k d (Removing i) (set_node n0 s))
      (set_node n (del_disc k (with_disc k d (Removing i) (set_node n0 s))))"
    using conn_removed [of "with_disc k d (Removing i) (set_node n0 s)" k _ i debug ts n ops] rem by simp
  from rtranclp.rtrancl_into_rtrancl [OF run this] finalizer_remove_weak [OF rem] peers0
  show ?thesis
    by (intro exI [of _ "set_node n (del_disc k (with_disc k d (Removing i) (set_node n0 s)))"])
      (simp add: del_disc_def with_disc_def set_node_def)
qed


lemma sys_inv_run:
  assumes "semaphore_contract ops avail" and "sys_inv avail s" and "sys_run debug ops s t"
  shows "sys_inv avail t"
  using node_sys.inv_steps [OF assms(3), of avail] assms(1,2) by simp

lemma sd_inv_of:
  assumes "sys_inv avail s" and "fmlookup (sy_sds s) k = Some pc"
  shows "sd_inv k pc s"
  using sys_invD(15) [OF assms(1)] assms(2) by (simp add: shutdown_ok_def)

text \<open>Once every active connection is claimed, the active set can be drained.\<close>

lemma drain_run:
  assumes sem: "semaphore_contract ops avail"
  shows "sys_inv avail s \<Longrightarrow> underway s \<Longrightarrow> all_claimed s \<Longrightarrow>
    \<exists>t. sys_run debug ops s t \<and> sy_peers t = fmempty \<and> sy_sds t = sy_sds s"
proof (induction "fmlen (sy_peers s)" arbitrary: s rule: less_induct)
  case less
  show ?case
  proof (cases "sy_peers s = fmempty")
    case True
    then show ?thesis by blast
  next
    case False
    then obtain a p where p: "fmlookup (sy_peers s) a = Some p"
      by (metis fmap_ext fmempty_lookup not_None_eq)
    with less.prems(3) have "p_disc p" by (auto simp: all_claimed_def)
    with p sys_invD(6) [OF less.prems(1)]
    have "fmcount (\<lambda>_ d. claimed_id (dc_pc d) \<noteq> None \<and> dc_addr d = a) (sy_discs s) \<noteq> 0"
      by (simp add: claims_exact_def)
    then obtain k d i where d: "fmlookup (sy_discs s) k = Some d" "claimed_id (dc_pc d) = Some i"
      "dc_addr d = a" by (auto simp: fmcount_0_iff)
    from finalize_run [OF less.prems(1) d(1,2)] obtain u where
      u: "sys_run debug ops s u" "sy_peers u = fmdrop a (sy_peers s)" "sy_sds u = sy_sds s"
      unfolding d(3) by blast
    have "sys_inv avail u" by (rule sys_inv_run [OF sem less.prems(1) u(1)])
    moreover have "underway u" "all_claimed u"
      using node_sys.stable_steps [where P = "\<lambda>s. underway s \<and> all_claimed s", OF _ u(1), of avail]
        less.prems underway_step all_claimed_step by blast+
    moreover have "fmlen (sy_peers u) < fmlen (sy_peers s)"
      using p u(2) fmlen_pos [OF p] by simp
    ultimately obtain t where "sys_run debug ops u t" "sy_peers t = fmempty" "sy_sds t = sy_sds u"
      using less.hyps by blast
    with u show ?thesis by (metis rtranclp_trans)
  qed
qed

text \<open>Every disconnect call can be brought to its end.\<close>

lemma owned_one:
  assumes sem: "semaphore_contract ops avail" and inv: "sys_inv avail s"
    and j: "fmlookup (sy_discs s) j = Some d"
  shows "\<exists>u. sys_run debug ops s u \<and> sy_sds u = sy_sds s \<and> sy_discs u = fmdrop j (sy_discs s)"
proof (cases "dc_pc d")
  case Claiming
  show ?thesis
  proof (cases "claim_disconnect (dc_addr d) (dc_cid d) (sy_node s)")
    case None
    from claim_refused [OF j Claiming None, of debug ops] show ?thesis
      by (intro exI [of _ "del_disc j s"]) (auto simp: del_disc_def)
  next
    case (Some n)
    then obtain conn where conn: "fmlookup (active (nd_connections (sy_node s))) (dc_addr d) = Some conn"
      by (elim claim_disconnect_Some)
    let ?u = "set_node n (upd_disc j d (Claimed (conn_id conn))
      (s\<lparr>sy_claims := sy_claims s @ [conn_id conn]\<rparr>))"
    have step: "node_step debug ops s ?u"
      by (rule claimed [OF j Claiming Some conn])
    have inv': "sys_inv avail ?u"
      by (rule sys_inv_step [OF sem inv step])
    have d': "fmlookup (sy_discs ?u) j = Some (d\<lparr>dc_pc := Claimed (conn_id conn)\<rparr>)"
      by (simp add: upd_disc_def)
    have sds: "sy_sds ?u = sy_sds s" "sy_discs ?u = fmupd j (d\<lparr>dc_pc := Claimed (conn_id conn)\<rparr>) (sy_discs s)"
      by (simp_all add: upd_disc_def)
    from finalize_run [OF inv' d', of "conn_id conn" debug ops] step sds show ?thesis
      by (auto intro: converse_rtranclp_into_rtranclp)
  qed
next
  case (Claimed i)
  with finalize_run [OF inv j, of i debug ops] show ?thesis by auto
next
  case (Hooked i)
  with finalize_run [OF inv j, of i debug ops] show ?thesis by auto
next
  case (Finalizing i)
  with finalize_run [OF inv j, of i debug ops] show ?thesis by auto
next
  case (Removing i)
  with finalize_run [OF inv j, of i debug ops] show ?thesis by auto
qed

lemma owned_run:
  assumes sem: "semaphore_contract ops avail"
  shows "sys_inv avail s \<Longrightarrow> \<exists>t. sys_run debug ops s t \<and> sy_sds t = sy_sds s
    \<and> (\<forall>j d. fmlookup (sy_discs t) j = Some d \<longrightarrow> dc_owner d \<noteq> Some k)"
proof (induction "fmlen (sy_discs s)" arbitrary: s rule: less_induct)
  case less
  show ?case
  proof (cases "\<exists>j d. fmlookup (sy_discs s) j = Some d \<and> dc_owner d = Some k")
    case False
    then show ?thesis by blast
  next
    case True
    then obtain j d where j: "fmlookup (sy_discs s) j = Some d" by blast
    obtain u where u: "sys_run debug ops s u" "sy_sds u = sy_sds s" "sy_discs u = fmdrop j (sy_discs s)"
      using owned_one [OF sem less.prems j] by blast
    have "fmlen (sy_discs u) < fmlen (sy_discs s)"
      using j u(3) fmlen_pos [OF j] by simp
    with less.hyps sys_inv_run [OF sem less.prems u(1)] u(2) obtain t where
      "sys_run debug ops u t" "sy_sds t = sy_sds s"
      "\<forall>j d. fmlookup (sy_discs t) j = Some d \<longrightarrow> dc_owner d \<noteq> Some k"
      by metis
    with u(1) show ?thesis by (meson rtranclp_trans)
  qed
qed

lemma fan_run:
  "fmlookup (sy_sds s) k = Some (SdFan as) \<Longrightarrow>
   \<exists>t. sys_run debug ops s t \<and> fmlookup (sy_sds t) k = Some (SdFan {||})"
proof (induction "fcard as" arbitrary: s as rule: less_induct)
  case less
  show ?case
  proof (cases "as = {||}")
    case True
    with less.prems show ?thesis by blast
  next
    case False
    then obtain a where a: "a |\<in>| as" by blast
    obtain j where j: "fmlookup (sy_discs s) j = None" using fm_fresh by blast
    from sd_launched [OF less.prems a j, of debug ops] obtain u where
      u: "node_step debug ops s u" "fmlookup (sy_sds u) k = Some (SdFan (as |-| {|a|}))"
      by (auto simp: upd_sd_def)
    have "fcard (as |-| {|a|}) < fcard as" using a by (rule fcard_fminus1_less)
    from less.hyps [OF this u(2)] u(1) show ?thesis
      by (meson converse_rtranclp_into_rtranclp)
  qed
qed


text \<open>A setup that holds a scheduling guard, and a scheduling task, can always let go of it.\<close>

lemma rollback_possible:
  assumes inv: "sys_inv avail s" and k: "fmlookup (sy_setups s) k = Some su" "pending (su_pc su)"
  obtains n where "node_guard_drop debug \<lparr>guard_addr = su_addr su, guard_completed = False\<rparr>
    (sy_node s) = Some n"
proof -
  have "0 < fmcount (\<lambda>_ v. pending (su_pc v) \<and> canonical_ip (su_addr v) = canonical_ip (su_addr su))
      (sy_setups s)"
    by (rule fmcount_pos [OF k(1)]) (simp add: k(2))
  with sys_invD(8) [OF inv] have "limits_wf (sy_limits s)"
    "0 < ip_charge (sy_limits s) (canonical_ip (su_addr su))"
    by (simp_all add: charges_exact_def)
  then show thesis
    by (rule guard_drop_pending [where debug = debug]) (rule that)
qed

lemma with_setup_sds [simp]: "sy_sds (with_setup k a side pc s) = sy_sds s"
  by (simp add: with_setup_def)

lemma counted_rollback_run:
  assumes inv: "sys_inv avail s" and k: "fmlookup (sy_setups s) k = Some su" "pending (su_pc su)"
  shows "\<exists>t. sys_run debug ops (with_setup k (su_addr su) side (RollingBack True) s) t \<and> sy_sds t = sy_sds s
    \<and> sched_in_flight (nd_shutdown (sy_node t)) = sched_in_flight (nd_shutdown (sy_node s)) - 1"
proof -
  obtain n where n: "node_guard_drop debug \<lparr>guard_addr = su_addr su, guard_completed = False\<rparr> (sy_node s) = Some n"
    using rollback_possible [OF inv k, of debug] by blast
  from run_rollback [OF this, of ops k side True] same_restD [of n "sy_node s"]
    node_guard_drop_weak [OF n] show ?thesis
    by (intro exI conjI) (assumption, simp_all)
qed

lemma counted_registered_run:
  assumes "nd_shutdown (sy_node x) = nd_shutdown (sy_node s)" and "sy_sds x = sy_sds s"
  shows "\<exists>t. sys_run debug ops (with_setup k a side (Registered cid True) x) t \<and> sy_sds t = sy_sds s
    \<and> sched_in_flight (nd_shutdown (sy_node t)) = sched_in_flight (nd_shutdown (sy_node s)) - 1"
proof -
  obtain j where "fmlookup (sy_scheds x) j = None" using fm_fresh by blast
  moreover have "attach_on_connect None a cid (sy_node x) = (NoTask, sy_node x)"
    by (simp add: attach_on_connect_def)
  ultimately have "sys_run debug ops (with_setup k a side (Registered cid True) x)
      (with_setup k a side Finishing (set_node ((sy_node x)\<lparr>nd_shutdown :=
        sched_finished (nd_shutdown (sy_node x))\<rparr>) x))"
    by (rule run_scheduling)
  with assms show ?thesis
    by (intro exI conjI) (assumption, simp_all)
qed

lemma counted_run:
  assumes inv: "sys_inv avail s" and u: "underway s"
    and k: "fmlookup (sy_setups s) k = Some su" "counted (su_pc su)"
  shows "\<exists>t. sys_run debug ops s t \<and> sy_sds t = sy_sds s
    \<and> sched_in_flight (nd_shutdown (sy_node t)) = sched_in_flight (nd_shutdown (sy_node s)) - 1"
proof -
  define a where "a = su_addr su"
  define side where "side = su_side su"
  have self: "with_setup k a side (su_pc su) s = s"
    unfolding a_def side_def by (rule with_setup_self [OF k(1)])
  note roll = counted_rollback_run [OF inv k(1), of debug ops side, folded a_def]
  note reg = counted_registered_run [where s = s and debug = debug and ops = ops and k = k and a = a and side = side]
  show ?thesis
  proof (cases "su_pc su")
    case (Counted c b)
    with k(2) have b: "su_pc su = Counted c True" by simp
    have "node_step debug ops (with_setup k a side (su_pc su) s) (with_setup k a side (RollingBack True) s)"
      unfolding b using thread_no_add [of s c a shutting_down_error "nd_connections (sy_node s)" debug ops k side True] u
      by (simp add: add_active_def is_underway_def)
    with roll b self show ?thesis
      by (metis converse_rtranclp_into_rtranclp pending.simps(4))
  next
    case (Added cid b)
    with k(2) have b: "su_pc su = Added cid True" by simp
    obtain n where n: "node_guard_drop debug \<lparr>guard_addr = a, guard_completed = True\<rparr> (sy_node s) = Some n"
      by (simp add: guard_drop_completed)
    have "node_step debug ops (with_setup k a side (su_pc su) s)
        (with_setup k a side (Registered cid True) (set_node n s))"
      unfolding b by (rule thread_settle [OF n])
    moreover have "nd_shutdown n = nd_shutdown (sy_node s)"
      using node_guard_drop_weak [OF n] by (simp add: same_rest_def)
    ultimately show ?thesis
      using reg [of "set_node n s" "cid"] self by (auto intro: converse_rtranclp_into_rtranclp)
  next
    case (Registered cid b)
    with k(2) reg [of s "cid"] self show ?thesis by simp
  next
    case (RollingBack b)
    with k(2) roll self show ?thesis by simp
  next
    case Uncounting
    with self have "sys_run debug ops s (with_setup k a side Finishing (set_node
        ((sy_node s)\<lparr>nd_shutdown := sched_finished (nd_shutdown (sy_node s))\<rparr>) s))"
      using thread_uncount [of debug ops k a side s] by auto
    then show ?thesis
      by (intro exI conjI) (assumption, simp_all)
  qed (use k(2) in simp_all)
qed

lemma sched_one:
  assumes "fmlookup (sy_scheds s) j = Some sc"
  shows "\<exists>t. sys_run debug ops s t \<and> sy_sds t = sy_sds s
    \<and> sched_in_flight (nd_shutdown (sy_node t)) = sched_in_flight (nd_shutdown (sy_node s)) - 1"
proof -
  let ?s = "s\<lparr>sy_scheds := fmupd j (sc\<lparr>sc_attached := True\<rparr>) (sy_scheds s)\<rparr>"
  have "sys_run debug ops s ?s"
  proof (cases "sc_attached sc")
    case True
    then have "sc\<lparr>sc_attached := True\<rparr> = sc" by simp
    with assms have "?s = s" by (simp add: fmupd_id)
    then show ?thesis by simp
  next
    case False
    from hook_attached [OF assms this, of None NoTask "sy_node s" debug ops] show ?thesis
      by (intro r_into_rtranclp) (simp add: attach_on_connect_def set_node_def)
  qed
  also from sched_done [of ?s j "sc\<lparr>sc_attached := True\<rparr>" debug ops]
  have "node_step debug ops ?s (set_node ((sy_node s)\<lparr>nd_shutdown :=
      sched_finished (nd_shutdown (sy_node s))\<rparr>) (s\<lparr>sy_scheds := fmdrop j (sy_scheds s)\<rparr>))"
    by simp
  finally show ?thesis
    by (intro exI conjI) (assumption, simp_all)
qed

lemma sched_run:
  assumes sem: "semaphore_contract ops avail"
  shows "sys_inv avail s \<Longrightarrow> underway s \<Longrightarrow>
    \<exists>t. sys_run debug ops s t \<and> sched_in_flight (nd_shutdown (sy_node t)) = 0 \<and> sy_sds t = sy_sds s"
proof (induction "sched_in_flight (nd_shutdown (sy_node s))" arbitrary: s)
  case 0
  then show ?case by (metis rtranclp.rtrancl_refl)
next
  case (Suc m)
  from Suc.hyps(2) sys_invD(10) [OF Suc.prems(1)]
  have "fmcount (\<lambda>_ su. counted (su_pc su)) (sy_setups s) \<noteq> 0 \<or> sy_scheds s \<noteq> fmempty"
    by (auto simp: sched_exact_def)
  then have "(\<exists>k su. fmlookup (sy_setups s) k = Some su \<and> counted (su_pc su))
      \<or> (\<exists>j sc. fmlookup (sy_scheds s) j = Some sc)"
    by (metis fmcount_0_iff fmap_ext fmempty_lookup not_None_eq)
  then obtain u where u: "sys_run debug ops s u" "sy_sds u = sy_sds s"
    "sched_in_flight (nd_shutdown (sy_node u)) = sched_in_flight (nd_shutdown (sy_node s)) - 1"
    using counted_run [OF Suc.prems] sched_one by metis
  moreover have "sys_inv avail u" by (rule sys_inv_run [OF sem Suc.prems(1) u(1)])
  moreover have "underway u"
    using node_sys.stable_steps [where P = underway, OF _ u(1), of avail] Suc.prems underway_step
    by blast
  moreover have "m = sched_in_flight (nd_shutdown (sy_node u))"
    using u(3) Suc.hyps(2) by simp
  ultimately obtain t where "sys_run debug ops u t"
    "sched_in_flight (nd_shutdown (sy_node t)) = 0" "sy_sds t = sy_sds u"
    using Suc.hyps(1) by blast
  with u show ?case by (metis rtranclp_trans)
qed

text \<open>A \<open>shut_down\<close> call can be brought to its end from wherever it is.\<close>

lemma sd_step_run:
  assumes sem: "semaphore_contract ops avail" and inv: "sys_inv avail s"
    and k: "fmlookup (sy_sds s) k = Some pc"
  shows "pc = SdClear \<Longrightarrow> \<exists>t. sys_run debug ops s t \<and> fmlookup (sy_sds t) k = Some SdDone"
    and "pc = SdSignal \<Longrightarrow> \<exists>t. sys_run debug ops s t \<and> fmlookup (sy_sds t) k = Some SdClear"
    and "pc = SdSched \<Longrightarrow> \<exists>t. sys_run debug ops s t \<and> fmlookup (sy_sds t) k = Some SdSignal"
    and "pc = SdDrain \<Longrightarrow> \<exists>t. sys_run debug ops s t \<and> fmlookup (sy_sds t) k = Some SdSched"
    and "pc = SdFan as \<Longrightarrow> \<exists>t. sys_run debug ops s t \<and> fmlookup (sy_sds t) k = Some SdDrain"
    and "pc = SdSnapshot \<Longrightarrow> \<exists>t as. sys_run debug ops s t \<and> fmlookup (sy_sds t) k = Some (SdFan as)"
    and "pc = SdTake \<Longrightarrow> \<exists>t. sys_run debug ops s t \<and> fmlookup (sy_sds t) k = Some SdSnapshot"
    and "pc = SdBegin \<Longrightarrow> \<exists>t. sys_run debug ops s t \<and> fmlookup (sy_sds t) k = Some SdTake"
proof -
  have one: "\<exists>t. sys_run debug ops x t \<and> fmlookup (sy_sds t) k = Some q"
    if "node_step debug ops x t" "fmlookup (sy_sds t) k = Some q" for x t q
    using that by blast
  have after: "\<exists>t. sys_run debug ops s t \<and> fmlookup (sy_sds t) k = Some q"
    if "sys_run debug ops s x" "\<exists>t. sys_run debug ops x t \<and> fmlookup (sy_sds t) k = Some q" for x q
    using that by (meson rtranclp_trans)
  show "\<exists>t. sys_run debug ops s t \<and> fmlookup (sy_sds t) k = Some SdDone" if "pc = SdClear"
    using sd_cleared [OF k [unfolded that]] by (rule one) (simp add: upd_sd_def)
  show "\<exists>t. sys_run debug ops s t \<and> fmlookup (sy_sds t) k = Some SdClear" if "pc = SdSignal"
    using sd_signalled [OF k [unfolded that]] by (rule one) (simp add: upd_sd_def)
  show "\<exists>t. sys_run debug ops s t \<and> fmlookup (sy_sds t) k = Some SdSignal" if "pc = SdSched"
  proof -
    from sd_inv_of [OF inv k] that have "underway s" by simp
    from sched_run [OF sem inv this] obtain x where x: "sys_run debug ops s x"
      "sched_in_flight (nd_shutdown (sy_node x)) = 0" "sy_sds x = sy_sds s" by blast
    from sd_sched_drained [of x k debug ops] x k that show ?thesis
      by (intro after [OF x(1)] one) (auto simp: upd_sd_def)
  qed
  show "\<exists>t. sys_run debug ops s t \<and> fmlookup (sy_sds t) k = Some SdSched" if "pc = SdDrain"
  proof -
    from sd_inv_of [OF inv k] that have "underway s" "all_claimed s" by simp_all
    from drain_run [OF sem inv this] obtain x where x: "sys_run debug ops s x"
      "sy_peers x = fmempty" "sy_sds x = sy_sds s" by blast
    have "active (nd_connections (sy_node x)) = fmempty"
      using x(2) by (metis fmlen_0_iff fmlen_fmmap peers_def)
    from sd_drained [of x k debug ops, OF _ this] x k that show ?thesis
      by (intro after [OF x(1)] one) (auto simp: upd_sd_def)
  qed
  show "\<exists>t. sys_run debug ops s t \<and> fmlookup (sy_sds t) k = Some SdDrain" if "pc = SdFan as"
  proof -
    from fan_run [OF k [unfolded that]] obtain x where x: "sys_run debug ops s x"
      "fmlookup (sy_sds x) k = Some (SdFan {||})" by blast
    from owned_run [OF sem sys_inv_run [OF sem inv x(1)]] obtain y where y: "sys_run debug ops x y"
      "sy_sds y = sy_sds x" "\<forall>j d. fmlookup (sy_discs y) j = Some d \<longrightarrow> dc_owner d \<noteq> Some k" by blast
    from sd_joined [of y k debug ops, OF _ y(3)] x(2) y(2) show ?thesis
      by (intro after [OF rtranclp_trans [OF x(1) y(1)]] one) (auto simp: upd_sd_def)
  qed
  show "\<exists>t as. sys_run debug ops s t \<and> fmlookup (sy_sds t) k = Some (SdFan as)" if "pc = SdSnapshot"
    using sd_snapshot [OF k [unfolded that], of debug ops]
    by (intro exI conjI, intro r_into_rtranclp) (assumption, simp add: upd_sd_def)
  show "\<exists>t. sys_run debug ops s t \<and> fmlookup (sy_sds t) k = Some SdSnapshot" if "pc = SdTake"
  proof -
    obtain r n ts where "take_tasks (sy_node s) = (r, n, ts)" by (metis prod_cases3)
    from sd_taken [OF k [unfolded that] this, of debug ops] show ?thesis
      by (rule one) (simp add: upd_sd_def)
  qed
  show "\<exists>t. sys_run debug ops s t \<and> fmlookup (sy_sds t) k = Some SdTake" if "pc = SdBegin"
    using sd_begun [OF k [unfolded that]] by (rule one) (simp add: upd_sd_def)
qed


lemma sd_done_run:
  assumes sem: "semaphore_contract ops avail"
  shows "sys_inv avail s \<Longrightarrow> fmlookup (sy_sds s) k = Some pc \<Longrightarrow>
    \<exists>t. sys_run debug ops s t \<and> fmlookup (sy_sds t) k = Some SdDone"
proof -
  let ?reach = "\<lambda>s q. \<exists>t. sys_run debug ops s t \<and> fmlookup (sy_sds t) k = Some q"
  have chain: "?reach s SdDone"
    if "sys_inv avail s" "?reach s q"
      "\<And>u. sys_inv avail u \<Longrightarrow> fmlookup (sy_sds u) k = Some q \<Longrightarrow> ?reach u SdDone" for s q
    using that by (metis sem sys_inv_run rtranclp_trans)
  note st = sd_step_run [OF sem]
  have clear: "?reach s SdDone" if "sys_inv avail s" "fmlookup (sy_sds s) k = Some SdClear" for s
    using st(1) [OF that] by simp
  have sig: "?reach s SdDone" if "sys_inv avail s" "fmlookup (sy_sds s) k = Some SdSignal" for s
    using chain [OF that(1) st(2) [OF that refl] clear] .
  have sched: "?reach s SdDone" if "sys_inv avail s" "fmlookup (sy_sds s) k = Some SdSched" for s
    using chain [OF that(1) st(3) [OF that refl] sig] .
  have drain: "?reach s SdDone" if "sys_inv avail s" "fmlookup (sy_sds s) k = Some SdDrain" for s
    using chain [OF that(1) st(4) [OF that refl] sched] .
  have fan: "?reach s SdDone" if "sys_inv avail s" "fmlookup (sy_sds s) k = Some (SdFan as)" for s as
    using chain [OF that(1) st(5) [OF that refl] drain] .
  have snap: "?reach s SdDone" if "sys_inv avail s" "fmlookup (sy_sds s) k = Some SdSnapshot" for s
    using st(6) [OF that refl] fan that(1) by (metis sem sys_inv_run rtranclp_trans)
  have take: "?reach s SdDone" if "sys_inv avail s" "fmlookup (sy_sds s) k = Some SdTake" for s
    using chain [OF that(1) st(7) [OF that refl] snap] .
  have beg: "?reach s SdDone" if "sys_inv avail s" "fmlookup (sy_sds s) k = Some SdBegin" for s
    using chain [OF that(1) st(8) [OF that refl] take] .
  show "?reach s SdDone" if "sys_inv avail s" "fmlookup (sy_sds s) k = Some pc"
    using that beg take snap fan drain sched sig clear by (cases pc) auto
qed

end
