(* ===== verification/Node_Properties.thy ===== *)
theory Node_Properties
  imports Node_Liveness
begin

text \<open>
  The properties of the node under every interleaving of its tasks, read off the invariants
  of \<open>Node_Invariants\<close> and \<open>Node_Shutdown\<close>, the runs of \<open>Node_Runs\<close> and the progress lemmas of
  \<open>Node_Liveness\<close>: the limits, the bookkeeping of what an IP address is charged, who tears a
  connection down, and what a shutdown guarantees. A small node with a counting semaphore is
  run through a connect, a disconnect and a shutdown; every property is applied to it.
\<close>

section \<open>A concrete node\<close>

lemma no_claims_active:
  assumes "claims_exact s" and "sy_discs s = fmempty"
    and "fmlookup (active (nd_connections (sy_node s))) a = Some c"
  shows "\<not> disconnecting c"
proof -
  have "fmlookup (sy_peers s) a = Some (peer_of c)"
    using assms(3) by (simp add: peers_lookup)
  moreover have "\<not> (\<exists>p. fmlookup (sy_peers s) a = Some p \<and> p_disc p)"
    using assms(1,2) by (simp add: claims_exact_def)
  ultimately show ?thesis by simp
qed

lemma demo_handlers_frame: "handlers_frame demo_handlers"
  by (simp add: demo_handlers_def handlers_frame_def handler_frame_def env_same_def same_conn_def)

definition demo_start :: "nat sys" where
  "demo_start = \<lparr>sy_node = demo_node, sy_next_id = 0, sy_setups = fmempty, sy_scheds = fmempty,
     sy_discs = fmempty, sy_sds = fmempty, sy_n_ids = 0, sy_claims = [], sy_hooks = [],
     sy_joined = [], sy_panicked = False\<rparr>"

lemma demo_sys_start: "sys_start nat_sem demo_start"
proof -
  have "node_new nat_sem 0 ((config_default False)\<lparr>cfg_name := Some ''demo''\<rparr>) 0 = Inr (demo_node, 0)"
    by (simp add: node_new_def config_default_def demo_node_def nat_sem_def)
  then have "\<exists>now cfg k k'. node_new nat_sem now cfg k = Inr (demo_node, k')" by blast
  then show ?thesis by (simp add: sys_start_def demo_start_def)
qed

lemma demo_connect:
  "\<exists>n. connect_inner True nat_sem demo_handlers 0 (Completed (Inr 7)) demo_addr 0 demo_node
     = Some (Inr (), n, 1) \<and> fmdom (active (nd_connections n)) = {|demo_addr|}"
  by (simp add: connect_inner_def connect_precheck_def demo_node_def shutdown_default_def
      is_underway_def self_connect_def listening_addr_def connections_is_connected_def
      connections_default_def take_permit_def nat_sem_def check_and_reserve_def Let_def
      limits_default_def limits_ip_count_def config_default_def create_stream_def adapt_stream_def
      connection_new_def enable_protocols_def enable_protocol_def protocols_default_def
      connections_add_def add_active_def guard_drop_def limits_reserve_def drop_permit_def
      split_stream_def canonical_ip_def demo_addr_def fetch_add_def fcard_fempty)


lemma demo_dial:
  obtains t where "sys_run True nat_sem demo_start t"
    and "fmdom (active (nd_connections (sy_node t))) = {|demo_addr|}"
    and "same_threads t demo_start" and "sy_n_ids t \<le> 1"
proof -
  from demo_connect obtain n where n:
    "connect_inner True nat_sem demo_handlers 0 (Completed (Inr 7)) demo_addr 0 demo_node = Some (Inr (), n, 1)"
    "fmdom (active (nd_connections n)) = {|demo_addr|}" by blast
  have "\<exists>t. sys_run True nat_sem demo_start t \<and> sy_node t = n \<and> sy_next_id t = 1
      \<and> sy_n_ids t \<le> Suc (sy_n_ids demo_start) \<and> same_threads t demo_start"
    by (rule connect_inner_run [OF demo_handlers_frame, where k = 0 and j = 0])
      (use n(1) in \<open>simp_all add: demo_start_def\<close>)
  with n(2) that show thesis by (auto simp: demo_start_def)
qed

lemma demo_permitted:
  obtains t where "sys_run True nat_sem demo_start t"
    and "fmlookup (sy_setups t) 0 = Some \<lparr>su_addr = demo_addr, su_side = Initiator, su_pc = Permitted\<rparr>"
proof -
  have "connect_precheck demo_addr (sy_node demo_start) = Inr ()"
    by (simp add: demo_start_def demo_node_def connect_precheck_def shutdown_default_def is_underway_def
        self_connect_def listening_addr_def connections_is_connected_def connections_default_def)
  moreover have "take_permit nat_sem (sy_node demo_start) = (Inr (), demo_node\<lparr>nd_permits := 99\<rparr>)"
    by (simp add: demo_start_def demo_node_def take_permit_def nat_sem_def)
  moreover have "fmlookup (sy_setups demo_start) 0 = None"
    by (simp add: demo_start_def)
  ultimately show thesis
    using that [OF rtranclp.rtrancl_into_rtrancl [OF run_precheck thread_permit]] by simp
qed

lemma demo_claimed:
  obtains t d i where "sys_run True nat_sem demo_start t"
    and "fmlookup (sy_discs t) 0 = Some d" and "dc_pc d = Claimed i"
    and "is_connected (sy_node t) demo_addr" and "dc_addr d = demo_addr"
    and "sy_n_ids t \<le> 1" and "sy_sds t = fmempty" and "sy_discs t = fmupd 0 d fmempty"
    and "fmdom (active (nd_connections (sy_node t))) = {|demo_addr|}" and "dc_owner d = None"
proof -
  obtain s where s: "sys_run True nat_sem demo_start s"
    "fmdom (active (nd_connections (sy_node s))) = {|demo_addr|}" "same_threads s demo_start"
    "sy_n_ids s \<le> 1"
    by (rule demo_dial)
  from s(2) obtain c where c: "fmlookup (active (nd_connections (sy_node s))) demo_addr = Some c"
    by (metis fmdom_notI finsertI1 not_None_eq)
  have none: "sy_discs s = fmempty" "sy_sds s = fmempty"
    using s(3) by (simp_all add: same_threads_def demo_start_def)
  have inv: "sys_inv (\<lambda>n. n) s"
    by (rule sys_inv_reachable [OF nat_sem_contract demo_sys_start s(1)])
  have "\<not> disconnecting c"
    by (rule no_claims_active [OF sys_invD(6) [OF inv] none(1) c])
  with c have cl: "claim_disconnect demo_addr None (sy_node s) \<noteq> None"
    by (simp add: claim_disconnect_None)
  then obtain n where n: "claim_disconnect demo_addr None (sy_node s) = Some n" by blast
  let ?d = "\<lparr>dc_addr = demo_addr, dc_origin = OriginUser, dc_cid = None, dc_owner = None, dc_pc = Claiming\<rparr>"
  let ?s1 = "s\<lparr>sy_discs := fmupd 0 ?d (sy_discs s)\<rparr>"
  let ?t = "set_node n (upd_disc 0 ?d (Claimed (conn_id c)) (?s1\<lparr>sy_claims := sy_claims ?s1 @ [conn_id c]\<rparr>))"
  have "node_step True nat_sem s ?s1"
    by (rule disc_started) (simp add: none)
  moreover have "node_step True nat_sem ?s1 ?t"
    by (rule claimed) (simp_all add: n c)
  ultimately have "sys_run True nat_sem demo_start ?t"
    using s(1) by (meson rtranclp.rtrancl_into_rtrancl)
  moreover have "is_connected (sy_node ?t) demo_addr"
    using n c by (auto simp: claim_disconnect_def Let_def is_connected_def connections_is_connected_def
        split: if_splits)
  moreover have "fmdom (active (nd_connections (sy_node ?t))) = {|demo_addr|}"
    using n by (elim claim_disconnect_Some) (simp add: s(2))
  ultimately show thesis
    using s(4)
    by (intro that [of ?t "?d\<lparr>dc_pc := Claimed (conn_id c)\<rparr>" "conn_id c"])
      (simp_all add: upd_disc_def none)
qed

text \<open>A shutdown that begins while the connection is being torn down.\<close>

lemma demo_flagged:
  obtains s d i where "sys_run True nat_sem demo_start s"
    and "fmlookup (sy_sds s) 0 = Some SdTake" and "sd_flag (nd_shutdown (sy_node s))"
    and "sy_discs s = fmupd 0 d fmempty" and "dc_pc d = Claimed i" and "dc_owner d = None"
    and "fmdom (active (nd_connections (sy_node s))) = {|demo_addr|}"
proof -
  obtain t d i where t: "sys_run True nat_sem demo_start t" "dc_pc d = Claimed i"
    "sy_sds t = fmempty" "sy_discs t = fmupd 0 d fmempty"
    "fmdom (active (nd_connections (sy_node t))) = {|demo_addr|}" "dc_owner d = None"
    by (rule demo_claimed)
  let ?t1 = "upd_sd 0 SdBegin t"
  let ?t2 = "set_node (begin_shutdown (sy_node ?t1)) (upd_sd 0 SdTake ?t1)"
  have "node_step True nat_sem t ?t1" by (rule sd_called) (simp add: t(3))
  moreover have "node_step True nat_sem ?t1 ?t2" by (rule sd_begun) (simp add: upd_sd_def)
  ultimately have "sys_run True nat_sem demo_start ?t2"
    using t(1) by (meson rtranclp.rtrancl_into_rtrancl)
  then show thesis
    by (rule that [of ?t2 d i])
      (simp_all add: t upd_sd_def begin_shutdown_def shutdown_begin_def)
qed

lemma demo_drain:
  obtains t c where "sys_run True nat_sem demo_start t" and "fmlookup (sy_sds t) 0 = Some SdDrain"
    and "fmlookup (active (nd_connections (sy_node t))) demo_addr = Some c"
proof -
  obtain s d i where s: "sys_run True nat_sem demo_start s" "fmlookup (sy_sds s) 0 = Some SdTake"
    "sy_discs s = fmupd 0 d fmempty" "dc_owner d = None"
    "fmdom (active (nd_connections (sy_node s))) = {|demo_addr|}" "dc_pc d = Claimed i"
    by (rule demo_flagged)
  let ?n = "(sy_node s)\<lparr>nd_tasks := fmempty\<rparr>"
  obtain rest ts where "take_tasks (sy_node s) = (rest, ?n, ts)" by (simp add: take_tasks_def Let_def)
  with s(2) have "node_step True nat_sem s (set_node ?n (upd_sd 0 SdSnapshot s))" by (rule sd_taken)
  with s(1) have run: "sys_run True nat_sem demo_start (set_node ?n (upd_sd 0 SdSnapshot s))" by auto
  let ?s1 = "set_node ?n (upd_sd 0 SdSnapshot s)"
  let ?s2 = "upd_sd 0 (SdFan {|demo_addr|}) ?s1"
  have "node_step True nat_sem ?s1 ?s2"
    using sd_snapshot [of ?s1 0 True nat_sem] s(5)
    by (simp add: upd_sd_def connected_addrs_def connections_addrs_def)
  with run have run: "sys_run True nat_sem demo_start ?s2" by auto
  let ?d = "\<lparr>dc_addr = demo_addr, dc_origin = OriginShutdown, dc_cid = None, dc_owner = Some 0, dc_pc = Claiming\<rparr>"
  let ?s3 = "upd_sd 0 (SdFan {||}) (?s2\<lparr>sy_discs := fmupd 1 ?d (sy_discs ?s2)\<rparr>)"
  have "node_step True nat_sem ?s2 ?s3"
    using sd_launched [of ?s2 0 "{|demo_addr|}" demo_addr 1 True nat_sem] s(3)
    by (simp add: upd_sd_def set_node_def)
  with run have run: "sys_run True nat_sem demo_start ?s3" by auto
  have inv: "sys_inv (\<lambda>n. n) ?s3"
    by (rule sys_inv_reachable [OF nat_sem_contract demo_sys_start run])
  have d0: "fmlookup (sy_discs ?s3) 0 = Some d" "fmlookup (sy_discs ?s3) 1 = Some ?d"
    using s(3) by (simp_all add: upd_sd_def)
  have node3: "sy_node ?s3 = ?n" by (simp add: upd_sd_def)
  from s(5) obtain c where "fmlookup (active (nd_connections (sy_node s))) demo_addr = Some c"
    by (metis finsertI1 fmdom_notI not_None_eq)
  with node3 have c: "fmlookup (active (nd_connections (sy_node ?s3))) demo_addr = Some c" by simp
  obtain p where p: "fmlookup (sy_peers ?s3) (dc_addr d) = Some p" "p_disc p"
    using claimed_disc [OF sys_invD(6) [OF inv] d0(1)] s(6) by auto
  then obtain c' where c': "fmlookup (active (nd_connections (sy_node s))) (dc_addr d) = Some c'"
    "disconnecting c'"
    unfolding node3 peers_lookup by auto
  with s(5) have "dc_addr d = demo_addr" by (metis fmdomI fsingletonD)
  with c' c have "disconnecting c" unfolding node3 by simp
  with c have "claim_disconnect demo_addr None (sy_node ?s3) = None"
    by (simp add: claim_disconnect_None)
  with claim_refused [OF d0(2), of True nat_sem] have "node_step True nat_sem ?s3 (del_disc 1 ?s3)" by simp
  with run have run: "sys_run True nat_sem demo_start (del_disc 1 ?s3)" by auto
  have "node_step True nat_sem (del_disc 1 ?s3) (upd_sd 0 SdDrain (del_disc 1 ?s3))"
    by (rule sd_joined) (use s(3,4) in \<open>auto simp: del_disc_def upd_sd_def split: if_splits\<close>)
  with run have "sys_run True nat_sem demo_start (upd_sd 0 SdDrain (del_disc 1 ?s3))" by auto
  then show thesis
    by (rule that) (use c in \<open>simp_all add: upd_sd_def del_disc_def\<close>)
qed

lemma demo_shutdown:
  obtains t where "sys_run True nat_sem demo_start t" and "fmlookup (sy_sds t) 0 = Some SdDone"
proof -
  have "node_step True nat_sem demo_start (upd_sd 0 SdBegin demo_start)"
    by (rule sd_called) (simp add: demo_start_def)
  then have run: "sys_run True nat_sem demo_start (upd_sd 0 SdBegin demo_start)" by blast
  then have "sys_inv (\<lambda>n. n) (upd_sd 0 SdBegin demo_start)"
    by (rule sys_inv_reachable [OF nat_sem_contract demo_sys_start])
  from sd_done_run [OF nat_sem_contract this, of 0 SdBegin True] run that show thesis
    by (auto simp: upd_sd_def dest: rtranclp_trans)
qed

section \<open>Limits\<close>

lemma guarded_permit: "guarded pc \<Longrightarrow> holds_permit pc"
  by (cases pc) auto

lemma num_connected_peers: "num_connected n = fmlen (peers n)"
  by (simp add: num_connected_def connections_num_connected_def peers_def)

lemma fmcount_keys_peers:
  "fmcount (\<lambda>a _. P a) (peers n) = fmcount (\<lambda>a _. P a) (active (nd_connections n))"
  by (simp add: fmcount_def peers_lookup)

text \<open>C1: In every state the node can reach under any interleaving of connects, inbound
  connections, disconnects, cancellations and shutdowns, the number of active connections stays
  within \<open>max_connections\<close>, the number of active connections from any one (canonical) IP address
  within \<open>max_connections_per_ip\<close>, and the number of pending ones within \<open>max_connecting\<close>.\<close>

theorem connection_caps:
  assumes "semaphore_contract ops avail" and "sys_start ops s" and "sys_run debug ops s t"
  shows "num_connected (sy_node t) \<le> max_connections (sy_config t)
    \<and> fmcount (\<lambda>a _. canonical_ip a = ip) (active (nd_connections (sy_node t)))
      \<le> max_connections_per_ip (sy_config t)
    \<and> num_connecting (sy_node t) \<le> max_connecting (sy_config t)"
proof -
  note inv = sys_invD [OF sys_inv_reachable [OF assms]]
  have "fmcount (\<lambda>_ su. guarded (su_pc su)) (sy_setups t)
      \<le> fmcount (\<lambda>_ su. holds_permit (su_pc su)) (sy_setups t)"
    by (rule fmcount_mono) (rule guarded_permit)
  with inv(1) have "num_connecting (sy_node t) \<le> max_connecting (sy_config t)"
    by (simp add: num_connecting_def connecting_card [OF inv(2)] inv_permits_def)
  moreover from inv(9) have "num_connected (sy_node t) \<le> max_connections (sy_config t)"
    "fmcount (\<lambda>a _. canonical_ip a = ip) (sy_peers t) \<le> max_connections_per_ip (sy_config t)"
    unfolding caps_kept_def num_connected_peers by (auto dest: spec [of _ ip] add_leD1)
  ultimately show ?thesis
    by (simp add: fmcount_keys_peers)
qed

theorem connection_caps_witness:
  "\<exists>s t. sys_start nat_sem s \<and> sys_run True nat_sem s t \<and> is_connected (sy_node t) demo_addr
     \<and> num_connected (sy_node t) \<le> max_connections (sy_config t)"
proof -
  obtain t where t: "sys_run True nat_sem demo_start t"
    "fmdom (active (nd_connections (sy_node t))) = {|demo_addr|}" by (rule demo_dial)
  have "fmlookup (active (nd_connections (sy_node t))) demo_addr \<noteq> None"
    using t(2) by (metis fmdom_notI finsertI1)
  with connection_caps [OF nat_sem_contract demo_sys_start t(1)] demo_sys_start t(1)
  show ?thesis by (auto simp: is_connected_def connections_is_connected_def)
qed

text \<open>C2: The per-IP bookkeeping is exact in every reachable state: the count held for an IP is
  the number of its active connections plus the number of its setups that hold an uncompleted
  guard, and buckets are removed when they reach zero.\<close>

theorem ip_charge_exact:
  assumes "semaphore_contract ops avail" and "sys_start ops s" and "sys_run debug ops s t"
  shows "fmlookup (ip_counts (sy_limits t)) ip \<noteq> Some 0
    \<and> ip_charge (sy_limits t) ip
      = fmcount (\<lambda>a _. canonical_ip a = ip) (active (nd_connections (sy_node t)))
        + fmcount (\<lambda>_ su. pending (su_pc su) \<and> canonical_ip (su_addr su) = ip) (sy_setups t)"
  using sys_invD(8) [OF sys_inv_reachable [OF assms]]
  by (simp add: charges_exact_def limits_wf_def fmcount_keys_peers)

theorem ip_charge_exact_witness:
  "\<exists>t. sys_run True nat_sem demo_start t \<and> is_connected (sy_node t) demo_addr
     \<and> 0 < ip_charge (sy_limits t) (canonical_ip demo_addr)"
proof -
  obtain t where t: "sys_run True nat_sem demo_start t"
    "fmdom (active (nd_connections (sy_node t))) = {|demo_addr|}" by (rule demo_dial)
  then obtain c where c: "fmlookup (active (nd_connections (sy_node t))) demo_addr = Some c"
    by (metis fmdom_notI finsertI1 not_None_eq)
  have "0 < fmcount (\<lambda>a _. canonical_ip a = canonical_ip demo_addr) (active (nd_connections (sy_node t)))"
    by (rule fmcount_pos [OF c]) simp
  with ip_charge_exact [OF nat_sem_contract demo_sys_start t(1), of "canonical_ip demo_addr"] c t(1)
  show ?thesis by (auto simp: is_connected_def connections_is_connected_def)
qed

text \<open>A setup that reaches \<open>check_and_reserve\<close> holds a permit of the connection-setup budget,
  and that permit keeps the number of pending connections strictly below \<open>max_connecting\<close>: the
  branch that rejects for too many pending connections is never taken.\<close>

lemma pending_limit_never_rejects:
  assumes "semaphore_contract ops avail" and "sys_start ops s" and "sys_run debug ops s t"
    and "fmlookup (sy_setups t) k = Some su" and "su_pc su = Permitted"
  shows "num_connecting (sy_node t) < max_connecting (sy_config t)
    \<and> fst (check_and_reserve (su_addr su) (sy_node t)) \<noteq> Inl (IoError QuotaExceeded (Message ''pending''))"
proof -
  note inv = sys_invD [OF sys_inv_reachable [OF assms(1-3)]]
  have "fmcount (\<lambda>_ su. guarded (su_pc su)) (sy_setups t)
      < fmcount (\<lambda>_ su. holds_permit (su_pc su)) (sy_setups t)"
    by (rule fmcount_less [OF _ assms(4)]) (auto simp: assms(5) intro: guarded_permit)
  with inv(1) have "num_connecting (sy_node t) < max_connecting (sy_config t)"
    by (simp add: num_connecting_def connecting_card [OF inv(2)] inv_permits_def)
  then show ?thesis
    by (auto simp: check_and_reserve_def Let_def num_connecting_def)
qed

text \<open>C9: When no setup and no disconnect is in flight, nothing is left behind by the ones that
  failed or were cancelled: no address is pending, the whole connection-setup budget is free,
  every IP is charged exactly for its active connections, none of them is marked as
  disconnecting, and the queries of the node agree with one another.\<close>

theorem idle_accounting:
  assumes "semaphore_contract ops avail" and "sys_start ops s" and "sys_run debug ops s t"
    and "sy_setups t = fmempty" and "sy_discs t = fmempty"
  shows "connecting (sy_limits t) = {||} \<and> avail (nd_permits (sy_node t)) = max_connecting (sy_config t)
    \<and> ip_charge (sy_limits t) ip
      = fmcount (\<lambda>a _. canonical_ip a = ip) (active (nd_connections (sy_node t)))
    \<and> (fmlookup (active (nd_connections (sy_node t))) a = Some c \<longrightarrow> \<not> disconnecting c)
    \<and> assert_consistent (sy_node t)"
proof -
  note inv = sys_invD [OF sys_inv_reachable [OF assms(1-3)]]
  have settled: "connecting (sy_limits t) = {||}"
    using connecting_card [OF inv(2)] assms(4) by simp
  moreover have "avail (nd_permits (sy_node t)) = max_connecting (sy_config t)"
    using inv(1) assms(4) by (simp add: inv_permits_def)
  moreover have "ip_charge (sy_limits t) ip
      = fmcount (\<lambda>a _. canonical_ip a = ip) (active (nd_connections (sy_node t)))"
    using inv(8) assms(4) by (simp add: charges_exact_def fmcount_keys_peers)
  moreover have "\<not> disconnecting c" if "fmlookup (active (nd_connections (sy_node t))) a = Some c"
    by (rule no_claims_active [OF inv(6) assms(5) that])
  ultimately show ?thesis
    using assert_consistent_settled [OF settled] by blast
qed

theorem idle_accounting_witness:
  "\<exists>t. sys_run True nat_sem demo_start t \<and> is_connected (sy_node t) demo_addr
     \<and> connecting (sy_limits t) = {||} \<and> nd_permits (sy_node t) = max_connecting (sy_config t)"
proof -
  obtain t where t: "sys_run True nat_sem demo_start t"
    "fmdom (active (nd_connections (sy_node t))) = {|demo_addr|}" "same_threads t demo_start"
    by (rule demo_dial)
  then have "is_connected (sy_node t) demo_addr"
    unfolding is_connected_def connections_is_connected_def by (metis fmdom_notI finsertI1)
  with idle_accounting [OF nat_sem_contract demo_sys_start t(1)] t show ?thesis
    by (auto simp: same_threads_def demo_start_def)
qed

text \<open>C3: No assertion of the connection bookkeeping ever fails, in any interleaving: no release
  finds its bucket missing, and no claimed connection vanishes before its finalizer runs.\<close>

theorem no_assertion_fails:
  assumes "semaphore_contract ops avail" and "sys_start ops s" and "sys_run debug ops s t"
  shows "\<not> sy_panicked t"
  by (rule sys_invD(11) [OF sys_inv_reachable [OF assms]])

theorem no_assertion_fails_witness:
  "\<exists>t. sys_run True nat_sem demo_start t \<and> is_connected (sy_node t) demo_addr \<and> \<not> sy_panicked t"
proof -
  obtain t d i where t: "sys_run True nat_sem demo_start t" "is_connected (sy_node t) demo_addr"
    by (rule demo_claimed)
  with no_assertion_fails [OF nat_sem_contract demo_sys_start t(1)] show ?thesis by blast
qed

section \<open>Disconnects\<close>

text \<open>C6: Every active connection that is being torn down has exactly one call that holds its
  finalizer, and every finalizer belongs to such a connection.\<close>

theorem teardown_owner:
  assumes "semaphore_contract ops avail" and "sys_start ops s" and "sys_run debug ops s t"
  shows "(\<exists>c. fmlookup (active (nd_connections (sy_node t))) a = Some c \<and> disconnecting c)
    \<longleftrightarrow> (\<exists>!k. \<exists>d i. fmlookup (sy_discs t) k = Some d \<and> dc_addr d = a \<and> claimed_id (dc_pc d) = Some i)"
    (is "?L \<longleftrightarrow> ?R")
proof -
  note inv = sys_invD [OF sys_inv_reachable [OF assms]]
  have L: "?L \<longleftrightarrow> (\<exists>p. fmlookup (sy_peers t) a = Some p \<and> p_disc p)"
    by (auto simp: peers_lookup)
  show ?thesis
  proof
    assume ?L
    with L inv(6) have "fmcount (\<lambda>_ d. claimed_id (dc_pc d) \<noteq> None \<and> dc_addr d = a) (sy_discs t) \<noteq> 0"
      by (simp add: claims_exact_def)
    then obtain k d i where d: "fmlookup (sy_discs t) k = Some d" "dc_addr d = a"
      "claimed_id (dc_pc d) = Some i" by (auto simp: fmcount_0_iff)
    with claim_unique [OF inv(6) d(1,3)] show ?R by metis
  next
    assume ?R
    then obtain k d i where "fmlookup (sy_discs t) k = Some d" "dc_addr d = a"
      "claimed_id (dc_pc d) = Some i" by blast
    with claimed_disc [OF inv(6)] L show ?L by metis
  qed
qed

theorem teardown_owner_witness:
  "\<exists>t. sys_run True nat_sem demo_start t
     \<and> (\<exists>c. fmlookup (active (nd_connections (sy_node t))) demo_addr = Some c \<and> disconnecting c)
     \<and> (\<exists>!k. \<exists>d i. fmlookup (sy_discs t) k = Some d \<and> dc_addr d = demo_addr \<and> claimed_id (dc_pc d) = Some i)"
proof -
  obtain t d i where t: "sys_run True nat_sem demo_start t" "fmlookup (sy_discs t) 0 = Some d"
    "dc_pc d = Claimed i" "dc_addr d = demo_addr" by (rule demo_claimed)
  have inv: "claims_exact t"
    by (rule sys_invD(6) [OF sys_inv_reachable [OF nat_sem_contract demo_sys_start t(1)]])
  obtain p where "fmlookup (sy_peers t) demo_addr = Some p" "p_disc p"
    using claimed_disc [OF inv t(2)] t(3,4) by auto
  then have "\<exists>c. fmlookup (active (nd_connections (sy_node t))) demo_addr = Some c \<and> disconnecting c"
    by (auto simp: peers_lookup)
  with teardown_owner [OF nat_sem_contract demo_sys_start t(1), of demo_addr] t(1) show ?thesis by blast
qed

lemma distinct_count_list: "(\<And>x. count_list xs x \<le> 1) \<Longrightarrow> distinct xs"
proof (induction xs)
  case (Cons y ys)
  have "count_list ys x \<le> 1" for x
    using Cons.prems [of x] by (cases "x = y") auto
  moreover have "y \<notin> set ys"
    using Cons.prems [of y] by (simp add: count_list_0_iff)
  ultimately show ?case using Cons.IH by simp
qed simp

lemma set_count_list_le: "(\<And>x. count_list xs x \<le> count_list ys x) \<Longrightarrow> set xs \<subseteq> set ys"
  by (metis count_list_0_iff le_zero_eq subsetI)

text \<open>C7: As long as at most \<open>2 ^ 64\<close> connection objects were created, every connection joins the
  active set at most once, its disconnect is claimed at most once and only after it joined, and
  the \<open>OnDisconnect\<close> hook is triggered at most once for it, and only after the claim.\<close>

theorem claimed_once:
  assumes "semaphore_contract ops avail" and "sys_start ops s" and "sys_run debug ops s t"
    and "sy_n_ids t \<le> 2 ^ 64"
  shows "distinct (sy_joined t) \<and> distinct (sy_claims t) \<and> distinct (map fst (sy_hooks t))
    \<and> set (sy_claims t) \<subseteq> set (sy_joined t) \<and> fst ` set (sy_hooks t) \<subseteq> set (sy_claims t)"
proof -
  note inv = sys_invD [OF sys_inv_reachable [OF assms(1-3)]]
  have joined: "count_list (sy_joined t) i \<le> 1" for i
  proof -
    have "fmcount (\<lambda>_ su. pc_id (su_pc su) = Some i) (sy_setups t) + count_list (sy_joined t) i
        \<le> of_bool (i \<in> issued (sy_n_ids t))"
      using inv(12) assms(4) by (simp add: ids_fresh_def)
    moreover have "of_bool (i \<in> issued (sy_n_ids t)) \<le> (1 :: nat)" by simp
    ultimately show ?thesis by linarith
  qed
  have claims: "count_list (sy_claims t) i \<le> count_list (sy_joined t) i" for i
    by (rule add_leD1 [of _ "fmcount (\<lambda>_ p. p_id p = i \<and> \<not> p_disc p) (sy_peers t)"])
      (use inv(13) assms(4) in \<open>simp add: ids_active_def\<close>)
  have hooks: "count_list (map fst (sy_hooks t)) i \<le> count_list (sy_claims t) i" for i
    by (rule add_leD1 [of _ "fmcount (\<lambda>_ d. dc_pc d = Claimed i) (sy_discs t)"])
      (use inv(14) in \<open>simp add: ids_hooks_def\<close>)
  show ?thesis
    using distinct_count_list [OF joined] distinct_count_list [OF order_trans [OF claims joined]]
      distinct_count_list [OF order_trans [OF hooks order_trans [OF claims joined]]]
      set_count_list_le [OF claims] set_count_list_le [OF hooks] by simp
qed

theorem claimed_once_witness:
  "\<exists>t. sys_run True nat_sem demo_start t \<and> is_connected (sy_node t) demo_addr
     \<and> distinct (sy_claims t) \<and> set (sy_claims t) \<subseteq> set (sy_joined t)"
proof -
  obtain t d i where t: "sys_run True nat_sem demo_start t" "is_connected (sy_node t) demo_addr"
    "sy_n_ids t \<le> 1"
    by (rule demo_claimed)
  from t(3) have "sy_n_ids t \<le> 2 ^ 64" by simp
  with claimed_once [OF nat_sem_contract demo_sys_start t(1)] t(1,2) show ?thesis by blast
qed

section \<open>Shutdown\<close>

text \<open>Once the shutdown flag is set it stays set, and from then on no connection enters the
  active set again: the active set only shrinks along every further run.\<close>

lemma active_only_shrinks:
  assumes "sd_flag (nd_shutdown (sy_node s))" and "sys_run debug ops s t"
  shows "sd_flag (nd_shutdown (sy_node t))
    \<and> fmdom (active (nd_connections (sy_node t))) |\<subseteq>| fmdom (active (nd_connections (sy_node s)))"
  using assms(2)
proof (induction rule: rtranclp_induct)
  case base
  with assms(1) show ?case by simp
next
  case (step u v)
  have "fmdom (active (nd_connections (sy_node v))) |\<subseteq>| fmdom (active (nd_connections (sy_node u)))"
  proof
    fix a
    assume "a |\<in>| fmdom (active (nd_connections (sy_node v)))"
    then obtain p where "fmlookup (sy_peers v) a = Some p"
      by (auto simp: fmlookup_dom_iff peers_lookup)
    from peers_shrink_step [OF _ step.hyps(2) this] step.IH
    show "a |\<in>| fmdom (active (nd_connections (sy_node u)))"
      by (auto simp: fmlookup_dom_iff peers_lookup)
  qed
  with step.IH underway_step [OF _ step.hyps(2)] show ?case by auto
qed



text \<open>C4: When \<open>shut_down\<close> has returned, no connection is active and no \<open>OnConnect\<close> scheduling
  task is running, and this stays so whatever the tasks still in flight do.\<close>

theorem shutdown_is_final:
  assumes "semaphore_contract ops avail" and "sys_start ops s" and "sys_run debug ops s t"
    and "fmlookup (sy_sds t) k = Some SdDone" and "sys_run debug ops t u"
  shows "active (nd_connections (sy_node u)) = fmempty \<and> sy_scheds u = fmempty
    \<and> sd_flag (nd_shutdown (sy_node u))"
proof -
  have q: "quiescent t"
    using sd_inv_of [OF sys_inv_reachable [OF assms(1-3)] assms(4)] by simp
  from assms(5) q have "quiescent u"
    by (induction rule: rtranclp_induct) (auto intro: quiescent_step)
  then have "sy_peers u = fmempty" "sy_scheds u = fmempty" "underway u"
    by (simp_all add: quiescent_def)
  moreover from this(1) have "active (nd_connections (sy_node u)) = fmempty"
    by (metis fmlen_0_iff fmlen_fmmap peers_def)
  ultimately show ?thesis by simp
qed

theorem shutdown_is_final_witness:
  "\<exists>t. sys_run True nat_sem demo_start t \<and> fmlookup (sy_sds t) 0 = Some SdDone
     \<and> active (nd_connections (sy_node t)) = fmempty"
proof -
  obtain t where t: "sys_run True nat_sem demo_start t" "fmlookup (sy_sds t) 0 = Some SdDone"
    by (rule demo_shutdown)
  from shutdown_is_final [OF nat_sem_contract demo_sys_start t rtranclp.rtrancl_refl] t show ?thesis
    by blast
qed

text \<open>C5: \<open>shut_down\<close> never wedges: from every reachable state, whatever the other tasks were
  doing and whichever of them were cancelled, there is a run that brings a pending \<open>shut_down\<close>
  call to its end.\<close>

theorem shutdown_completes:
  assumes "semaphore_contract ops avail" and "sys_start ops s" and "sys_run debug ops s t"
    and "fmlookup (sy_sds t) k = Some pc"
  shows "\<exists>u. sys_run debug ops t u \<and> fmlookup (sy_sds u) k = Some SdDone"
  by (rule sd_done_run [OF assms(1) sys_inv_reachable [OF assms(1-3)] assms(4)])

theorem shutdown_completes_witness:
  "\<exists>u. sys_run True nat_sem (upd_sd 0 SdBegin demo_start) u \<and> fmlookup (sy_sds u) 0 = Some SdDone"
proof -
  have "node_step True nat_sem demo_start (upd_sd 0 SdBegin demo_start)"
    by (rule sd_called) (simp add: demo_start_def)
  from shutdown_completes [OF nat_sem_contract demo_sys_start r_into_rtranclp
      [of "node_step True nat_sem", OF this]]
  show ?thesis by (simp add: upd_sd_def)
qed

section \<open>The straight-line calls\<close>

lemma attach_on_connect_keeps:
  assumes "attach_on_connect resp a i n = (fate, n')"
  shows "nd_permits n' = nd_permits n" and "limits (nd_connections n') = limits (nd_connections n)"
    and "fmdom (active (nd_connections n')) = fmdom (active (nd_connections n))"
  using assms
  by (auto simp: attach_on_connect_def Let_def fmlookup_dom_iff split: option.splits if_splits)

lemma adapt_stream_result:
  assumes "handlers_frame hs" and "limits_wf (limits cs)" and "a |\<notin>| connecting (limits cs)"
    and "nd_connections n = cs\<lparr>limits := limits_reserve (limits cs) a\<rparr>"
    and "\<not> is_underway (nd_shutdown n)"
  shows "\<exists>r n' i' f. adapt_stream debug hs now s a side \<lparr>guard_addr = a, guard_completed = False\<rparr> i n
      = Some (r, n', i', f) \<and> nd_permits n' = nd_permits n
      \<and> (case r of Inl _ \<Rightarrow> nd_connections n' = cs
         | Inr _ \<Rightarrow> fmdom (active (nd_connections n')) = finsert a (fmdom (active cs))
             \<and> connecting (limits (nd_connections n')) = connecting (limits cs))"
proof -
  obtain c i' where c: "connection_new i now a s (side_not side) = (c, i')" by fastforce
  then have ca: "conn_addr c = a" by (auto simp: connection_new_def)
  obtain r n1 where en: "enable_protocols hs c n = (r, n1)" by fastforce
  note frame = enable_protocols_frame [OF assms(1) en, unfolded env_same_def same_conn_def]
  show ?thesis
  proof (cases r)
    case (Inl e)
    have "guard_drop debug \<lparr>guard_addr = a, guard_completed = False\<rparr> (nd_connections n1) = Some cs"
      using frame assms(4) guard_drop_reserve [OF assms(2,3)] by simp
    with c en Inl frame show ?thesis
      by (simp add: adapt_stream_def node_guard_drop_def)
  next
    case (Inr c1)
    have del: "finsert a (connecting (limits cs)) |-| {|a|} = connecting (limits cs)"
      using assms(3) by auto
    from Inr frame ca have "conn_addr c1 = a" by simp
    define cs1 where "cs1 = cs\<lparr>active := fmupd a (c1\<lparr>readiness_notifier := None\<rparr>) (active cs)\<rparr>"
    have add: "connections_add debug (c1\<lparr>readiness_notifier := None\<rparr>)
        \<lparr>guard_addr = a, guard_completed = False\<rparr> False (nd_connections n1)
      = Some (Inr (), cs1\<lparr>limits := (limits_reserve (limits cs) a)\<lparr>connecting := connecting (limits cs)\<rparr>\<rparr>)"
      using frame assms(4) \<open>conn_addr c1 = a\<close> del
      by (simp add: connections_add_def add_active_def guard_drop_def cs1_def Let_def)
    have cs1: "fmdom (active cs1) = finsert a (fmdom (active cs))" by (simp add: cs1_def)
    have nu: "\<not> sd_flag (nd_shutdown n1)"
      using frame assms(5) by (simp add: is_underway_def)
    show ?thesis
    proof (cases "has_on_connect (nd_protocols n1)")
      case False
      with c en Inr nu add cs1 frame show ?thesis
        by (simp add: adapt_stream_def is_underway_def)
    next
      case True
      let ?n3 = "n1\<lparr>nd_shutdown := sched_started (nd_shutdown n1), nd_connections := cs1\<lparr>limits :=
        (limits_reserve (limits cs) a)\<lparr>connecting := connecting (limits cs)\<rparr>\<rparr>\<rparr>"
      obtain f n4 where at: "attach_on_connect (oc_response hs a (conn_id c1)) a (conn_id c1) ?n3 = (f, n4)"
        by fastforce
      with True c en Inr nu add cs1 frame attach_on_connect_keeps [OF at] show ?thesis
        by (simp add: adapt_stream_def is_underway_def Let_def)
    qed
  qed
qed

text \<open>The part of \<open>connect_inner\<close> after the address was reserved.\<close>

lemma connect_reserved:
  assumes sem: "semaphore_contract ops avail" and frame: "handlers_frame hs"
    and wf: "limits_wf (limits (nd_connections n))"
    and pre: "connect_precheck a n = Inr u" and tp: "take_permit ops n = (Inr v, n1)"
    and cr: "check_and_reserve a n1 = (Inr g, n2)"
  shows "\<exists>r n' i'. connect_inner debug ops hs now dialled a i n = Some (r, n', i')
    \<and> avail (nd_permits n') = avail (nd_permits n)
    \<and> (case r of Inl _ \<Rightarrow> nd_connections n' = nd_connections n
       | Inr _ \<Rightarrow> connected_addrs n' = finsert a (connected_addrs n)
           \<and> connecting (limits (nd_connections n')) = connecting (limits (nd_connections n)))"
proof -
  from tp obtain sem' where acq: "sem_try_acquire ops (nd_permits n) = Some sem'"
    and n1: "n1 = n\<lparr>nd_permits := sem'\<rparr>" by (auto elim: take_permit_Inr)
  have av: "avail (sem_release ops sem') = avail (nd_permits n)"
    using sem [unfolded semaphore_contract_def] acq by metis
  note ok = check_and_reserve_Inr [OF cr]
  have idle: "a |\<notin>| connecting (limits (nd_connections n))"
    using ok(5) n1 by simp
  show ?thesis
  proof (cases "create_stream dialled")
    case (Inl e)
    with pre tp cr ok(6,7) n1 av guard_drop_reserve [OF wf idle, of debug] show ?thesis
      by (simp add: connect_inner_def node_guard_drop_def drop_permit_def)
  next
    case (Inr s)
    have nu: "\<not> is_underway (nd_shutdown n2)"
      using pre ok(7) n1 by (auto simp: connect_precheck_def split: if_splits)
    have "nd_connections n2 = (nd_connections n)\<lparr>limits := limits_reserve (limits (nd_connections n)) a\<rparr>"
      using ok(7) n1 by simp
    from adapt_stream_result [OF frame wf idle this nu, of debug now s Initiator i]
    obtain r3 n3 i3 f where ad: "adapt_stream debug hs now s a Initiator g i n2 = Some (r3, n3, i3, f)"
      "nd_permits n3 = nd_permits n2"
      "case r3 of Inl _ \<Rightarrow> nd_connections n3 = nd_connections n
       | Inr _ \<Rightarrow> fmdom (active (nd_connections n3)) = finsert a (fmdom (active (nd_connections n)))
           \<and> connecting (limits (nd_connections n3)) = connecting (limits (nd_connections n))"
      using ok(6) by auto
    with pre tp cr Inr ok(7) n1 av show ?thesis
      by (cases r3) (simp_all add: connect_inner_def drop_permit_def connected_addrs_def connections_addrs_def)
  qed
qed

text \<open>C13: Run on its own, \<open>Node::connect_inner\<close> always returns and trips no assertion. It gives
  its slot of the connection-setup budget back; if it fails, at whatever point, the connection
  bookkeeping is exactly what it was; if it succeeds, the address joined the active set and is
  no longer pending.\<close>

theorem connect_all_or_nothing:
  assumes "semaphore_contract ops avail" and "handlers_frame hs"
    and "limits_wf (limits (nd_connections n))"
  shows "\<exists>r n' i'. connect_inner debug ops hs now dialled a i n = Some (r, n', i')
    \<and> avail (nd_permits n') = avail (nd_permits n)
    \<and> (case r of Inl _ \<Rightarrow> nd_connections n' = nd_connections n
       | Inr _ \<Rightarrow> connected_addrs n' = finsert a (connected_addrs n)
           \<and> connecting (limits (nd_connections n')) = connecting (limits (nd_connections n)))"
proof (cases "connect_precheck a n")
  case pre: (Inr u)
  obtain r1 n1 where tp: "take_permit ops n = (r1, n1)" by fastforce
  obtain r2 n2 where cr: "check_and_reserve a n1 = (r2, n2)" by fastforce
  consider e where "r1 = Inl e" | v e where "r1 = Inr v" "r2 = Inl e" | v g where "r1 = Inr v" "r2 = Inr g"
    by (cases r1; cases r2) auto
  then show ?thesis
  proof cases
    case 1
    with pre tp show ?thesis
      by (auto simp: connect_inner_def take_permit_def split: option.splits)
  next
    case 2
    with tp obtain sem' where acq: "sem_try_acquire ops (nd_permits n) = Some sem'"
      and n1: "n1 = n\<lparr>nd_permits := sem'\<rparr>" by (auto elim: take_permit_Inr)
    have "avail (sem_release ops sem') = avail (nd_permits n)"
      using assms(1) [unfolded semaphore_contract_def] acq by metis
    with 2 pre tp cr n1 check_and_reserve_Inl [of a n1] show ?thesis
      by (auto simp: connect_inner_def drop_permit_def)
  next
    case 3
    with connect_reserved [OF assms pre] tp cr show ?thesis by simp
  qed
qed (simp add: connect_inner_def)

theorem connect_all_or_nothing_witness:
  "\<exists>n'. connect_inner True nat_sem demo_handlers 0 (Completed (Inl (IoError (KindOs 111) NoPayload)))
       demo_addr 0 demo_node = Some (Inl (IoError (KindOs 111) NoPayload), n', 0)
     \<and> nd_permits n' = nd_permits demo_node \<and> nd_connections n' = nd_connections demo_node"
proof -
  let ?e = "IoError (KindOs 111) NoPayload"
  have wf: "limits_wf (limits (nd_connections demo_node))"
    by (simp add: demo_node_def connections_default_def)
  have "\<exists>n'. connect_inner True nat_sem demo_handlers 0 (Completed (Inl ?e)) demo_addr 0 demo_node
      = Some (Inl ?e, n', 0)"
    by (simp add: connect_inner_def connect_precheck_def demo_node_def shutdown_default_def
      is_underway_def self_connect_def listening_addr_def connections_is_connected_def
      connections_default_def take_permit_def nat_sem_def check_and_reserve_def Let_def
      limits_default_def limits_ip_count_def config_default_def create_stream_def
      guard_drop_def node_guard_drop_def limits_reserve_def limits_release_ip_def
      drop_permit_def canonical_ip_def demo_addr_def fcard_fempty)
  with connect_all_or_nothing [OF nat_sem_contract demo_handlers_frame wf, of True 0
      "Completed (Inl ?e)" demo_addr 0] show ?thesis by auto
qed

text \<open>C14: Once a shutdown is under way the node takes on no new work: an outbound connect and an
  inbound request are refused with the recognisable shutdown error and change nothing, a task
  handed to the node is aborted, the listener cannot be enabled, and a connection whose setup was
  already running is refused at the very end, leaving the active set as it was.\<close>

theorem shutdown_refuses_work:
  assumes "is_underway (nd_shutdown n)" and "handlers_frame hs"
  shows "connect_inner debug ops hs now dialled a i n = Some (Inl shutting_down_error, n, i)
    \<and> handle_connection_request debug hs now s a i n = Some (Inl shutting_down_error, n, i)
    \<and> register_task debug kind h n = Some (Inl shutting_down_error, n, [h])
    \<and> shutting_down_caused shutting_down_error
    \<and> (\<forall>r n' ab x. toggle_listener debug reuseport bl h n = Some (r, n', ab) \<longrightarrow> r \<noteq> Inr (Some x))
    \<and> (\<forall>r n' i' f. adapt_stream debug hs now s a side g i n = Some (r, n', i', f) \<longrightarrow>
        (\<exists>e. r = Inl e) \<and> f = NoTask \<and> active (nd_connections n') = active (nd_connections n))"
proof -
  have toggle: "r \<noteq> Inr (Some x)" if "toggle_listener debug reuseport bl h n = Some (r, n', ab)" for r n' ab x
    using that assms(1)
    by (auto simp: toggle_listener_def start_listening_def unregistered_register_def
        unregistered_new_def unregistered_drop_def register_task_def Let_def
        split: option.splits if_splits sum.splits)
  have adapt: "(\<exists>e. r = Inl e) \<and> f = NoTask \<and> active (nd_connections n') = active (nd_connections n)"
    if ad: "adapt_stream debug hs now s a side g i n = Some (r, n', i', f)" for r n' i' f
  proof -
    obtain c j where c: "connection_new i now a s (side_not side) = (c, j)" by fastforce
    obtain r1 n1 where en: "enable_protocols hs c n = (r1, n1)" by fastforce
    note frame = enable_protocols_frame [OF assms(2) en, unfolded env_same_def]
    have "sd_flag (nd_shutdown n1)" using frame assms(1) by (simp add: is_underway_def)
    with ad c en frame show ?thesis
      by (cases r1) (auto simp: adapt_stream_def Let_def connections_add_def add_active_def
          node_guard_drop_def guard_drop_def is_underway_def split: if_splits option.splits)
  qed
  show ?thesis
    using assms(1) toggle adapt
    by (simp add: connect_inner_def connect_precheck_def handle_connection_request_def
        admit_inbound_def register_task_def shutting_down_caused_def shutting_down_error_def)
qed

theorem shutdown_refuses_work_witness:
  "connect_inner True nat_sem demo_handlers 0 (Completed (Inr 7)) demo_addr 0 (begin_shutdown demo_node)
     = Some (Inl shutting_down_error, begin_shutdown demo_node, 0)"
  using shutdown_refuses_work [of "begin_shutdown demo_node", OF _ demo_handlers_frame,
      of True nat_sem 0 "Completed (Inr 7)" demo_addr 0]
  by (simp add: begin_shutdown_def shutdown_begin_def is_underway_def)

text \<open>C10: \<open>Node::connect_inner\<close> read as a straight-line function is one schedule of the
  interleaved system: whenever it returns (success or any error), there is a run of the system
  that ends in exactly the node and identifier counter it computes, and leaves every other
  task where it was.\<close>

theorem connect_inner_refines:
  assumes "handlers_frame hs" and "fmlookup (sy_setups s) k = None" and "fmlookup (sy_scheds s) j = None"
    and "connect_inner debug ops hs now dialled a (sy_next_id s) (sy_node s) = Some (r, n', i')"
  shows "\<exists>t. sys_run debug ops s t \<and> sy_node t = n' \<and> sy_next_id t = i'
    \<and> sy_n_ids t \<le> Suc (sy_n_ids s) \<and> same_threads t s"
  by (rule connect_inner_run [OF assms])

theorem connect_inner_refines_witness:
  "\<exists>n t. connect_inner True nat_sem demo_handlers 0 (Completed (Inr 7)) demo_addr 0 demo_node
       = Some (Inr (), n, 1) \<and> sys_run True nat_sem demo_start t \<and> sy_node t = n"
proof -
  from demo_connect obtain n where n:
    "connect_inner True nat_sem demo_handlers 0 (Completed (Inr 7)) demo_addr 0 demo_node = Some (Inr (), n, 1)"
    by blast
  have "\<exists>t. sys_run True nat_sem demo_start t \<and> sy_node t = n \<and> sy_next_id t = 1
      \<and> sy_n_ids t \<le> Suc (sy_n_ids demo_start) \<and> same_threads t demo_start"
    by (rule connect_inner_refines [OF demo_handlers_frame, where k = 0 and j = 0])
      (use n in \<open>simp_all add: demo_start_def\<close>)
  with n show ?thesis by blast
qed

text \<open>C11: The same holds for an inbound connection request, from the permit the accept loop took
  for it to the release of that permit.\<close>

theorem handle_connection_request_refines:
  assumes "handlers_frame hs" and "fmlookup (sy_setups s) k = None" and "fmlookup (sy_scheds s) j = None"
    and "sem_try_acquire ops (nd_permits (sy_node s)) = Some sem"
    and "handle_connection_request debug hs now strm a (sy_next_id s)
      ((sy_node s)\<lparr>nd_permits := sem\<rparr>) = Some (r, n', i')"
  shows "\<exists>t. sys_run debug ops s t \<and> sy_node t = drop_permit ops n' \<and> sy_next_id t = i'
    \<and> same_threads t s"
  by (rule handle_connection_request_run [OF assms])

lemma demo_request:
  "\<exists>n. handle_connection_request True demo_handlers 0 7 demo_addr 0 (demo_node\<lparr>nd_permits := 99\<rparr>)
     = Some (Inr (), n, 1) \<and> fmdom (active (nd_connections n)) = {|demo_addr|}"
  by (simp add: handle_connection_request_def admit_inbound_def demo_node_def shutdown_default_def
      is_underway_def connections_default_def check_and_reserve_def Let_def
      limits_default_def limits_ip_count_def config_default_def adapt_stream_def
      connection_new_def enable_protocols_def enable_protocol_def protocols_default_def
      connections_add_def add_active_def guard_drop_def limits_reserve_def
      split_stream_def canonical_ip_def demo_addr_def fetch_add_def fcard_fempty)

theorem handle_connection_request_refines_witness:
  "\<exists>t. sys_run True nat_sem demo_start t \<and> is_connected (sy_node t) demo_addr \<and> sy_next_id t = 1"
proof -
  from demo_request obtain n where n:
    "handle_connection_request True demo_handlers 0 7 demo_addr 0 (demo_node\<lparr>nd_permits := 99\<rparr>)
      = Some (Inr (), n, 1)" "fmdom (active (nd_connections n)) = {|demo_addr|}" by blast
  have "\<exists>t. sys_run True nat_sem demo_start t \<and> sy_node t = drop_permit nat_sem n \<and> sy_next_id t = 1
      \<and> same_threads t demo_start"
    by (rule handle_connection_request_refines [OF demo_handlers_frame, where k = 0 and j = 0])
      (use n(1) in \<open>simp_all add: demo_start_def nat_sem_def demo_node_def\<close>)
  moreover have "is_connected (drop_permit nat_sem n) demo_addr"
    using n(2) unfolding is_connected_def connections_is_connected_def drop_permit_def
    by (metis fmdom_notI finsertI1 node.select_convs(4) node.surjective node.update_convs(5))
  ultimately show ?thesis by metis
qed

text \<open>C12: \<open>disconnect_w_origin\<close> read as a straight-line function is a schedule of the interleaved
  system as well: the claim, the wait for the \<open>OnDisconnect\<close> hook (whatever it answers) and the
  finalizer are steps of it, and the node it computes is the one that run ends in.\<close>

theorem disconnect_refines:
  assumes "fmlookup (sy_discs s) k = None"
    and "disconnect_w_origin debug hs a origin cid (sy_node s) = Some (b, n', ts)"
  shows "\<exists>t. sys_run debug ops s t \<and> sy_node t = n' \<and> same_threads t s"
  by (rule disconnect_w_origin_run [OF assms])

lemma demo_disconnect:
  "\<exists>n n'. connect_inner True nat_sem demo_handlers 0 (Completed (Inr 7)) demo_addr 0 demo_node
     = Some (Inr (), n, 1) \<and> is_connected n demo_addr
     \<and> disconnect_w_origin True (demo_handlers :: nat handlers) demo_addr OriginUser None n
     = Some (True, n', []) \<and> active (nd_connections n') = fmempty"
  by (simp add: connect_inner_def connect_precheck_def demo_node_def shutdown_default_def
      is_underway_def self_connect_def listening_addr_def connections_is_connected_def
      connections_default_def take_permit_def nat_sem_def check_and_reserve_def Let_def
      limits_default_def limits_ip_count_def config_default_def create_stream_def adapt_stream_def
      connection_new_def enable_protocols_def enable_protocol_def protocols_default_def
      connections_add_def add_active_def guard_drop_def limits_reserve_def drop_permit_def
      split_stream_def canonical_ip_def demo_addr_def fetch_add_def fcard_fempty is_connected_def
      disconnect_w_origin_def claim_disconnect_def finalizer_drop_def
      finalizer_remove_def finalizer_senders_def connections_remove_def limits_release_ip_def
      connection_drop_def)

theorem disconnect_refines_witness:
  "\<exists>n t. is_connected n demo_addr \<and> sys_run True nat_sem (demo_start\<lparr>sy_node := n\<rparr>) t
     \<and> \<not> is_connected (sy_node t) demo_addr"
proof -
  from demo_disconnect obtain n n' where n: "is_connected n demo_addr"
    "disconnect_w_origin True (demo_handlers :: nat handlers) demo_addr OriginUser None n
     = Some (True, n', [])" "active (nd_connections n') = fmempty" by blast
  have "\<exists>t. sys_run True nat_sem (demo_start\<lparr>sy_node := n\<rparr>) t \<and> sy_node t = n'
      \<and> same_threads t (demo_start\<lparr>sy_node := n\<rparr>)"
    by (rule disconnect_refines [where k = 0]) (use n(2) in \<open>simp_all add: demo_start_def\<close>)
  moreover have "\<not> is_connected n' demo_addr"
    using n(3) by (simp add: is_connected_def connections_is_connected_def)
  ultimately show ?thesis using n(1) by blast
qed

end
