(* ===== verification/Topology.thy ===== *)
theory Topology
  imports Contracts
begin

text \<open>
  Connecting a list of nodes in a topology (\<open>pea2pea/src/topology.rs\<close>). The nodes are the
  indices \<open>0..<cnt\<close>. The two \<open>Node\<close> calls made here are arguments: \<open>la j s\<close> is
  \<open>nodes[j].node().listening_addr().await\<close> in the network state \<open>s\<close>, and \<open>cn i addr s\<close> is
  \<open>nodes[i].node().connect(addr).await\<close>, which returns the new network state also when it
  fails. Sizes are unbounded; the attempt counter of the random topology keeps its 64 bits.
\<close>

section \<open>The topologies\<close>

datatype topology =
    Line | Ring | Mesh | Star
  | Grid nat nat
  | Tree
  | Random nat u64

definition num_expected_connections :: "topology \<Rightarrow> nat \<Rightarrow> nat" where
  "num_expected_connections t num_nodes =
     (if num_nodes = 0 then 0
      else case t of
        Line \<Rightarrow> (num_nodes - 1) * 2
      | Ring \<Rightarrow> num_nodes * 2
      | Mesh \<Rightarrow> (num_nodes - 1) * num_nodes
      | Star \<Rightarrow> (num_nodes - 1) * 2
      | Grid width height \<Rightarrow>
          (saturating_sub width 1 * height + width * saturating_sub height 1) * 2
      | Tree \<Rightarrow> (num_nodes - 1) * 2
      | Random degree seed \<Rightarrow> num_nodes * degree * 2)"

section \<open>Sequencing network calls\<close>

text \<open>A call returns its result and the network it leaves; \<open>?\<close> stops at the first error.\<close>

type_synonym 's net_call = "'s \<Rightarrow> unit io_result \<times> 's"

definition net_ok :: "'s net_call" where
  "net_ok s = (Inr (), s)"

definition net_fail :: "error_kind \<Rightarrow> error_payload \<Rightarrow> 's net_call" where
  "net_fail k p s = (Inl (IoError k p), s)"

definition net_then :: "'s net_call \<Rightarrow> 's net_call \<Rightarrow> 's net_call" where
  "net_then f g s = (case f s of (Inl e, s') \<Rightarrow> (Inl e, s') | (Inr _, s') \<Rightarrow> g s')"

primrec net_for :: "'a list \<Rightarrow> ('a \<Rightarrow> 's net_call) \<Rightarrow> 's net_call" where
  "net_for [] f = net_ok"
| "net_for (x # xs) f = net_then (f x) (net_for xs f)"

text \<open>\<open>let addr = nodes[j].node().listening_addr().await?; nodes[i].node().connect(addr).await?;\<close>\<close>

definition dial ::
  "(nat \<Rightarrow> 's \<Rightarrow> socket_addr io_result) \<Rightarrow> (nat \<Rightarrow> socket_addr \<Rightarrow> 's net_call)
     \<Rightarrow> nat \<Rightarrow> nat \<Rightarrow> 's net_call" where
  "dial la cn i j s = (case la j s of Inl e \<Rightarrow> (Inl e, s) | Inr addr \<Rightarrow> cn i addr s)"

section \<open>Random target selection\<close>

text \<open>The mixer: \<open>i + seed + attempt\<close> with wrap-around, times a large odd constant, high bits
  folded into the low ones.\<close>

definition mix_target :: "nat \<Rightarrow> u64 \<Rightarrow> u64 \<Rightarrow> nat \<Rightarrow> nat" where
  "mix_target i seed attempt cnt =
     (let x = (of_nat i + seed + attempt) * 0x517cc1b727220a95;
          x = x XOR drop_bit 32 x
      in unat x mod cnt)"

datatype 'a outcome = Panics | Returns 'a

text \<open>The \<open>while\<close> loop for one node. \<open>None\<close> is a loop that never ends; \<open>Panics\<close> is the overflow of
  the attempt counter in a build with overflow checks (without them it wraps).\<close>

partial_function (option) random_loop ::
  "bool \<Rightarrow> (nat \<Rightarrow> 's \<Rightarrow> socket_addr io_result) \<Rightarrow> (nat \<Rightarrow> socket_addr \<Rightarrow> 's net_call)
     \<Rightarrow> nat \<Rightarrow> nat \<Rightarrow> u64 \<Rightarrow> nat \<Rightarrow> nat set \<Rightarrow> u64 \<Rightarrow> 's
     \<Rightarrow> (unit io_result \<times> 's) outcome option" where
  "random_loop checks la cn cnt degree seed i chosen attempt s =
     (if card chosen < degree then
        if checks \<and> attempt = - 1 then Some Panics
        else
          (let attempt' = attempt + 1; target = mix_target i seed attempt' cnt in
           if target \<noteq> i \<and> target \<notin> chosen then
             (case dial la cn i target s of
                (Inl e, s') \<Rightarrow> Some (Returns (Inl e, s'))
              | (Inr _, s') \<Rightarrow>
                  random_loop checks la cn cnt degree seed i (insert target chosen) attempt' s')
           else random_loop checks la cn cnt degree seed i chosen attempt' s)
      else Some (Returns (Inr (), s)))"

primrec random_nodes ::
  "bool \<Rightarrow> (nat \<Rightarrow> 's \<Rightarrow> socket_addr io_result) \<Rightarrow> (nat \<Rightarrow> socket_addr \<Rightarrow> 's net_call)
     \<Rightarrow> nat \<Rightarrow> nat \<Rightarrow> u64 \<Rightarrow> nat list \<Rightarrow> 's \<Rightarrow> (unit io_result \<times> 's) outcome option" where
  "random_nodes checks la cn cnt degree seed [] s = Some (Returns (Inr (), s))"
| "random_nodes checks la cn cnt degree seed (i # is) s =
     (case random_loop checks la cn cnt degree seed i {} 0 s of
        None \<Rightarrow> None
      | Some Panics \<Rightarrow> Some Panics
      | Some (Returns (Inl e, s')) \<Rightarrow> Some (Returns (Inl e, s'))
      | Some (Returns (Inr _, s')) \<Rightarrow> random_nodes checks la cn cnt degree seed is s')"

section \<open>Connecting the nodes\<close>

definition grid_cell ::
  "(nat \<Rightarrow> 's \<Rightarrow> socket_addr io_result) \<Rightarrow> (nat \<Rightarrow> socket_addr \<Rightarrow> 's net_call)
     \<Rightarrow> nat \<Rightarrow> nat \<Rightarrow> nat \<Rightarrow> nat \<Rightarrow> 's net_call" where
  "grid_cell la cn width height row col =
     (let i = row * width + col in
      net_then
        (if col + 1 < width then dial la cn i (i + 1) else net_ok)
        (if row + 1 < height then dial la cn i (i + width) else net_ok))"

definition tree_node ::
  "(nat \<Rightarrow> 's \<Rightarrow> socket_addr io_result) \<Rightarrow> (nat \<Rightarrow> socket_addr \<Rightarrow> 's net_call)
     \<Rightarrow> nat \<Rightarrow> nat \<Rightarrow> 's net_call" where
  "tree_node la cn cnt i =
     (let left = 2 * i + 1; right = 2 * i + 2 in
      net_then
        (if left < cnt then dial la cn i left else net_ok)
        (if right < cnt then dial la cn i right else net_ok))"

definition connect_nodes ::
  "bool \<Rightarrow> (nat \<Rightarrow> 's \<Rightarrow> socket_addr io_result) \<Rightarrow> (nat \<Rightarrow> socket_addr \<Rightarrow> 's net_call)
     \<Rightarrow> nat \<Rightarrow> topology \<Rightarrow> 's \<Rightarrow> (unit io_result \<times> 's) outcome option" where
  "connect_nodes checks la cn cnt t s =
     (if cnt < 2 then Some (Returns (net_fail InvalidInput NoPayload s))
      else case t of
        Line \<Rightarrow> Some (Returns (net_for [0..<cnt - 1] (\<lambda>i. dial la cn i (i + 1)) s))
      | Ring \<Rightarrow>
          Some (Returns
            (net_then (net_for [0..<cnt - 1] (\<lambda>i. dial la cn i (i + 1)))
               (dial la cn (cnt - 1) 0) s))
      | Mesh \<Rightarrow>
          Some (Returns
            (net_for [0..<cnt] (\<lambda>i. net_for [i + 1..<cnt] (\<lambda>j. dial la cn i j)) s))
      | Star \<Rightarrow>
          Some (Returns
            (case la 0 s of
               Inl e \<Rightarrow> (Inl e, s)
             | Inr hub_addr \<Rightarrow> net_for [1..<cnt] (\<lambda>i. cn i hub_addr) s))
      | Grid width height \<Rightarrow>
          Some (Returns
            (if width * height \<noteq> cnt then net_fail InvalidInput (Message ''grid'') s
             else net_for [0..<height]
               (\<lambda>row. net_for [0..<width] (\<lambda>col. grid_cell la cn width height row col)) s))
      | Tree \<Rightarrow> Some (Returns (net_for [0..<cnt] (tree_node la cn cnt) s))
      | Random degree seed \<Rightarrow>
          if degree \<ge> cnt then Some (Returns (net_fail InvalidInput (Message ''degree'') s))
          else random_nodes checks la cn cnt degree seed [0..<cnt] s)"

section \<open>The dials of a topology\<close>

text \<open>Reference form: a list of directed edges, dialled one after the other.\<close>

definition run_dials ::
  "(nat \<Rightarrow> 's \<Rightarrow> socket_addr io_result) \<Rightarrow> (nat \<Rightarrow> socket_addr \<Rightarrow> 's net_call)
     \<Rightarrow> (nat \<times> nat) list \<Rightarrow> 's net_call" where
  "run_dials la cn es = net_for es (\<lambda>(i, j). dial la cn i j)"

lemma net_then_ok [simp]: "net_then net_ok f = f" "net_then f net_ok = f"
  by (rule ext; simp add: net_then_def net_ok_def split: prod.split sum.split)+

lemma net_then_assoc: "net_then (net_then f g) h = net_then f (net_then g h)"
  by (rule ext) (simp add: net_then_def split: prod.split sum.split)

lemma net_for_append: "net_for (xs @ ys) f = net_then (net_for xs f) (net_for ys f)"
  by (induction xs) (simp_all add: net_then_assoc)

lemma run_dials_Nil [simp]: "run_dials la cn [] = net_ok"
  by (simp add: run_dials_def)

lemma run_dials_Cons: "run_dials la cn ((i, j) # es) = net_then (dial la cn i j) (run_dials la cn es)"
  by (simp add: run_dials_def)

lemma run_dials_append:
  "run_dials la cn (xs @ ys) = net_then (run_dials la cn xs) (run_dials la cn ys)"
  by (simp add: run_dials_def net_for_append)

lemma run_dials_concat:
  "run_dials la cn (concat (map f xs)) = net_for xs (\<lambda>x. run_dials la cn (f x))"
  by (induction xs) (simp_all add: run_dials_append)

lemma run_dials_map: "run_dials la cn (map (\<lambda>x. (f x, g x)) xs) = net_for xs (\<lambda>x. dial la cn (f x) (g x))"
  by (induction xs) (simp_all add: run_dials_Cons)

lemma run_dials_single: "run_dials la cn [(i, j)] = dial la cn i j"
  by (simp add: run_dials_Cons)

definition line_edges :: "nat \<Rightarrow> (nat \<times> nat) list" where
  "line_edges cnt = map (\<lambda>i. (i, i + 1)) [0..<cnt - 1]"

definition mesh_edges :: "nat \<Rightarrow> (nat \<times> nat) list" where
  "mesh_edges cnt = concat (map (\<lambda>i. map (\<lambda>j. (i, j)) [i + 1..<cnt]) [0..<cnt])"

definition star_edges :: "nat \<Rightarrow> (nat \<times> nat) list" where
  "star_edges cnt = map (\<lambda>i. (i, 0)) [1..<cnt]"

definition cell_edges :: "nat \<Rightarrow> nat \<Rightarrow> nat \<Rightarrow> nat \<Rightarrow> (nat \<times> nat) list" where
  "cell_edges width height row col =
     (let i = row * width + col in
      (if col + 1 < width then [(i, i + 1)] else [])
      @ (if row + 1 < height then [(i, i + width)] else []))"

definition grid_edges :: "nat \<Rightarrow> nat \<Rightarrow> (nat \<times> nat) list" where
  "grid_edges width height =
     concat (map (\<lambda>row. concat (map (cell_edges width height row) [0..<width])) [0..<height])"

definition child_edges :: "nat \<Rightarrow> nat \<Rightarrow> (nat \<times> nat) list" where
  "child_edges cnt i =
     (if 2 * i + 1 < cnt then [(i, 2 * i + 1)] else [])
     @ (if 2 * i + 2 < cnt then [(i, 2 * i + 2)] else [])"

definition tree_edges :: "nat \<Rightarrow> (nat \<times> nat) list" where
  "tree_edges cnt = concat (map (child_edges cnt) [0..<cnt])"

subsection \<open>Random targets\<close>

lemma unat_u64_less: "unat (a :: u64) < 2 ^ 64"
  using unsigned_less [of a] by simp

lemma xorshift_inverse:
  "(x XOR drop_bit 32 x) XOR drop_bit 32 (x XOR drop_bit 32 x) = (x :: u64)"
  by (rule bit_word_eqI) (auto simp: bit_simps)

lemma affine_inverse:
  assumes "D * C = (1 :: u64)"
  shows "(w + (x * D - w)) * C = x"
proof -
  have "w + (x * D - w) = x * D" by simp
  then show ?thesis
    using assms by (simp add: mult.assoc)
qed

lemma mixer_onto:
  obtains a :: u64 where
    "(let x = (w + a) * 0x517cc1b727220a95; x = x XOR drop_bit 32 x in x) = y"
proof
  have inv: "(0x2040003d780970bd :: u64) * 0x517cc1b727220a95 = 1"
    by simp
  show "(let x = (w + ((y XOR drop_bit 32 y) * 0x2040003d780970bd - w)) * 0x517cc1b727220a95;
      x = x XOR drop_bit 32 x in x) = y"
    by (simp only: Let_def affine_inverse [OF inv] xorshift_inverse)
qed

text \<open>Every node index is the target of some attempt before the attempt counter overflows.\<close>

lemma mix_target_hits:
  assumes t: "t < cnt" and cnt: "cnt \<le> 2 ^ 63"
  obtains a where "a \<noteq> 0" and "mix_target i seed a cnt = t"
proof -
  define f where "f a = (let x = (of_nat i + seed + a) * 0x517cc1b727220a95;
    x = x XOR drop_bit 32 x in x)" for a :: u64
  have target: "mix_target i seed a cnt = unat (f a) mod cnt" for a
    by (simp add: mix_target_def f_def Let_def)
  obtain a where a: "f a = of_nat t"
    unfolding f_def by (rule mixer_onto)
  obtain b where b: "f b = of_nat (t + cnt)"
    unfolding f_def by (rule mixer_onto)
  have small: "t < 2 ^ 64" "t + cnt < 2 ^ 64"
    using t cnt by simp_all
  have "f a \<noteq> f b"
    using small t of_nat_u64_inj [of t "t + cnt"] by (auto simp: a b simp del: of_nat_add)
  then have "a \<noteq> b"
    by blast
  have "unat (f a) mod cnt = t"
    using small t by (simp add: a unsigned_of_nat take_bit_eq_mod)
  moreover have "unat (f b) mod cnt = t"
    using small t by (simp add: b unsigned_of_nat take_bit_eq_mod del: of_nat_add)
  ultimately show thesis
    using that [of a] that [of b] \<open>a \<noteq> b\<close> by (auto simp: target)
qed

text \<open>While a node still lacks targets, an attempt that brings a new one lies ahead, so the
  attempt counter is not at its maximum.\<close>

lemma random_loop_no_overflow:
  fixes attempt :: u64
  assumes cnt: "cnt \<le> 2 ^ 63" and degree: "degree < cnt"
    and chosen: "chosen \<subseteq> {..<cnt} - {i}" "card chosen < degree"
    and seen: "\<And>a. a \<noteq> 0 \<Longrightarrow> a \<le> attempt \<Longrightarrow> mix_target i seed a cnt \<in> insert i chosen"
  shows "attempt \<noteq> - 1"
proof -
  have "\<not> {..<cnt} - {i} \<subseteq> chosen"
  proof
    assume "{..<cnt} - {i} \<subseteq> chosen"
    moreover have "finite chosen"
      using chosen(1) by (rule finite_subset) simp
    ultimately have "card ({..<cnt} - {i}) \<le> card chosen"
      by (simp add: card_mono)
    moreover have "cnt - 1 \<le> card ({..<cnt} - {i})"
      by (simp add: card_Diff_singleton_if)
    ultimately show False
      using chosen(2) degree by simp
  qed
  then obtain t where t: "t < cnt" "t \<noteq> i" "t \<notin> chosen"
    by auto
  obtain a where "a \<noteq> 0" "mix_target i seed a cnt = t"
    using t(1) cnt by (rule mix_target_hits)
  with seen [of a] t have "attempt < a"
    by (metis insertE not_le)
  then show ?thesis
    by (metis word_order.extremum leD)
qed

lemma word_succ_le:
  fixes a b :: u64
  assumes "a \<noteq> - 1" and "b \<le> a + 1"
  shows "b \<le> a \<or> b = a + 1" and "unat (a + 1) = Suc (unat a)"
proof -
  show up: "unat (a + 1) = Suc (unat a)"
    using assms(1) by (metis eq_neg_iff_add_eq_0 unatSuc add.commute)
  show "b \<le> a \<or> b = a + 1"
    using assms(2) up by (metis le_SucE word_le_nat_alt word_unat_eq_iff)
qed

text \<open>One round of the loop, on a target it takes and on one it skips.\<close>

lemma random_loop_take:
  assumes "card chosen < degree" and "attempt \<noteq> - 1"
    and "t = mix_target i seed (attempt + 1) cnt" and "t \<noteq> i" and "t \<notin> chosen"
    and "\<And>s. random_loop checks la cn cnt degree seed i (insert t chosen) (attempt + 1) s
      = Some (Returns (run_dials la cn (map (Pair i) ts) s))"
  shows "random_loop checks la cn cnt degree seed i chosen attempt s
    = Some (Returns (run_dials la cn (map (Pair i) (t # ts)) s))"
  using assms
  by (subst random_loop.simps)
    (auto simp: run_dials_Cons net_then_def Let_def split: prod.split sum.split)

lemma random_loop_skip:
  assumes "card chosen < degree" and "attempt \<noteq> - 1"
    and "mix_target i seed (attempt + 1) cnt \<in> insert i chosen"
  shows "random_loop checks la cn cnt degree seed i chosen attempt s
    = random_loop checks la cn cnt degree seed i chosen (attempt + 1) s"
  using assms by (subst random_loop.simps) (auto simp: Let_def)

lemma random_loop_dials:
  fixes attempt :: u64
  assumes cnt: "cnt \<le> 2 ^ 63" and degree: "degree < cnt"
    and chosen: "chosen \<subseteq> {..<cnt} - {i}" "card chosen \<le> degree"
    and seen: "\<And>a. a \<noteq> 0 \<Longrightarrow> a \<le> attempt \<Longrightarrow> mix_target i seed a cnt \<in> insert i chosen"
  shows "\<exists>ts. length ts = degree - card chosen \<and> distinct ts \<and> set ts \<inter> chosen = {}
    \<and> set ts \<subseteq> {..<cnt} - {i}
    \<and> (\<forall>la cn (s :: 's). random_loop checks la cn cnt degree seed i chosen attempt s
         = Some (Returns (run_dials la cn (map (Pair i) ts) s)))"
  using chosen seen
proof (induction "2 ^ 64 - unat attempt" arbitrary: chosen attempt rule: less_induct)
  case less
  show ?case
  proof (cases "card chosen < degree")
    case False
    with less.prems(2) show ?thesis
      by (intro exI [of _ "[]"]) (simp add: random_loop.simps net_ok_def)
  next
    case True
    have no_ovf: "attempt \<noteq> - 1"
      by (rule random_loop_no_overflow [OF cnt degree less.prems(1) True])
        (rule less.prems(3), assumption+)
    have lt: "2 ^ 64 - unat (attempt + 1) < (2 :: nat) ^ 64 - unat attempt"
      using word_succ_le(2) [OF no_ovf order_refl] unat_u64_less [of attempt] by simp
    define t where "t = mix_target i seed (attempt + 1) cnt"
    have "t < cnt"
      using degree by (simp add: t_def mix_target_def Let_def)
    have seen': "mix_target i seed b cnt \<in> insert i (insert t chosen)"
      if "b \<noteq> 0" "b \<le> attempt + 1" for b
      using word_succ_le(1) [OF no_ovf that(2)] less.prems(3) [OF that(1)] by (auto simp: t_def)
    show ?thesis
    proof (cases "t \<in> insert i chosen")
      case False
      have "finite chosen"
        using less.prems(1) by (rule finite_subset) simp
      with False have card: "card (insert t chosen) = Suc (card chosen)"
        by simp
      have "insert t chosen \<subseteq> {..<cnt} - {i}" "card (insert t chosen) \<le> degree"
        using less.prems(1) False \<open>t < cnt\<close> card True by auto
      from less.hyps [OF lt this seen'] obtain ts where
        ts: "length ts = degree - card (insert t chosen)" "distinct ts"
        "set ts \<inter> insert t chosen = {}" "set ts \<subseteq> {..<cnt} - {i}"
        and run: "\<forall>la cn (s :: 's). random_loop checks la cn cnt degree seed i (insert t chosen)
          (attempt + 1) s = Some (Returns (run_dials la cn (map (Pair i) ts) s))"
        by blast
      have "\<forall>la cn (s :: 's). random_loop checks la cn cnt degree seed i chosen attempt s
          = Some (Returns (run_dials la cn (map (Pair i) (t # ts)) s))"
        using False run by (intro allI random_loop_take [OF True no_ovf t_def]) auto
      with ts card True False \<open>t < cnt\<close> show ?thesis
        by (intro exI [of _ "t # ts"]) auto
    next
      case True': True
      have "mix_target i seed b cnt \<in> insert i chosen" if "b \<noteq> 0" "b \<le> attempt + 1" for b
        using seen' [OF that] True' by auto
      note IH = less.hyps [OF lt less.prems(1,2) this]
      have "random_loop checks la cn cnt degree seed i chosen attempt s
          = random_loop checks la cn cnt degree seed i chosen (attempt + 1) s" for la cn and s :: 's
        using True True' no_ovf by (intro random_loop_skip) (auto simp: t_def)
      with IH show ?thesis by simp
    qed
  qed
qed

subsection \<open>Shape of the edge lists\<close>

text \<open>A list of edges over \<open>cnt\<close> nodes: in range, no self-connection, no edge twice.\<close>

definition edges_ok :: "nat \<Rightarrow> (nat \<times> nat) list \<Rightarrow> bool" where
  "edges_ok cnt es \<longleftrightarrow> distinct es \<and> (\<forall>(i, j) \<in> set es. i < cnt \<and> j < cnt \<and> i \<noteq> j)"

lemma distinct_concat_tagged:
  assumes "distinct xs" and "\<And>x. x \<in> set xs \<Longrightarrow> distinct (f x)"
    and "\<And>x p. x \<in> set xs \<Longrightarrow> p \<in> set (f x) \<Longrightarrow> tag p = x"
  shows "distinct (concat (map f xs))"
  using assms
proof (induction xs)
  case (Cons x xs)
  have "p \<notin> set (f y)" if "p \<in> set (f x)" "y \<in> set xs" for p y
    using Cons.prems(1) Cons.prems(3) [of x p] Cons.prems(3) [of y p] that by auto
  then have "set (f x) \<inter> (\<Union>y\<in>set xs. set (f y)) = {}"
    by auto
  with Cons show ?case by simp
qed simp

lemma length_concat_upt:
  "length (concat (map f [0..<n])) = (\<Sum>i<n. length (f i))"
  by (simp add: length_concat comp_def interv_sum_list_conv_sum_set_nat lessThan_atLeast0)

lemma line_edges_ok: "edges_ok cnt (line_edges cnt)"
  by (auto simp: edges_ok_def line_edges_def distinct_map inj_on_def)

lemma length_line_edges: "length (line_edges cnt) = cnt - 1"
  by (simp add: line_edges_def)

lemma ring_edges_ok: "2 \<le> cnt \<Longrightarrow> edges_ok cnt (line_edges cnt @ [(cnt - 1, 0)])"
  using line_edges_ok [of cnt] by (auto simp: edges_ok_def) (auto simp: line_edges_def)

lemma star_edges_ok: "edges_ok cnt (star_edges cnt)"
  by (auto simp: edges_ok_def star_edges_def distinct_map inj_on_def)

lemma length_star_edges: "length (star_edges cnt) = cnt - 1"
  by (simp add: star_edges_def)

lemma mesh_edges_ok: "edges_ok cnt (mesh_edges cnt)"
  unfolding edges_ok_def
proof
  show "distinct (mesh_edges cnt)"
    unfolding mesh_edges_def
    by (rule distinct_concat_tagged [where tag = fst]) (auto simp: distinct_map inj_on_def)
qed (auto simp: mesh_edges_def)

lemma length_mesh_edges: "length (mesh_edges cnt) * 2 = (cnt - 1) * cnt"
proof -
  have "length (mesh_edges cnt) = (\<Sum>i<cnt. cnt - Suc i)"
    by (simp add: mesh_edges_def length_concat_upt)
  also have "\<dots> = (\<Sum>i<cnt. i)"
    by (rule sum.nat_diff_reindex)
  finally show ?thesis
    by (cases cnt) (simp_all add: gauss_sum_nat lessThan_Suc_atMost atLeast0AtMost [symmetric])
qed

lemma upt_append_le: "i \<le> j \<Longrightarrow> j \<le> k \<Longrightarrow> [i..<j] @ [j..<k] = [i..<k]"
  by (metis le_Suc_ex upt_add_eq_append)

lemma map_snd_tree_edges: "map snd (tree_edges cnt) = [1..<cnt]"
proof -
  have "map snd (concat (map (child_edges cnt) [0..<m])) = [1..<min cnt (2 * m + 1)]" for m
  proof (induction m)
    case (Suc m)
    have "map snd (child_edges cnt m) = [min cnt (2 * m + 1)..<min cnt (2 * m + 3)]"
      by (auto simp: child_edges_def upt_rec min_def)
    moreover have "[1..<min cnt (2 * m + 1)] @ [min cnt (2 * m + 1)..<min cnt (2 * m + 3)]
        = [1..<min cnt (2 * m + 3)]"
      by (cases "cnt = 0") (simp, rule upt_append_le, simp_all)
    ultimately show ?case
      using Suc by (simp add: eval_nat_numeral)
  qed (cases cnt; simp)
  from this [of cnt] show ?thesis
    by (simp add: tree_edges_def)
qed

lemma length_tree_edges: "length (tree_edges cnt) = cnt - 1"
  using arg_cong [OF map_snd_tree_edges, of length cnt] by simp

lemma tree_edges_ok: "edges_ok cnt (tree_edges cnt)"
  unfolding edges_ok_def
proof
  show "distinct (tree_edges cnt)"
    using map_snd_tree_edges [of cnt] by (metis distinct_map distinct_upt)
qed (auto simp: tree_edges_def child_edges_def split: if_splits)

lemma grid_row_edges:
  assumes "row < height"
  shows "distinct (concat (map (cell_edges width height row) [0..<width]))"
    and "p \<in> set (concat (map (cell_edges width height row) [0..<width])) \<Longrightarrow> fst p div width = row"
proof -
  show "distinct (concat (map (cell_edges width height row) [0..<width]))"
    by (rule distinct_concat_tagged [where tag = "\<lambda>p. fst p mod width"])
      (auto simp: cell_edges_def Let_def split: if_splits)
  show "p \<in> set (concat (map (cell_edges width height row) [0..<width])) \<Longrightarrow> fst p div width = row"
    by (auto simp: cell_edges_def Let_def split: if_splits)
qed

lemma grid_index_bound:
  assumes "row < height" and "col < (width :: nat)"
  shows "row * width + col < width * height"
proof -
  have "row * width + col < Suc row * width"
    using assms(2) by simp
  also have "\<dots> \<le> height * width"
    using assms(1) by (intro mult_right_mono) auto
  finally show ?thesis
    by (simp add: mult.commute)
qed

lemma cell_edges_range:
  assumes "row < height" and "col < width" and "(i, j) \<in> set (cell_edges width height row col)"
  shows "i < width * height \<and> j < width * height \<and> i \<noteq> j"
  using assms grid_index_bound [of row height col width] grid_index_bound [of row height "Suc col" width]
    grid_index_bound [of "Suc row" height col width]
  by (auto simp: cell_edges_def Let_def algebra_simps split: if_splits)

lemma grid_edges_ok: "edges_ok (width * height) (grid_edges width height)"
  unfolding edges_ok_def
proof
  show "distinct (grid_edges width height)"
    unfolding grid_edges_def
    by (rule distinct_concat_tagged [where tag = "\<lambda>p. fst p div width"])
      (auto intro: grid_row_edges(1) simp del: set_concat map_map dest: grid_row_edges(2))
  show "\<forall>(i, j) \<in> set (grid_edges width height). i < width * height \<and> j < width * height \<and> i \<noteq> j"
    using cell_edges_range by (fastforce simp: grid_edges_def)
qed

lemma sum_guard_pred: "(\<Sum>i<n. if Suc i < n then (c :: nat) else 0) = (n - 1) * c"
proof (cases n)
  case (Suc m)
  have "(\<Sum>i<Suc m. if Suc i < Suc m then c else 0) = (\<Sum>i<m. c)"
    by (simp add: sum.If_cases)
  with Suc show ?thesis by simp
qed simp

lemma length_grid_edges:
  "length (grid_edges width height) = (width - 1) * height + width * (height - 1)"
proof -
  have "length (cell_edges width height row col)
      = (if Suc col < width then 1 else 0) + (if Suc row < height then 1 else 0)" for row col
    by (simp add: cell_edges_def Let_def)
  then have "(\<Sum>col<width. length (cell_edges width height row col))
      = (width - 1) + (if Suc row < height then width else 0)" for row
    by (simp only: sum.distrib sum_guard_pred sum_constant card_lessThan) simp
  then have "length (grid_edges width height)
      = (\<Sum>row<height. (width - 1) + (if Suc row < height then width else 0))"
    by (simp only: grid_edges_def length_concat_upt)
  also have "\<dots> = (width - 1) * height + width * (height - 1)"
    by (simp only: sum.distrib sum_guard_pred sum_constant card_lessThan) (simp add: mult.commute)
  finally show ?thesis .
qed

subsection \<open>The loops dial the edges\<close>

lemma random_node_dials:
  assumes "cnt \<le> 2 ^ 63" and "degree < cnt"
  obtains ts where "length ts = degree" and "distinct ts" and "set ts \<subseteq> {..<cnt} - {i}"
    and "\<And>la cn (s :: 's). random_loop checks la cn cnt degree seed i {} 0 s
      = Some (Returns (run_dials la cn (map (Pair i) ts) s))"
proof -
  have "\<exists>ts. length ts = degree - card ({} :: nat set) \<and> distinct ts \<and> set ts \<inter> {} = {}
    \<and> set ts \<subseteq> {..<cnt} - {i}
    \<and> (\<forall>la cn (s :: 's). random_loop checks la cn cnt degree seed i {} 0 s
         = Some (Returns (run_dials la cn (map (Pair i) ts) s)))"
    by (rule random_loop_dials [OF assms]) auto
  then show thesis
    using that by auto
qed

lemma random_nodes_dials:
  assumes "cnt \<le> 2 ^ 63" and "degree < cnt"
  shows "distinct is \<Longrightarrow> set is \<subseteq> {..<cnt} \<Longrightarrow>
    \<exists>es. edges_ok cnt es \<and> length es = length is * degree \<and> fst ` set es \<subseteq> set is
      \<and> (\<forall>la cn (s :: 's). random_nodes checks la cn cnt degree seed is s
           = Some (Returns (run_dials la cn es s)))"
proof (induction "is")
  case Nil
  show ?case
    by (intro exI [of _ "[]"]) (simp add: edges_ok_def net_ok_def)
next
  case (Cons i "is")
  then obtain es where es: "edges_ok cnt es" "length es = length is * degree"
    "fst ` set es \<subseteq> set is"
    and run: "\<And>la cn (s :: 's). random_nodes checks la cn cnt degree seed is s
      = Some (Returns (run_dials la cn es s))"
    by auto
  obtain ts where ts: "length ts = degree" "distinct ts" "set ts \<subseteq> {..<cnt} - {i}"
    and loop: "\<And>la cn (s :: 's). random_loop checks la cn cnt degree seed i {} 0 s
      = Some (Returns (run_dials la cn (map (Pair i) ts) s))"
    using random_node_dials [OF assms, of i checks seed thesis] by blast
  have "i \<notin> fst ` set es"
    using es(3) Cons.prems(1) by auto
  then have "set (map (Pair i) ts) \<inter> set es = {}"
    by force
  with es ts Cons.prems have "edges_ok cnt (map (Pair i) ts @ es)"
    by (auto simp: edges_ok_def distinct_map inj_on_def)
  moreover have "random_nodes checks la cn cnt degree seed (i # is) s
      = Some (Returns (run_dials la cn (map (Pair i) ts @ es) s))" for la cn and s :: 's
    by (auto simp: loop run run_dials_append net_then_def split: prod.split sum.split)
  ultimately show ?case
    using es ts by (intro exI [of _ "map (Pair i) ts @ es"]) auto
qed

text \<open>Connecting does not change the listening addresses.\<close>

definition listening_stable ::
  "(nat \<Rightarrow> 's \<Rightarrow> socket_addr io_result) \<Rightarrow> (nat \<Rightarrow> socket_addr \<Rightarrow> 's net_call) \<Rightarrow> bool" where
  "listening_stable la cn \<longleftrightarrow> (\<forall>j i a s. la j (snd (cn i a s)) = la j s)"

lemma star_dials:
  assumes "listening_stable la cn" and "la 0 s = Inr hub"
  shows "net_for is (\<lambda>i. cn i hub) s = run_dials la cn (map (\<lambda>i. (i, 0)) is) s"
  using assms(2)
proof (induction "is" arbitrary: s)
  case (Cons i "is")
  have "la 0 (snd (cn i hub s)) = Inr hub"
    using assms(1) Cons.prems by (simp add: listening_stable_def)
  with Cons show ?case
    by (auto simp: run_dials_Cons net_then_def dial_def split: prod.split sum.split)
qed simp

text \<open>The parameters \<open>connect_nodes\<close> accepts.\<close>

fun topology_valid :: "topology \<Rightarrow> nat \<Rightarrow> bool" where
  "topology_valid (Grid width height) cnt \<longleftrightarrow> width * height = cnt"
| "topology_valid (Random degree _) cnt \<longleftrightarrow> degree < cnt"
| "topology_valid _ _ \<longleftrightarrow> True"

fun fixed_edges :: "topology \<Rightarrow> nat \<Rightarrow> (nat \<times> nat) list" where
  "fixed_edges Line cnt = line_edges cnt"
| "fixed_edges Ring cnt = line_edges cnt @ [(cnt - 1, 0)]"
| "fixed_edges Mesh cnt = mesh_edges cnt"
| "fixed_edges Star cnt = star_edges cnt"
| "fixed_edges (Grid width height) cnt = grid_edges width height"
| "fixed_edges Tree cnt = tree_edges cnt"
| "fixed_edges (Random _ _) cnt = []"

lemma cell_edges_dials: "run_dials la cn (cell_edges w h r c) = grid_cell la cn w h r c"
  by (simp add: cell_edges_def grid_cell_def Let_def run_dials_append run_dials_single)

lemma child_edges_dials: "run_dials la cn (child_edges cnt i) = tree_node la cn cnt i"
  by (simp add: child_edges_def tree_node_def Let_def run_dials_append run_dials_single)

lemma fixed_edges_ok:
  assumes "2 \<le> cnt" and "topology_valid t cnt"
  shows "edges_ok cnt (fixed_edges t cnt)"
proof (cases t)
  case (Grid width height)
  with assms show ?thesis
    using grid_edges_ok [of width height] by simp
next
  case (Random d seed)
  then show ?thesis by (simp add: edges_ok_def)
qed (use assms in \<open>simp_all add: line_edges_ok ring_edges_ok [simplified] mesh_edges_ok star_edges_ok
    tree_edges_ok\<close>)

lemma length_fixed_edges:
  assumes "2 \<le> cnt" and "topology_valid t cnt" and "\<nexists>d s. t = Random d s"
  shows "length (fixed_edges t cnt) * 2 = num_expected_connections t cnt"
  using assms
  by (cases t) (simp_all add: num_expected_connections_def length_line_edges length_mesh_edges
      length_star_edges length_tree_edges length_grid_edges)

lemma fixed_edges_dials:
  assumes "2 \<le> cnt" and "topology_valid t cnt" and "\<nexists>d s. t = Random d s"
    and "listening_stable la cn"
  shows "connect_nodes checks la cn cnt t s = Some (Returns (run_dials la cn (fixed_edges t cnt) s))"
proof (cases t)
  case Star
  show ?thesis
  proof (cases "la 0 s")
    case (Inl e)
    have "[1..<cnt] = 1 # [2..<cnt]"
      using assms(1) by (simp add: upt_conv_Cons numeral_2_eq_2)
    with assms Star Inl show ?thesis
      by (simp add: connect_nodes_def star_edges_def run_dials_Cons net_then_def dial_def)
  next
    case (Inr hub)
    with assms Star show ?thesis
      by (simp add: connect_nodes_def star_edges_def star_dials)
  qed
next
  case (Random d seed)
  with assms(3) show ?thesis by blast
next
  case Line
  with assms(1) show ?thesis
    by (simp add: connect_nodes_def line_edges_def run_dials_map)
next
  case Ring
  with assms(1) show ?thesis
    by (simp add: connect_nodes_def line_edges_def run_dials_map run_dials_append run_dials_single)
next
  case Mesh
  with assms(1) show ?thesis
    by (simp add: connect_nodes_def mesh_edges_def run_dials_map run_dials_concat)
next
  case (Grid width height)
  with assms(1,2) show ?thesis
    by (simp add: connect_nodes_def grid_edges_def run_dials_concat cell_edges_dials)
next
  case Tree
  with assms(1) show ?thesis
    by (simp add: connect_nodes_def tree_edges_def run_dials_concat child_edges_dials)
qed

lemma connect_nodes_dials:
  assumes "2 \<le> cnt" and "cnt \<le> 2 ^ 63" and "topology_valid t cnt"
  shows "\<exists>es. edges_ok cnt es \<and> length es * 2 = num_expected_connections t cnt
    \<and> (\<forall>la cn (s :: 's). listening_stable la cn \<longrightarrow>
         connect_nodes checks la cn cnt t s = Some (Returns (run_dials la cn es s)))"
proof (cases "\<exists>d seed. t = Random d seed")
  case True
  then obtain d seed where t: "t = Random d seed"
    by blast
  with assms have "d < cnt" by simp
  then obtain es where es: "edges_ok cnt es" "length es = cnt * d"
    "\<And>la cn (s :: 's). random_nodes checks la cn cnt d seed [0..<cnt] s
      = Some (Returns (run_dials la cn es s))"
    using random_nodes_dials [OF assms(2) \<open>d < cnt\<close>, of "[0..<cnt]" checks seed]
    by (auto simp: atLeast0LessThan)
  with assms t \<open>d < cnt\<close> show ?thesis
    by (intro exI [of _ es]) (simp add: connect_nodes_def num_expected_connections_def)
next
  case False
  then have "connect_nodes checks la cn cnt t s = Some (Returns (run_dials la cn (fixed_edges t cnt) s))"
    if "listening_stable la cn" for la cn and s :: 's
    using assms(1,3) that by (intro fixed_edges_dials) simp_all
  with False fixed_edges_ok [OF assms(1,3)] length_fixed_edges [OF assms(1,3)] show ?thesis
    by (intro exI [of _ "fixed_edges t cnt"]) simp
qed

lemma connect_nodes_rejects:
  assumes "cnt < 2 \<or> \<not> topology_valid t cnt"
  shows "\<exists>p. connect_nodes checks la cn cnt t s = Some (Returns (Inl (IoError InvalidInput p), s))"
  using assms by (cases t) (auto simp: connect_nodes_def net_fail_def)

section \<open>Properties\<close>


text \<open>A network that only records who dialled whom, on which the dials are observed.\<close>

definition log_listening :: "nat \<Rightarrow> (nat \<times> socket_addr) list \<Rightarrow> socket_addr io_result" where
  "log_listening j s = Inr (SockV4 0x7F000001 (of_nat j))"

definition log_connect :: "nat \<Rightarrow> socket_addr \<Rightarrow> (nat \<times> socket_addr) list net_call" where
  "log_connect i addr s = (Inr (), s @ [(i, addr)])"

lemma log_stable: "listening_stable log_listening log_connect"
  by (simp add: listening_stable_def log_listening_def)

lemma run_dials_log:
  "run_dials log_listening log_connect es s
     = (Inr (), s @ map (\<lambda>(i, j). (i, SockV4 0x7F000001 (of_nat j))) es)"
proof (induction es arbitrary: s)
  case (Cons e es)
  obtain i j where "e = (i, j)" by fastforce
  with Cons show ?case
    by (simp add: run_dials_Cons net_then_def dial_def log_listening_def log_connect_def)
qed (simp add: net_ok_def)


end
