(* ===== verification/Drain.thy ===== *)
theory Drain
  imports Contracts
begin

text \<open>
  The wait loop \<open>wait_for_drain\<close> of \<open>pea2pea/src/node.rs\<close>, with which \<open>shut_down\<close> waits for the last
  connection (\<open>Connections::remove\<close> notifies on every removal) and for the last scheduling task
  (\<open>ShutdownState::sched_finished\<close> notifies when the count drops to zero). What is relied on of
  \<open>tokio::sync::Notify\<close>: a waiter that was enabled is woken by every later \<open>notify_waiters\<close> call,
  and by no earlier one. The waiter, the tasks that take entries away and the tasks that add them
  are interleaved; taking an entry away and notifying are two steps, since nothing in the source
  makes them one.
\<close>

text \<open>Where the waiter is: before registering, registered (with the number of notifications made
  until then), waiting, or through.\<close>

datatype wait_pc = Registering | Enabled nat | Awaiting nat | Drained

record drain =
  dr_left :: nat
  dr_owed :: nat
  dr_notified :: nat
  dr_pc :: wait_pc

text \<open>One turn of the waiter; \<open>None\<close> while it sleeps.\<close>

fun wait_for_drain :: "wait_pc \<Rightarrow> nat \<Rightarrow> nat \<Rightarrow> wait_pc option" where
  "wait_for_drain Registering left notified = Some (Enabled notified)"
| "wait_for_drain (Enabled k) left notified = Some (if left = 0 then Drained else Awaiting k)"
| "wait_for_drain (Awaiting k) left notified = (if k < notified then Some Registering else None)"
| "wait_for_drain Drained left notified = None"

text \<open>\<open>each\<close>: whether every removal notifies, or only the one that leaves nothing.\<close>

inductive drain_step :: "bool \<Rightarrow> drain \<Rightarrow> drain \<Rightarrow> bool" for each :: bool where
  waiter: "wait_for_drain (dr_pc d) (dr_left d) (dr_notified d) = Some pc
     \<Longrightarrow> drain_step each d (d\<lparr>dr_pc := pc\<rparr>)"
| taken: "dr_left d = Suc m
     \<Longrightarrow> drain_step each d
       (d\<lparr>dr_left := m, dr_owed := dr_owed d + (if each \<or> m = 0 then 1 else 0)\<rparr>)"
| notified: "dr_owed d = Suc m
     \<Longrightarrow> drain_step each d (d\<lparr>dr_owed := m, dr_notified := dr_notified d + 1\<rparr>)"
| added: "drain_step each d (d\<lparr>dr_left := dr_left d + 1\<rparr>)"

definition drain_start :: "drain \<Rightarrow> bool" where
  "drain_start d \<longleftrightarrow> dr_owed d = 0 \<and> dr_notified d = 0 \<and> dr_pc d = Registering"

text \<open>A sleeping waiter has an entry left to wait for, or a notification coming, or was already
  woken.\<close>

definition wake_coming :: "drain \<Rightarrow> bool" where
  "wake_coming d \<longleftrightarrow> (case dr_pc d of
     Awaiting k \<Rightarrow> k \<le> dr_notified d \<and> (0 < dr_left d \<or> 0 < dr_owed d \<or> k < dr_notified d)
   | Enabled k \<Rightarrow> k \<le> dr_notified d
   | _ \<Rightarrow> True)"

lemma wake_coming_step: "drain_step each d e \<Longrightarrow> wake_coming d \<Longrightarrow> wake_coming e"
proof (induction rule: drain_step.induct)
  case (waiter d pc)
  then show ?case by (cases "dr_pc d") (auto simp: wake_coming_def split: if_splits)
next
  case (taken d m)
  then show ?case by (cases "dr_pc d") (auto simp: wake_coming_def)
next
  case (notified d m)
  then show ?case by (cases "dr_pc d") (auto simp: wake_coming_def)
next
  case (added d)
  then show ?case by (cases "dr_pc d") (auto simp: wake_coming_def)
qed

interpretation drain_sys: invariant_system drain_start "drain_step each" wake_coming
proof unfold_locales
  show "wake_coming s" if "drain_start s" for s
    using that by (simp add: drain_start_def wake_coming_def)
qed (rule wake_coming_step)

lemma waiter_run:
  assumes "wait_for_drain (dr_pc d) (dr_left d) (dr_notified d) = Some pc"
    and "(drain_step each)\<^sup>*\<^sup>* (d\<lparr>dr_pc := pc\<rparr>) e"
  shows "(drain_step each)\<^sup>*\<^sup>* d e"
  using drain_step.waiter [OF assms(1), of each] assms(2) by (meson converse_rtranclp_into_rtranclp)

text \<open>C23: No wakeup is lost: however the removals, their notifications and additions interleave
  with the waiter's registration and check, once nothing is left and the notifications owed for it
  have been made, the waiter can run to its end by itself.\<close>

theorem no_lost_wakeup:
  assumes "drain_start s" and "(drain_step each)\<^sup>*\<^sup>* s d" and "dr_left d = 0" and "dr_owed d = 0"
  shows "(drain_step each)\<^sup>*\<^sup>* d (d\<lparr>dr_pc := Drained\<rparr>)"
proof -
  have inv: "wake_coming d"
    by (rule drain_sys.inv_reachable [OF assms(1,2)])
  have done_: "(drain_step each)\<^sup>*\<^sup>* (d\<lparr>dr_pc := Enabled k\<rparr>) (d\<lparr>dr_pc := Drained\<rparr>)" for k
    by (rule waiter_run [where pc = Drained]) (simp_all add: assms(3))
  have reg: "(drain_step each)\<^sup>*\<^sup>* (d\<lparr>dr_pc := Registering\<rparr>) (d\<lparr>dr_pc := Drained\<rparr>)"
    by (rule waiter_run [where pc = "Enabled (dr_notified d)"]) (simp_all add: done_)
  have self: "d = d\<lparr>dr_pc := dr_pc d\<rparr>" by simp
  show ?thesis
  proof (cases "dr_pc d")
    case (Awaiting k)
    with inv assms(3,4) have "wait_for_drain (dr_pc d) (dr_left d) (dr_notified d) = Some Registering"
      by (simp add: wake_coming_def)
    then show ?thesis by (rule waiter_run [OF _ reg])
  qed (use reg done_ self in \<open>metis rtranclp.rtrancl_refl\<close>)+
qed

theorem no_lost_wakeup_witness:
  "\<exists>d. (drain_step False)\<^sup>*\<^sup>* \<lparr>dr_left = 1, dr_owed = 0, dr_notified = 0, dr_pc = Registering\<rparr> d
     \<and> dr_pc d = Awaiting 0 \<and> dr_left d = 0 \<and> (drain_step False)\<^sup>*\<^sup>* d (d\<lparr>dr_pc := Drained\<rparr>)"
proof -
  let ?d = "\<lambda>l ow k pc. \<lparr>dr_left = l, dr_owed = ow, dr_notified = k, dr_pc = pc\<rparr>"
  have 1: "drain_step False (?d 1 0 0 Registering) (?d 1 0 0 (Enabled 0))"
    using waiter [of "?d 1 0 0 Registering" "Enabled 0" False] by simp
  have 2: "drain_step False (?d 1 0 0 (Enabled 0)) (?d 1 0 0 (Awaiting 0))"
    using waiter [of "?d 1 0 0 (Enabled 0)" "Awaiting 0" False] by simp
  have 3: "drain_step False (?d 1 0 0 (Awaiting 0)) (?d 0 1 0 (Awaiting 0))"
    using taken [of "?d 1 0 0 (Awaiting 0)" 0 False] by simp
  have 4: "drain_step False (?d 0 1 0 (Awaiting 0)) (?d 0 0 1 (Awaiting 0))"
    using notified [of "?d 0 1 0 (Awaiting 0)" 0 False] by simp
  have run: "(drain_step False)\<^sup>*\<^sup>* (?d 1 0 0 Registering) (?d 0 0 1 (Awaiting 0))"
    using 1 2 3 4 by (meson rtranclp.rtrancl_into_rtrancl rtranclp.rtrancl_refl)
  from no_lost_wakeup [OF _ run] run show ?thesis
    by (intro exI [of _ "?d 0 0 1 (Awaiting 0)"]) (simp add: drain_start_def)
qed

end
