(* ===== verification/Protocols.thy ===== *)
theory Protocols
  imports Node
begin

text \<open>
  What the protocols share (\<open>pea2pea/src/protocols/mod.rs\<close>): the handler loops that serve the
  requests of the node until its shutdown, the wait for a handler's response, the installation of
  a handler, the guard that disconnects a peer when its task ends, and the conversion of panics.

  The bounded channels of \<open>tokio::sync::mpsc\<close> are an argument (\<open>chan_ops\<close>); what the code relies on
  is \<open>channel_contract\<close>, stated on a view of the channel. The handler loops are interleaved with the
  tasks that send to them, with the tasks they spawned and with the shutdown signal.
\<close>

section \<open>Bounded channels\<close>

datatype try_send_error = ChFull | ChClosed

record ('m, 'ch) chan_ops =
  ch_new :: "nat \<Rightarrow> 'ch"
  ch_try_send :: "'m \<Rightarrow> 'ch \<Rightarrow> try_send_error + 'ch"
  ch_recv :: "'ch \<Rightarrow> ('m option \<times> 'ch) option"
  ch_close :: "'ch \<Rightarrow> 'ch"
  ch_drop_tx :: "'ch \<Rightarrow> 'ch"

text \<open>The view: capacity, queued messages, whether the receiving half is closed (or gone), and
  whether a sender is left. \<open>ch_recv\<close> is \<open>None\<close> while there is nothing to receive.\<close>

record 'm chan_view =
  cv_cap :: nat
  cv_queue :: "'m list"
  cv_closed :: bool
  cv_tx :: bool

definition channel_contract :: "('m, 'ch) chan_ops \<Rightarrow> ('ch \<Rightarrow> 'm chan_view) \<Rightarrow> bool" where
  "channel_contract ops view \<longleftrightarrow>
     (\<forall>n. view (ch_new ops n) = \<lparr>cv_cap = n, cv_queue = [], cv_closed = False, cv_tx = True\<rparr>)
     \<and> (\<forall>m c. case ch_try_send ops m c of
          Inl ChClosed \<Rightarrow> cv_closed (view c)
        | Inl ChFull \<Rightarrow> \<not> cv_closed (view c) \<and> cv_cap (view c) \<le> length (cv_queue (view c))
        | Inr c' \<Rightarrow> \<not> cv_closed (view c) \<and> length (cv_queue (view c)) < cv_cap (view c)
            \<and> view c' = (view c)\<lparr>cv_queue := cv_queue (view c) @ [m]\<rparr>)
     \<and> (\<forall>c. case ch_recv ops c of
          None \<Rightarrow> cv_queue (view c) = [] \<and> \<not> cv_closed (view c) \<and> cv_tx (view c)
        | Some (None, c') \<Rightarrow> cv_queue (view c) = [] \<and> (cv_closed (view c) \<or> \<not> cv_tx (view c))
            \<and> view c' = view c
        | Some (Some m, c') \<Rightarrow> (\<exists>ms. cv_queue (view c) = m # ms
            \<and> view c' = (view c)\<lparr>cv_queue := ms\<rparr>))
     \<and> (\<forall>c. view (ch_close ops c) = (view c)\<lparr>cv_closed := True\<rparr>)
     \<and> (\<forall>c. view (ch_drop_tx ops c) = (view c)\<lparr>cv_tx := False\<rparr>)"

lemma channel_new:
  "channel_contract ops view
     \<Longrightarrow> view (ch_new ops n) = \<lparr>cv_cap = n, cv_queue = [], cv_closed = False, cv_tx = True\<rparr>"
  unfolding channel_contract_def by blast

lemma channel_send:
  assumes "channel_contract ops view" and "ch_try_send ops m c = Inr c'"
  shows "\<not> cv_closed (view c)" and "length (cv_queue (view c)) < cv_cap (view c)"
    and "view c' = (view c)\<lparr>cv_queue := cv_queue (view c) @ [m]\<rparr>"
proof -
  have "case ch_try_send ops m c of
      Inl ChClosed \<Rightarrow> cv_closed (view c)
    | Inl ChFull \<Rightarrow> \<not> cv_closed (view c) \<and> cv_cap (view c) \<le> length (cv_queue (view c))
    | Inr c' \<Rightarrow> \<not> cv_closed (view c) \<and> length (cv_queue (view c)) < cv_cap (view c)
        \<and> view c' = (view c)\<lparr>cv_queue := cv_queue (view c) @ [m]\<rparr>"
    using assms(1) unfolding channel_contract_def by blast
  with assms(2) show "\<not> cv_closed (view c)" "length (cv_queue (view c)) < cv_cap (view c)"
    "view c' = (view c)\<lparr>cv_queue := cv_queue (view c) @ [m]\<rparr>"
    by simp_all
qed

lemma channel_send_error:
  assumes "channel_contract ops view" and "ch_try_send ops m c = Inl e"
  shows "e = ChClosed \<longleftrightarrow> cv_closed (view c)"
    and "e = ChFull \<Longrightarrow> cv_cap (view c) \<le> length (cv_queue (view c))"
proof -
  have *: "case ch_try_send ops m c of
      Inl ChClosed \<Rightarrow> cv_closed (view c)
    | Inl ChFull \<Rightarrow> \<not> cv_closed (view c) \<and> cv_cap (view c) \<le> length (cv_queue (view c))
    | Inr c' \<Rightarrow> \<not> cv_closed (view c) \<and> length (cv_queue (view c)) < cv_cap (view c)
        \<and> view c' = (view c)\<lparr>cv_queue := cv_queue (view c) @ [m]\<rparr>"
    using assms(1) unfolding channel_contract_def by blast
  with assms(2) show "e = ChClosed \<longleftrightarrow> cv_closed (view c)"
    by (cases e) simp_all
  from * assms(2) show "cv_cap (view c) \<le> length (cv_queue (view c))" if "e = ChFull"
    using that by simp
qed

lemma channel_recv_cases:
  assumes "channel_contract ops view"
  obtains (waits) "ch_recv ops c = None" "cv_queue (view c) = []" "\<not> cv_closed (view c)" "cv_tx (view c)"
  | (ended) c' where "ch_recv ops c = Some (None, c')" "cv_queue (view c) = []"
      "cv_closed (view c) \<or> \<not> cv_tx (view c)" "view c' = view c"
  | (item) m ms c' where "ch_recv ops c = Some (Some m, c')" "cv_queue (view c) = m # ms"
      "view c' = (view c)\<lparr>cv_queue := ms\<rparr>"
proof -
  have "case ch_recv ops c of
      None \<Rightarrow> cv_queue (view c) = [] \<and> \<not> cv_closed (view c) \<and> cv_tx (view c)
    | Some (None, c') \<Rightarrow> cv_queue (view c) = [] \<and> (cv_closed (view c) \<or> \<not> cv_tx (view c))
        \<and> view c' = view c
    | Some (Some m, c') \<Rightarrow> (\<exists>ms. cv_queue (view c) = m # ms \<and> view c' = (view c)\<lparr>cv_queue := ms\<rparr>)"
    using assms unfolding channel_contract_def by blast
  then show thesis
    using waits ended item by (auto split: option.splits prod.splits)
qed

lemma channel_close:
  "channel_contract ops view \<Longrightarrow> view (ch_close ops c) = (view c)\<lparr>cv_closed := True\<rparr>"
  "channel_contract ops view \<Longrightarrow> view (ch_drop_tx ops c) = (view c)\<lparr>cv_tx := False\<rparr>"
  unfolding channel_contract_def by blast+

text \<open>A channel that is its own view, for the concrete runs.\<close>

definition list_chan :: "('m, 'm chan_view) chan_ops" where
  "list_chan = \<lparr>
     ch_new = (\<lambda>n. \<lparr>cv_cap = n, cv_queue = [], cv_closed = False, cv_tx = True\<rparr>),
     ch_try_send = (\<lambda>m c. if cv_closed c then Inl ChClosed
        else if length (cv_queue c) < cv_cap c then Inr (c\<lparr>cv_queue := cv_queue c @ [m]\<rparr>)
        else Inl ChFull),
     ch_recv = (\<lambda>c. case cv_queue c of
          m # ms \<Rightarrow> Some (Some m, c\<lparr>cv_queue := ms\<rparr>)
        | [] \<Rightarrow> if cv_closed c \<or> \<not> cv_tx c then Some (None, c) else None),
     ch_close = (\<lambda>c. c\<lparr>cv_closed := True\<rparr>),
     ch_drop_tx = (\<lambda>c. c\<lparr>cv_tx := False\<rparr>)\<rparr>"

lemma list_chan_contract: "channel_contract list_chan (\<lambda>c. c)"
  by (auto simp: channel_contract_def list_chan_def split: list.split)

section \<open>Handler loops\<close>

text \<open>The state of a handler task: its channel, the node's shutdown signal as it sees it, the local
  \<open>draining\<close> flag, the setup tasks in its \<open>JoinSet\<close>; then what happened so far: the requests
  accepted by the channel, served and failed, and the setup tasks aborted at the end.\<close>

record ('t, 'ch) handler_loop =
  hl_chan :: 'ch
  hl_signal :: bool
  hl_draining :: bool
  hl_running :: "'t list"
  hl_accepted :: "'t list"
  hl_served :: "'t list"
  hl_failed :: "'t list"
  hl_aborted :: "'t list"
  hl_done :: bool

definition handler_loop_new :: "('t, 'ch) chan_ops \<Rightarrow> nat \<Rightarrow> ('t, 'ch) handler_loop" where
  "handler_loop_new ops capacity = \<lparr>hl_chan = ch_new ops capacity, hl_signal = False,
     hl_draining = False, hl_running = [], hl_accepted = [], hl_served = [], hl_failed = [],
     hl_aborted = [], hl_done = False\<rparr>"

text \<open>One turn of \<open>run_setup_handler_loop\<close> when no finished setup task is there to be joined:
  \<open>select!\<close> is biased, so the channel comes before the shutdown signal. A request received while
  draining is dropped; otherwise its setup task is spawned. The loop ends when the channel is closed
  and drained, which drops the \<open>JoinSet\<close>. \<open>None\<close>: the loop sleeps.\<close>

definition setup_loop_turn ::
  "('t, 'ch) chan_ops \<Rightarrow> ('t, 'ch) handler_loop \<Rightarrow> ('t, 'ch) handler_loop option" where
  "setup_loop_turn ops s =
     (case ch_recv ops (hl_chan s) of
        Some (Some item, c) \<Rightarrow>
          Some (if hl_draining s then s\<lparr>hl_chan := c, hl_failed := hl_failed s @ [item]\<rparr>
                else s\<lparr>hl_chan := c, hl_running := hl_running s @ [item],
                       hl_served := hl_served s @ [item]\<rparr>)
      | Some (None, c) \<Rightarrow>
          Some (s\<lparr>hl_chan := ch_close ops c, hl_running := [],
                  hl_aborted := hl_aborted s @ hl_running s, hl_done := True\<rparr>)
      | None \<Rightarrow>
          if hl_signal s \<and> \<not> hl_draining s
          then Some (s\<lparr>hl_chan := ch_close ops (hl_chan s), hl_draining := True\<rparr>)
          else None)"

text \<open>The join branch of the same loop: a finished setup task leaves the \<open>JoinSet\<close>.\<close>

definition setup_loop_join :: "'t \<Rightarrow> ('t, 'ch) handler_loop \<Rightarrow> ('t, 'ch) handler_loop option" where
  "setup_loop_join t s =
     (if t \<in> set (hl_running s) then Some (s\<lparr>hl_running := remove1 t (hl_running s)\<rparr>) else None)"

text \<open>One turn of \<open>run_hook_handler_loop\<close>: a received trigger is always processed.\<close>

definition hook_loop_turn ::
  "('t, 'ch) chan_ops \<Rightarrow> ('t, 'ch) handler_loop \<Rightarrow> ('t, 'ch) handler_loop option" where
  "hook_loop_turn ops s =
     (case ch_recv ops (hl_chan s) of
        Some (Some item, c) \<Rightarrow> Some (s\<lparr>hl_chan := c, hl_served := hl_served s @ [item]\<rparr>)
      | Some (None, c) \<Rightarrow> Some (s\<lparr>hl_chan := ch_close ops c, hl_done := True\<rparr>)
      | None \<Rightarrow>
          if hl_signal s \<and> \<not> hl_draining s
          then Some (s\<lparr>hl_chan := ch_close ops (hl_chan s), hl_draining := True\<rparr>)
          else None)"

text \<open>The loop interleaved with the callers of \<open>trigger\<close> and with \<open>shut_down\<close>'s signal.\<close>

inductive handler_step ::
  "('t, 'ch) chan_ops \<Rightarrow> (('t, 'ch) handler_loop \<Rightarrow> ('t, 'ch) handler_loop option)
     \<Rightarrow> ('t, 'ch) handler_loop \<Rightarrow> ('t, 'ch) handler_loop \<Rightarrow> bool" for ops turn where
  triggered: "ch_try_send ops item (hl_chan s) = Inr c
     \<Longrightarrow> handler_step ops turn s (s\<lparr>hl_chan := c, hl_accepted := hl_accepted s @ [item]\<rparr>)"
| signalled: "handler_step ops turn s (s\<lparr>hl_signal := True\<rparr>)"
| joined: "\<not> hl_done s \<Longrightarrow> setup_loop_join t s = Some s' \<Longrightarrow> handler_step ops turn s s'"
| turned: "\<not> hl_done s \<Longrightarrow> turn s = Some s' \<Longrightarrow> handler_step ops turn s s'"

inductive_cases handler_stepE: "handler_step ops turn s s'"

abbreviation loop_queue :: "('ch \<Rightarrow> 't chan_view) \<Rightarrow> ('t, 'ch) handler_loop \<Rightarrow> 't list" where
  "loop_queue view s \<equiv> cv_queue (view (hl_chan s))"

text \<open>Requests fail only while draining, and never in a loop that still runs its queue
  (\<open>runs_queue\<close>).\<close>

definition fails_ok :: "bool \<Rightarrow> ('t, 'ch) handler_loop \<Rightarrow> bool" where
  "fails_ok runs_queue s \<longleftrightarrow> hl_failed s = [] \<or> hl_draining s \<and> \<not> runs_queue"

text \<open>What both loops guarantee: nothing that was accepted is lost, the channel is closed by the
  loop alone and only on the signal, and an ended loop left nothing queued.\<close>

definition loop_inv :: "bool \<Rightarrow> ('ch \<Rightarrow> 't chan_view) \<Rightarrow> ('t, 'ch) handler_loop \<Rightarrow> bool" where
  "loop_inv runs_queue view s \<longleftrightarrow>
     hl_accepted s = hl_served s @ hl_failed s @ loop_queue view s
     \<and> fails_ok runs_queue s \<and> (hl_draining s \<longrightarrow> hl_signal s)
     \<and> (cv_closed (view (hl_chan s)) \<longleftrightarrow> hl_draining s) \<and> cv_tx (view (hl_chan s))
     \<and> (hl_done s \<longrightarrow> hl_draining s \<and> loop_queue view s = [])"

text \<open>The contract of one turn, met by both loops, and what follows from it.\<close>

locale draining_loop =
  fixes ops :: "('t, 'ch) chan_ops"
    and turn :: "('t, 'ch) handler_loop \<Rightarrow> ('t, 'ch) handler_loop option"
    and runs_queue :: bool
  assumes turn_item: "ch_recv ops (hl_chan s) = Some (Some m, c) \<Longrightarrow> fails_ok runs_queue s \<Longrightarrow>
      \<exists>s'. turn s = Some s' \<and> hl_chan s' = c \<and> hl_signal s' = hl_signal s
        \<and> hl_draining s' = hl_draining s \<and> hl_done s' = hl_done s \<and> hl_accepted s' = hl_accepted s
        \<and> hl_served s' @ hl_failed s' = hl_served s @ hl_failed s @ [m] \<and> fails_ok runs_queue s'"
    and turn_end: "ch_recv ops (hl_chan s) = Some (None, c) \<Longrightarrow>
      \<exists>s'. turn s = Some s' \<and> hl_chan s' = ch_close ops c \<and> hl_signal s' = hl_signal s
        \<and> hl_draining s' = hl_draining s \<and> hl_done s' \<and> hl_accepted s' = hl_accepted s
        \<and> hl_served s' = hl_served s \<and> hl_failed s' = hl_failed s"
    and turn_wait: "ch_recv ops (hl_chan s) = None \<Longrightarrow>
      turn s = (if hl_signal s \<and> \<not> hl_draining s
        then Some (s\<lparr>hl_chan := ch_close ops (hl_chan s), hl_draining := True\<rparr>) else None)"
begin

lemma turn_inv:
  assumes ch: "channel_contract ops view" and inv: "loop_inv runs_queue view s" and t: "turn s = Some s'"
  shows "loop_inv runs_queue view s'"
  using ch
proof (cases rule: channel_recv_cases [where c = "hl_chan s"])
  case waits
  with t turn_wait [of s] inv show ?thesis
    by (auto simp: loop_inv_def fails_ok_def channel_close [OF ch] split: if_splits)
next
  case (ended c)
  with turn_end [OF ended(1)] t obtain "hl_chan s' = ch_close ops c" "hl_signal s' = hl_signal s"
    "hl_draining s' = hl_draining s" "hl_done s'" "hl_accepted s' = hl_accepted s"
    "hl_served s' = hl_served s" "hl_failed s' = hl_failed s" by auto
  with ended inv show ?thesis
    by (simp add: loop_inv_def fails_ok_def channel_close [OF ch])
next
  case (item m ms c)
  from inv have "fails_ok runs_queue s" by (simp add: loop_inv_def)
  from turn_item [OF item(1) this] t obtain "hl_chan s' = c" "hl_signal s' = hl_signal s"
    "hl_draining s' = hl_draining s" "hl_done s' = hl_done s" "hl_accepted s' = hl_accepted s"
    "hl_served s' @ hl_failed s' = hl_served s @ hl_failed s @ [m]" "fails_ok runs_queue s'" by auto
  moreover from this(6) item(2) inv
  have "hl_accepted s = hl_served s' @ hl_failed s' @ ms"
    unfolding loop_inv_def by (metis append.assoc append_Cons append_Nil)
  ultimately show ?thesis
    using item inv by (simp add: loop_inv_def)
qed

lemma step_inv:
  assumes "channel_contract ops view" and "loop_inv runs_queue view s" and "handler_step ops turn s s'"
  shows "loop_inv runs_queue view s'"
  using assms(3)
proof cases
  case (triggered item c)
  with assms(2) channel_send [OF assms(1) triggered(2)] show ?thesis
    by (auto simp: loop_inv_def fails_ok_def)
next
  case signalled
  with assms(2) show ?thesis by (simp add: loop_inv_def fails_ok_def)
next
  case (joined t)
  with assms(2) show ?thesis
    by (auto simp: loop_inv_def fails_ok_def setup_loop_join_def split: if_splits)
next
  case turned
  with assms(1,2) show ?thesis by (blast intro: turn_inv)
qed

lemma start_inv:
  "channel_contract ops view \<Longrightarrow> loop_inv runs_queue view (handler_loop_new ops cap)"
  by (simp add: handler_loop_new_def loop_inv_def fails_ok_def channel_new)

lemma reachable_inv:
  assumes "channel_contract ops view" and "(handler_step ops turn)\<^sup>*\<^sup>* (handler_loop_new ops cap) s"
  shows "loop_inv runs_queue view s"
  using assms(2) by (induction rule: rtranclp_induct) (auto intro: start_inv step_inv assms(1))

text \<open>Once the signal is given, the loop can always be run to its end.\<close>

lemma winds_down:
  assumes ch: "channel_contract ops view" and "loop_inv runs_queue view s" and "hl_signal s"
  shows "\<exists>u. (handler_step ops turn)\<^sup>*\<^sup>* s u \<and> hl_done u"
  using assms(2,3)
proof (induction "length (loop_queue view s) + (if hl_draining s then 0 else 1)" arbitrary: s
    rule: less_induct)
  case (less s)
  show ?case
  proof (cases "hl_done s")
    case False
    have next_: ?thesis if t: "turn s = Some s'" "hl_signal s'" "length (loop_queue view s')
        + (if hl_draining s' then 0 else 1) < length (loop_queue view s) + (if hl_draining s then 0 else 1)"
      for s'
    proof -
      have "loop_inv runs_queue view s'" by (rule turn_inv [OF ch less.prems(1) t(1)])
      from less.hyps [OF t(3) this t(2)] turned [where turn = turn and ops = ops, OF False t(1)] show ?thesis
        by (meson converse_rtranclp_into_rtranclp)
    qed
    from ch show ?thesis
    proof (cases rule: channel_recv_cases [where c = "hl_chan s"])
      case waits
      with less.prems have "\<not> hl_draining s" by (simp add: loop_inv_def)
      with waits less.prems turn_wait [OF waits(1)] show ?thesis
        by (intro next_ [of "s\<lparr>hl_chan := ch_close ops (hl_chan s), hl_draining := True\<rparr>"])
          (simp_all add: channel_close [OF ch])
    next
      case (ended c)
      with turn_end [OF ended(1)] turned [where turn = turn and ops = ops, OF False] show ?thesis
        by (metis r_into_rtranclp)
    next
      case (item m ms c)
      have "fails_ok runs_queue s" using less.prems(1) by (simp add: loop_inv_def)
      from turn_item [OF item(1) this] obtain s' where "turn s = Some s'" "hl_chan s' = c"
        "hl_signal s' = hl_signal s" "hl_draining s' = hl_draining s" by blast
      with item less.prems show ?thesis by (intro next_ [of s']) auto
    qed
  qed blast
qed

end

interpretation setup_loop: draining_loop ops "setup_loop_turn ops" False
  by unfold_locales (auto simp: setup_loop_turn_def fails_ok_def)

interpretation hook_loop: draining_loop ops "hook_loop_turn ops" True
  by unfold_locales (auto simp: hook_loop_turn_def fails_ok_def)

section \<open>Responses\<close>

text \<open>What the race of \<open>await_handler_response\<close> comes to: the response channel resolves first
  (\<open>None\<close>: the sender within was dropped), or the handler's channel closes first and the response
  is given the grace period.\<close>

datatype 'u response_race = Answered "'u option" | HandlerClosed "'u option timed"

fun await_handler_response :: "'u response_race \<Rightarrow> 'u option" where
  "await_handler_response (Answered r) = r"
| "await_handler_response (HandlerClosed Elapsed) = None"
| "await_handler_response (HandlerClosed (Completed r)) = r"

section \<open>Disconnecting a peer whose task ended\<close>

record disconnect_on_drop =
  dod_armed :: bool
  dod_addr :: socket_addr
  dod_conn_id :: u64
  dod_origin :: disconnect_origin

definition dod_new :: "socket_addr \<Rightarrow> u64 \<Rightarrow> disconnect_origin \<Rightarrow> disconnect_on_drop" where
  "dod_new addr cid origin =
     \<lparr>dod_armed = True, dod_addr = addr, dod_conn_id = cid, dod_origin = origin\<rparr>"

text \<open>\<open>node.take()\<close>, which defuses the guard.\<close>

definition dod_defuse :: "disconnect_on_drop \<Rightarrow> disconnect_on_drop" where
  "dod_defuse g = g\<lparr>dod_armed := False\<rparr>"

definition needs_recovery :: "disconnect_on_drop \<Rightarrow> 'sem node \<Rightarrow> bool" where
  "needs_recovery g n =
     (case fmlookup (active (nd_connections n)) (dod_addr g) of
        None \<Rightarrow> False
      | Some c \<Rightarrow> conn_id c = dod_conn_id g \<and> \<not> disconnecting c)"

text \<open>\<open>DisconnectOnDrop::drop\<close>: the disconnect it spawns, if any; \<open>runtime\<close> says whether there is a
  runtime to spawn on.\<close>

definition dod_drop ::
  "bool \<Rightarrow> disconnect_on_drop \<Rightarrow> 'sem node \<Rightarrow> (socket_addr \<times> disconnect_origin \<times> u64 option) option"
where
  "dod_drop runtime g n =
     (if dod_armed g \<and> needs_recovery g n \<and> runtime
      then Some (dod_addr g, dod_origin g, Some (dod_conn_id g)) else None)"

section \<open>Installing a handler\<close>

text \<open>\<open>install_protocol_handler\<close> for the slot read by \<open>taken\<close> and set by \<open>publish\<close>; \<open>meanwhile\<close> is what
  the other tasks did to the node until the spawned task was running. Returns the node and the
  aborted tasks; \<open>None\<close> is a panic of the double-enable assertions.\<close>

definition install_protocol_handler ::
  "bool \<Rightarrow> node_task \<Rightarrow> (protocols \<Rightarrow> bool) \<Rightarrow> (protocols \<Rightarrow> protocols) \<Rightarrow> task_id
     \<Rightarrow> ('sem node \<Rightarrow> 'sem node) \<Rightarrow> 'sem node \<Rightarrow> ('sem node \<times> task_id list) option" where
  "install_protocol_handler debug kind taken publish handle meanwhile n =
     (if taken (nd_protocols n) then None
      else
        (case unregistered_register debug kind (unregistered_new handle) (meanwhile n) of
           None \<Rightarrow> None
         | Some (Inl _, n1, aborted) \<Rightarrow> Some (n1, aborted)
         | Some (Inr _, n1, aborted) \<Rightarrow>
             if taken (nd_protocols n1) then None
             else Some (n1\<lparr>nd_protocols := publish (nd_protocols n1)\<rparr>, aborted)))"

text \<open>The slot of each protocol in \<open>Protocols\<close>: whether its \<open>OnceLock\<close> is set, and setting it.\<close>

fun slot_taken :: "node_task \<Rightarrow> protocols \<Rightarrow> bool" where
  "slot_taken TaskHandshake p \<longleftrightarrow> has_handshake p"
| "slot_taken TaskReading p \<longleftrightarrow> has_reading p"
| "slot_taken TaskWriting p \<longleftrightarrow> writing_handler p \<noteq> None"
| "slot_taken TaskOnConnect p \<longleftrightarrow> has_on_connect p"
| "slot_taken TaskOnDisconnect p \<longleftrightarrow> has_on_disconnect p"
| "slot_taken TaskListener p \<longleftrightarrow> False"

fun publish_slot :: "node_task \<Rightarrow> protocols \<Rightarrow> protocols" where
  "publish_slot TaskHandshake p = p\<lparr>has_handshake := True\<rparr>"
| "publish_slot TaskReading p = p\<lparr>has_reading := True\<rparr>"
| "publish_slot TaskWriting p = p\<lparr>writing_handler := Some fmempty\<rparr>"
| "publish_slot TaskOnConnect p = p\<lparr>has_on_connect := True\<rparr>"
| "publish_slot TaskOnDisconnect p = p\<lparr>has_on_disconnect := True\<rparr>"
| "publish_slot TaskListener p = p"

lemma publish_slot_taken:
  "kind \<noteq> TaskListener \<Longrightarrow> slot_taken other (publish_slot kind p) \<longleftrightarrow> other = kind \<or> slot_taken other p"
  by (cases kind; cases other; simp)

section \<open>Panics\<close>

text \<open>\<open>catch_setup_panic\<close> of a closure that panicked (\<open>None\<close>) or returned.\<close>

definition catch_setup_panic :: "string \<Rightarrow> 'a option \<Rightarrow> 'a io_result" where
  "catch_setup_panic what r =
     (case r of Some x \<Rightarrow> Inr x | None \<Rightarrow> Inl (IoError Other (Message (what @ '' panicked''))))"

datatype panic_payload = StaticStr string | OwnedString string | OtherPayload

fun panic_message :: "panic_payload \<Rightarrow> string" where
  "panic_message (StaticStr s) = s"
| "panic_message (OwnedString s) = s"
| "panic_message OtherPayload = ''<non-string panic payload>''"

section \<open>Properties\<close>

text \<open>C17: The hook handlers (\<open>OnConnect\<close>, \<open>OnDisconnect\<close>) run every trigger their channel accepted,
  exactly once and in order, whatever moment the shutdown signal arrives at: none fails, the ones
  not yet run are still queued, and an ended loop has run them all.\<close>

theorem hook_triggers_run:
  assumes "channel_contract ops view"
    and "(handler_step ops (hook_loop_turn ops))\<^sup>*\<^sup>* (handler_loop_new ops cap) s"
  shows "hl_failed s = [] \<and> hl_accepted s = hl_served s @ loop_queue view s
    \<and> (hl_done s \<longrightarrow> hl_served s = hl_accepted s)"
  using hook_loop.reachable_inv [OF assms] by (auto simp: loop_inv_def fails_ok_def)

lemma demo_loop_run:
  "(handler_step list_chan (hook_loop_turn list_chan))\<^sup>*\<^sup>* (handler_loop_new list_chan 2)
     \<lparr>hl_chan = \<lparr>cv_cap = 2, cv_queue = [], cv_closed = True, cv_tx = True\<rparr>, hl_signal = True,
       hl_draining = True, hl_running = [], hl_accepted = [7 :: nat], hl_served = [7], hl_failed = [],
       hl_aborted = [], hl_done = True\<rparr>" (is "?R\<^sup>*\<^sup>* ?first ?last")
proof -
  let ?st = "\<lambda>q cl sg dr sv dn. \<lparr>hl_chan = \<lparr>cv_cap = 2, cv_queue = q, cv_closed = cl, cv_tx = True\<rparr>,
    hl_signal = sg, hl_draining = dr, hl_running = [], hl_accepted = [7 :: nat], hl_served = sv,
    hl_failed = [], hl_aborted = [], hl_done = dn\<rparr>"
  have "?R ?first (?st [7] False False False [] False)"
    using triggered [where s = ?first and item = 7 and ops = list_chan]
    by (simp add: handler_loop_new_def list_chan_def)
  moreover have "?R (?st [7] False False False [] False) (?st [7] False True False [] False)"
    using signalled [where s = "?st [7] False False False [] False"] by simp
  moreover have "?R (?st [7] False True False [] False) (?st [] False True False [7] False)"
    by (rule turned) (simp_all add: hook_loop_turn_def list_chan_def)
  moreover have "?R (?st [] False True False [7] False) (?st [] True True True [7] False)"
    by (rule turned) (simp_all add: hook_loop_turn_def list_chan_def)
  moreover have "?R (?st [] True True True [7] False) ?last"
    by (rule turned) (simp_all add: hook_loop_turn_def list_chan_def)
  ultimately show ?thesis
    by (meson rtranclp.rtrancl_into_rtrancl rtranclp.rtrancl_refl)
qed

theorem hook_triggers_run_witness:
  "\<exists>s. (handler_step list_chan (hook_loop_turn list_chan))\<^sup>*\<^sup>* (handler_loop_new list_chan 2) s
     \<and> hl_done s \<and> hl_accepted s = [7 :: nat] \<and> hl_served s = hl_accepted s"
  using hook_triggers_run [OF list_chan_contract demo_loop_run] demo_loop_run
  by (intro exI conjI) (assumption, simp_all)

text \<open>C18: The setup handlers (\<open>Handshake\<close>, \<open>Reading\<close>, \<open>Writing\<close>) settle every request their channel
  accepted: those received before the drain get a setup task, those received after it fail, none is
  served after one failed, and an ended loop has left none behind. Requests only fail once the node
  has signalled its shutdown.\<close>

theorem setup_requests_settled:
  assumes "channel_contract ops view"
    and "(handler_step ops (setup_loop_turn ops))\<^sup>*\<^sup>* (handler_loop_new ops cap) s"
  shows "hl_accepted s = hl_served s @ hl_failed s @ loop_queue view s
    \<and> (hl_failed s = [] \<or> hl_signal s)
    \<and> (hl_done s \<longrightarrow> hl_accepted s = hl_served s @ hl_failed s)"
  using setup_loop.reachable_inv [OF assms] by (auto simp: loop_inv_def fails_ok_def)

lemma demo_setup_loop_run:
  "(handler_step list_chan (setup_loop_turn list_chan))\<^sup>*\<^sup>* (handler_loop_new list_chan 2)
     \<lparr>hl_chan = \<lparr>cv_cap = 2, cv_queue = [], cv_closed = False, cv_tx = True\<rparr>, hl_signal = True,
       hl_draining = False, hl_running = [7], hl_accepted = [7 :: nat], hl_served = [7],
       hl_failed = [], hl_aborted = [], hl_done = False\<rparr>" (is "?R\<^sup>*\<^sup>* ?first ?last")
proof -
  let ?st = "\<lambda>q sg rn sv. \<lparr>hl_chan = \<lparr>cv_cap = 2, cv_queue = q, cv_closed = False, cv_tx = True\<rparr>,
    hl_signal = sg, hl_draining = False, hl_running = rn, hl_accepted = [7 :: nat], hl_served = sv,
    hl_failed = [], hl_aborted = [], hl_done = False\<rparr>"
  have "?R ?first (?st [7] False [] [])"
    using triggered [where s = ?first and item = 7 and ops = list_chan]
    by (simp add: handler_loop_new_def list_chan_def)
  moreover have "?R (?st [7] False [] []) (?st [7] True [] [])"
    using signalled [where s = "?st [7] False [] []"] by simp
  moreover have "?R (?st [7] True [] []) ?last"
    by (rule turned) (simp_all add: setup_loop_turn_def list_chan_def)
  ultimately show ?thesis
    by (meson rtranclp.rtrancl_into_rtrancl rtranclp.rtrancl_refl)
qed

theorem setup_requests_settled_witness:
  "\<exists>s. (handler_step list_chan (setup_loop_turn list_chan))\<^sup>*\<^sup>* (handler_loop_new list_chan 2) s
     \<and> hl_accepted s = [7 :: nat] \<and> hl_accepted s = hl_served s @ hl_failed s @ cv_queue (hl_chan s)"
  using setup_requests_settled [OF list_chan_contract demo_setup_loop_run] demo_setup_loop_run
  by (intro exI conjI) (assumption, simp_all)





text \<open>Enabling a protocol publishes its handler and registers its task, leaving the other protocols
  alone; enabling it a second time panics. On a node that is shutting down it is a no-op: nothing is
  published and the spawned task is aborted.\<close>

lemma install_protocol_handler_once:
  assumes "kind \<noteq> TaskListener" and "\<not> slot_taken kind (nd_protocols n)"
    and "fmlookup (nd_tasks n) kind = None"
  shows "if is_underway (nd_shutdown n)
    then install_protocol_handler debug kind (slot_taken kind) (publish_slot kind) h id n = Some (n, [h])
    else (\<exists>n'. install_protocol_handler debug kind (slot_taken kind) (publish_slot kind) h id n
          = Some (n', [])
        \<and> fmlookup (nd_tasks n') kind = Some h
        \<and> (\<forall>k. slot_taken k (nd_protocols n') \<longleftrightarrow> k = kind \<or> slot_taken k (nd_protocols n))
        \<and> install_protocol_handler debug kind (slot_taken kind) (publish_slot kind) h' id n' = None)"
  using assms
  by (auto simp: install_protocol_handler_def unregistered_register_def unregistered_new_def
      unregistered_drop_def register_task_def Let_def publish_slot_taken)

end
