(* ===== verification/Handshake.thy ===== *)
theory Handshake
  imports Protocols
begin

text \<open>
  The \<open>Handshake\<close> protocol (\<open>pea2pea/src/protocols/handshake.rs\<close>): access to the stream during a
  handshake, and the conclusion of one. The user's \<open>perform_handshake\<close> is an argument: what it does
  with the connection, and whether it returns, panics or runs into the timeout.
\<close>

definition enable_handshake ::
  "bool \<Rightarrow> task_id \<Rightarrow> ('sem node \<Rightarrow> 'sem node) \<Rightarrow> 'sem node \<Rightarrow> ('sem node \<times> task_id list) option" where
  "enable_handshake debug handle meanwhile n =
     install_protocol_handler debug TaskHandshake (slot_taken TaskHandshake)
       (publish_slot TaskHandshake) handle meanwhile n"

text \<open>\<open>borrow_stream\<close> and \<open>take_stream\<close> panic (\<open>None\<close>) when the stream was taken before.\<close>

definition borrow_stream :: "connection \<Rightarrow> stream option" where
  "borrow_stream conn = conn_stream conn"

definition take_stream :: "connection \<Rightarrow> (stream \<times> connection) option" where
  "take_stream conn = map_option (\<lambda>s. (s, conn\<lparr>conn_stream := None\<rparr>)) (conn_stream conn)"

definition return_stream :: "connection \<Rightarrow> stream \<Rightarrow> connection" where
  "return_stream conn strm = conn\<lparr>conn_reader := Some strm, conn_writer := Some strm\<rparr>"

text \<open>How \<open>perform_handshake\<close> came out within the timeout: a panic is \<open>Completed None\<close>.\<close>

type_synonym handshake_outcome = "connection io_result option timed"

definition handshake_conclude ::
  "handshake_outcome \<Rightarrow> 'sem node \<Rightarrow> connection io_result \<times> 'sem node" where
  "handshake_conclude r n =
     (case r of
        Completed (Some (Inr conn)) \<Rightarrow> (Inr conn, n)
      | Completed (Some (Inl e)) \<Rightarrow> (Inl e, n)
      | Completed None \<Rightarrow>
          (Inl (IoError Other (Message ''Handshake::perform_handshake panicked'')), n)
      | Elapsed \<Rightarrow>
          (Inl (IoError TimedOut NoPayload),
           n\<lparr>nd_heuristics := register_handshake_timeout (nd_heuristics n)\<rparr>))"

text \<open>\<open>HandshakeInternal::handle_new_connection\<close>, as a setup handler: it always answers.\<close>

definition handshake_handler :: "(connection \<Rightarrow> handshake_outcome) \<Rightarrow> 'sem setup_handler" where
  "handshake_handler perform conn n =
     (let (r, n') = handshake_conclude (perform conn) n in (Some r, n'))"

end
