(* ===== verification/Reading.thy ===== *)
theory Reading
  imports Protocols "HOL-Library.Sublist"
begin

text \<open>
  The \<open>Reading\<close> protocol (\<open>pea2pea/src/protocols/reading.rs\<close>): setting up the two tasks of a
  connection, the reader loop with its idle timeout and the two ways to deal with a full queue, the
  processing loop, and the decoder wrapper that accounts for the received messages. Arguments: the
  user's decoder and whether its construction panics, the frames the stream yields, the channel
  between the two tasks, and the clock (in milliseconds).
\<close>

section \<open>Setup\<close>

definition enable_reading ::
  "bool \<Rightarrow> nat \<Rightarrow> task_id \<Rightarrow> ('sem node \<Rightarrow> 'sem node) \<Rightarrow> 'sem node \<Rightarrow> ('sem node \<times> task_id list) option"
where
  "enable_reading debug queue_depth handle meanwhile n =
     (if queue_depth = 0 then None
      else install_protocol_handler debug TaskReading (slot_taken TaskReading)
        (publish_slot TaskReading) handle meanwhile n)"

text \<open>\<open>ReadingInternal::handle_new_connection\<close>: \<open>codec\<close> is \<open>None\<close> when the construction of the decoder
  panics; \<open>ready\<close> names the readiness channel, \<open>processing\<close> and \<open>reader\<close> the two spawned tasks.\<close>

definition reading_handle_new_connection ::
  "'c option \<Rightarrow> nat \<Rightarrow> task_id \<Rightarrow> task_id \<Rightarrow> connection \<Rightarrow> connection io_result" where
  "reading_handle_new_connection codec ready processing reader conn =
     (case catch_setup_panic ''Reading::codec'' codec of
        Inl e \<Rightarrow> Inl e
      | Inr _ \<Rightarrow>
          (case conn_reader conn of
             None \<Rightarrow> Inl (IoError Other (Message ''the stream was not returned during the handshake''))
           | Some _ \<Rightarrow>
               (let conn1 = conn\<lparr>conn_reader := None, readiness_notifier := Some ready\<rparr>;
                    conn2 = conn1\<lparr>conn_tasks := conn_tasks conn1 @ [processing]\<rparr>
                in Inr (conn2\<lparr>conn_tasks := conn_tasks conn2 @ [reader]\<rparr>))))"

definition reading_handler ::
  "(socket_addr \<Rightarrow> connection_side \<Rightarrow> 'c option) \<Rightarrow> nat \<Rightarrow> task_id \<Rightarrow> task_id \<Rightarrow> 'sem setup_handler" where
  "reading_handler codec ready processing reader conn n =
     (Some (reading_handle_new_connection (codec (conn_addr conn) (side_not (conn_side conn)))
        ready processing reader conn), n)"

section \<open>The reader and processing tasks\<close>

text \<open>The state the two tasks of a connection share, with what happened so far: the frames decoded,
  the messages processed, those dropped by a full queue, the one a closed queue refused, and the
  reported drop counts.\<close>

record ('m, 'ch) reading_task =
  rd_chan :: 'ch
  rd_dropped :: nat
  rd_last_log :: nat
  rd_heuristics :: heuristics
  rd_reader :: bool
  rd_processing :: bool
  rd_frames :: "'m list"
  rd_processed :: "'m list"
  rd_lost :: "'m list"
  rd_refused :: "'m list"
  rd_reported :: "nat list"

definition reading_task_new :: "('m, 'ch) chan_ops \<Rightarrow> nat \<Rightarrow> nat \<Rightarrow> heuristics \<Rightarrow> ('m, 'ch) reading_task" where
  "reading_task_new ops queue_depth now h = \<lparr>rd_chan = ch_new ops queue_depth, rd_dropped = 0,
     rd_last_log = now, rd_heuristics = h, rd_reader = True, rd_processing = True, rd_frames = [],
     rd_processed = [], rd_lost = [], rd_refused = [], rd_reported = []\<rparr>"

definition warn_about_dropped_messages :: "nat \<Rightarrow> ('m, 'ch) reading_task \<Rightarrow> ('m, 'ch) reading_task" where
  "warn_about_dropped_messages now s =
     s\<lparr>rd_reported := rd_reported s @ [rd_dropped s], rd_dropped := 0, rd_last_log := now\<rparr>"

text \<open>The end of the reader task, which drops the sender.\<close>

definition reader_break :: "('m, 'ch) chan_ops \<Rightarrow> ('m, 'ch) reading_task \<Rightarrow> ('m, 'ch) reading_task" where
  "reader_break ops s = s\<lparr>rd_reader := False, rd_chan := ch_drop_tx ops (rd_chan s)\<rparr>"

text \<open>Handing a decoded message to the processing task; \<open>None\<close> while the send waits for a free slot.\<close>

definition deliver ::
  "bool \<Rightarrow> ('m, 'ch) chan_ops \<Rightarrow> nat \<Rightarrow> 'm \<Rightarrow> ('m, 'ch) reading_task \<Rightarrow> ('m, 'ch) reading_task option" where
  "deliver backpressure ops now msg s =
     (if backpressure then
        (case ch_try_send ops msg (rd_chan s) of
           Inr c \<Rightarrow> Some (s\<lparr>rd_chan := c\<rparr>)
         | Inl ChFull \<Rightarrow> None
         | Inl ChClosed \<Rightarrow> Some (reader_break ops (s\<lparr>rd_refused := rd_refused s @ [msg]\<rparr>)))
      else
        (case ch_try_send ops msg (rd_chan s) of
           Inr c \<Rightarrow>
             (let s1 = s\<lparr>rd_chan := c\<rparr>
              in Some (if rd_dropped s1 \<noteq> 0 then warn_about_dropped_messages now s1 else s1))
         | Inl ChFull \<Rightarrow>
             (let s1 = s\<lparr>rd_dropped := rd_dropped s + 1, rd_lost := rd_lost s @ [msg]\<rparr>
              in Some (if now - rd_last_log s1 \<ge> 1000 then warn_about_dropped_messages now s1 else s1))
         | Inl ChClosed \<Rightarrow> Some (reader_break ops (s\<lparr>rd_refused := rd_refused s @ [msg]\<rparr>))))"

text \<open>One turn of the reader loop: \<open>frame\<close> is what the timed wait for the next frame came to.\<close>

definition reader_turn ::
  "bool \<Rightarrow> nat \<Rightarrow> ('m, 'ch) chan_ops \<Rightarrow> nat \<Rightarrow> 'm io_result option timed \<Rightarrow> ('m, 'ch) reading_task
     \<Rightarrow> ('m, 'ch) reading_task option" where
  "reader_turn backpressure idle_timeout_ms ops now frame s =
     (case frame of
        Elapsed \<Rightarrow>
          if idle_timeout_ms \<noteq> 0
          then Some (reader_break ops (s\<lparr>rd_heuristics := register_idle_timeout (rd_heuristics s)\<rparr>))
          else None
      | Completed (Some (Inr msg)) \<Rightarrow>
          deliver backpressure ops now msg (s\<lparr>rd_frames := rd_frames s @ [msg]\<rparr>)
      | Completed (Some (Inl _)) \<Rightarrow> Some (reader_break ops s)
      | Completed None \<Rightarrow> Some (reader_break ops s))"

text \<open>One turn of the processing loop; \<open>panics\<close> says whether \<open>process_message\<close> panics on the message.
  The end of the task drops the receiver.\<close>

definition processing_turn ::
  "('m, 'ch) chan_ops \<Rightarrow> bool \<Rightarrow> ('m, 'ch) reading_task \<Rightarrow> ('m, 'ch) reading_task option" where
  "processing_turn ops panics s =
     (case ch_recv ops (rd_chan s) of
        None \<Rightarrow> None
      | Some (None, c) \<Rightarrow> Some (s\<lparr>rd_processing := False, rd_chan := ch_close ops c\<rparr>)
      | Some (Some msg, c) \<Rightarrow>
          (let s1 = s\<lparr>rd_chan := c, rd_processed := rd_processed s @ [msg]\<rparr>
           in Some (if panics then s1\<lparr>rd_processing := False, rd_chan := ch_close ops c\<rparr> else s1)))"

inductive reading_step ::
  "bool \<Rightarrow> nat \<Rightarrow> ('m, 'ch) chan_ops \<Rightarrow> ('m, 'ch) reading_task \<Rightarrow> ('m, 'ch) reading_task \<Rightarrow> bool"
  for backpressure idle_timeout_ms ops where
  reads: "rd_reader s \<Longrightarrow> reader_turn backpressure idle_timeout_ms ops now frame s = Some s'
     \<Longrightarrow> reading_step backpressure idle_timeout_ms ops s s'"
| processes: "rd_processing s \<Longrightarrow> processing_turn ops panics s = Some s'
     \<Longrightarrow> reading_step backpressure idle_timeout_ms ops s s'"

text \<open>The messages that reached the queue, in order; the one a closed queue refused comes last.\<close>

abbreviation rd_kept :: "('ch \<Rightarrow> 'm chan_view) \<Rightarrow> ('m, 'ch) reading_task \<Rightarrow> 'm list" where
  "rd_kept view s \<equiv> rd_processed s @ cv_queue (view (rd_chan s)) @ rd_refused s"

definition reading_inv ::
  "bool \<Rightarrow> nat \<Rightarrow> ('ch \<Rightarrow> 'm chan_view) \<Rightarrow> ('m, 'ch) reading_task \<Rightarrow> bool" where
  "reading_inv backpressure depth view s \<longleftrightarrow>
     (backpressure \<longrightarrow> rd_lost s = [] \<and> rd_frames s = rd_kept view s)
     \<and> subseq (rd_kept view s) (rd_frames s)
     \<and> length (rd_frames s) = length (rd_kept view s) + length (rd_lost s)
     \<and> length (rd_lost s) = sum_list (rd_reported s) + rd_dropped s
     \<and> (rd_refused s \<noteq> [] \<longrightarrow> \<not> rd_reader s) \<and> length (rd_refused s) \<le> 1
     \<and> (cv_closed (view (rd_chan s)) \<longleftrightarrow> \<not> rd_processing s)
     \<and> (cv_tx (view (rd_chan s)) \<longleftrightarrow> rd_reader s)
     \<and> cv_cap (view (rd_chan s)) = depth \<and> length (cv_queue (view (rd_chan s))) \<le> depth"

lemma deliver_inv:
  assumes ch: "channel_contract ops view" and inv: "reading_inv backpressure depth view s"
    and "rd_reader s"
    and d: "deliver backpressure ops now msg (s\<lparr>rd_frames := rd_frames s @ [msg]\<rparr>) = Some s'"
  shows "reading_inv backpressure depth view s'"
proof -
  let ?q = "cv_queue (view (rd_chan s))"
  have ref: "rd_refused s = []" using inv assms(3) by (auto simp: reading_inv_def)
  with inv have sub: "subseq (rd_processed s @ ?q) (rd_frames s)" by (simp add: reading_inv_def)
  have kept: "subseq (rd_processed s @ ?q @ [msg]) (rd_frames s @ [msg])"
    using list_emb_append_mono [OF sub, of "[msg]" "[msg]"] by simp
  have skipped: "subseq (rd_processed s @ ?q) (rd_frames s @ [msg])"
    by (rule subseq_rev_drop_many [OF sub])
  note defs = reading_inv_def deliver_def warn_about_dropped_messages_def reader_break_def Let_def
  show ?thesis
  proof (cases "ch_try_send ops msg (rd_chan s)")
    case (Inr c)
    have s': "s' = (if \<not> backpressure \<and> rd_dropped s \<noteq> 0
        then warn_about_dropped_messages now (s\<lparr>rd_frames := rd_frames s @ [msg], rd_chan := c\<rparr>)
        else s\<lparr>rd_frames := rd_frames s @ [msg], rd_chan := c\<rparr>)"
      using d Inr by (auto simp: deliver_def Let_def split: if_splits)
    show ?thesis
      using inv ref kept channel_send [OF ch Inr] unfolding s' by (simp add: defs)
  next
    case (Inl e)
    show ?thesis
    proof (cases e)
      case ChFull
      with d Inl have nb: "\<not> backpressure" by (simp add: deliver_def split: if_splits)
      let ?s1 = "s\<lparr>rd_frames := rd_frames s @ [msg], rd_dropped := rd_dropped s + 1,
        rd_lost := rd_lost s @ [msg]\<rparr>"
      have s': "s' = (if 1000 \<le> now - rd_last_log s then warn_about_dropped_messages now ?s1 else ?s1)"
        using d Inl ChFull nb by (auto simp: deliver_def Let_def split: if_splits)
      show ?thesis
        using inv ref skipped nb unfolding s' by (simp add: defs)
    next
      case ChClosed
      have s': "s' = reader_break ops (s\<lparr>rd_frames := rd_frames s @ [msg], rd_refused := [msg]\<rparr>)"
        using d Inl ChClosed ref by (simp add: deliver_def split: if_splits)
      show ?thesis
        using inv ref kept unfolding s' by (simp add: defs channel_close [OF ch])
    qed
  qed
qed

lemma reader_break_inv:
  assumes "channel_contract ops view" and "reading_inv backpressure depth view s"
  shows "reading_inv backpressure depth view (reader_break ops (s\<lparr>rd_heuristics := h\<rparr>))"
  using assms(2) by (simp add: reading_inv_def reader_break_def channel_close [OF assms(1)])

lemma processing_turn_inv:
  assumes ch: "channel_contract ops view" and inv: "reading_inv backpressure depth view s"
    and "rd_processing s" and p: "processing_turn ops panics s = Some s'"
  shows "reading_inv backpressure depth view s'"
  using ch
proof (cases rule: channel_recv_cases [where c = "rd_chan s"])
  case waits
  with p show ?thesis by (simp add: processing_turn_def)
next
  case (ended c)
  then have s': "s' = s\<lparr>rd_processing := False, rd_chan := ch_close ops c\<rparr>"
    using p by (simp add: processing_turn_def)
  show ?thesis
    using inv ended(4) unfolding s' by (simp add: reading_inv_def channel_close [OF ch])
next
  case (item m ms c)
  let ?s1 = "s\<lparr>rd_chan := c, rd_processed := rd_processed s @ [m]\<rparr>"
  have s': "s' = (if panics then ?s1\<lparr>rd_processing := False, rd_chan := ch_close ops c\<rparr> else ?s1)"
    using p item(1) by (auto simp: processing_turn_def Let_def)
  show ?thesis
    using inv item(2,3) assms(3) unfolding s' by (simp add: reading_inv_def channel_close [OF ch])
qed

lemma reading_step_inv:
  assumes ch: "channel_contract ops view"
    and "reading_step backpressure idle_timeout_ms ops s s'"
    and inv: "reading_inv backpressure depth view s"
  shows "reading_inv backpressure depth view s'"
  using assms(2)
proof cases
  case (reads now frame)
  have stop: "reading_inv backpressure depth view (reader_break ops s)"
    using reader_break_inv [OF ch inv, of "rd_heuristics s"] by simp
  show ?thesis
  proof (cases "\<exists>m. frame = Completed (Some (Inr m))")
    case True
    then obtain m where "frame = Completed (Some (Inr m))" ..
    with reads(2) have "deliver backpressure ops now m (s\<lparr>rd_frames := rd_frames s @ [m]\<rparr>) = Some s'"
      by (simp add: reader_turn_def)
    then show ?thesis by (rule deliver_inv [OF ch inv reads(1)])
  next
    case False
    then have "s' = reader_break ops s
        \<or> s' = reader_break ops (s\<lparr>rd_heuristics := register_idle_timeout (rd_heuristics s)\<rparr>)"
      using reads(2) unfolding reader_turn_def
      by (auto split: timed.splits option.splits sum.splits if_splits)
    then show ?thesis
      using stop reader_break_inv [OF ch inv] by blast
  qed
next
  case (processes panics)
  then show ?thesis by (rule processing_turn_inv [OF ch inv])
qed

lemma reading_reachable:
  assumes "channel_contract ops view"
    and "(reading_step backpressure idle_timeout_ms ops)\<^sup>*\<^sup>* (reading_task_new ops depth now h) s"
  shows "reading_inv backpressure depth view s"
  using assms(2)
proof (induction rule: rtranclp_induct)
  case base
  show ?case by (simp add: reading_inv_def reading_task_new_def channel_new [OF assms(1)])
next
  case (step s s')
  then show ?case by (blast intro: reading_step_inv [OF assms(1)])
qed

section \<open>Accounting for received messages\<close>

text \<open>\<open>CountingCodec\<close>: the wrapped decoder and the bytes consumed by calls that produced no message yet;
  its two statistics records are passed along with it.\<close>

record 'c counting_codec =
  cc_codec :: 'c
  cc_acc :: nat

type_synonym 'c counted = "'c counting_codec \<times> stats \<times> stats"

definition map_codec :: "'c \<Rightarrow> 'c counting_codec" where
  "map_codec codec = \<lparr>cc_codec = codec, cc_acc = 0\<rparr>"

definition account :: "nat \<Rightarrow> nat \<Rightarrow> bool \<Rightarrow> 'c counted \<Rightarrow> 'c counted" where
  "account initial_len final_len produced st =
     (case st of (cc, conn_stats, node_stats) \<Rightarrow>
        let consumed = saturating_sub initial_len final_len;
            read_len = consumed + cc_acc cc
        in if read_len \<noteq> 0 then
             if produced then
               (cc\<lparr>cc_acc := 0\<rparr>, register_received_message read_len conn_stats,
                register_received_message read_len node_stats)
             else (cc\<lparr>cc_acc := read_len\<rparr>, conn_stats, node_stats)
           else (cc, conn_stats, node_stats))"

text \<open>A decoder: the result, the decoder and the buffer after the call.\<close>

type_synonym ('c, 'b, 'm) decoder = "'c \<Rightarrow> 'b list \<Rightarrow> 'm option io_result \<times> 'c \<times> 'b list"

fun produced :: "'m option io_result \<Rightarrow> bool" where
  "produced (Inr (Some _)) = True"
| "produced _ = False"

definition counting_decode ::
  "('c, 'b, 'm) decoder \<Rightarrow> 'b list \<Rightarrow> 'c counted \<Rightarrow> 'm option io_result \<times> 'b list \<times> 'c counted" where
  "counting_decode dec src st =
     (case st of (cc, conn_stats, node_stats) \<Rightarrow>
        let initial = length src;
            (ret, codec, src') = dec (cc_codec cc) src
        in (ret, src', account initial (length src') (produced ret)
              (cc\<lparr>cc_codec := codec\<rparr>, conn_stats, node_stats)))"

definition counting_decode_eof ::
  "('c, 'b, 'm) decoder \<Rightarrow> 'b list \<Rightarrow> 'c counted \<Rightarrow> 'm option io_result \<times> 'b list \<times> 'c counted" where
  "counting_decode_eof dec_eof src st =
     (case st of (cc, conn_stats, node_stats) \<Rightarrow>
        let initial = length src;
            (ret, codec, src') = dec_eof (cc_codec cc) src
        in (ret, src', account initial (length src') (produced ret)
              (cc\<lparr>cc_codec := codec\<rparr>, conn_stats, node_stats)))"

text \<open>A history of calls made by the framed reader, each with the buffer it passed; \<open>True\<close> marks
  \<open>decode_eof\<close>. The bytes each call consumed and whether it produced a message are recorded.\<close>

fun decode_calls ::
  "('c, 'b, 'm) decoder \<Rightarrow> ('c, 'b, 'm) decoder \<Rightarrow> (bool \<times> 'b list) list \<Rightarrow> 'c counted
     \<Rightarrow> (nat \<times> bool) list \<times> 'c counted" where
  "decode_calls dec dec_eof [] st = ([], st)"
| "decode_calls dec dec_eof ((eof, src) # calls) st =
     (let (ret, src', st') =
            (if eof then counting_decode_eof dec_eof src st else counting_decode dec src st);
          (log, st'') = decode_calls dec dec_eof calls st'
      in ((saturating_sub (length src) (length src'), produced ret) # log, st''))"

text \<open>The sizes of the messages a history of calls completes, given the bytes already accumulated.\<close>

fun message_sizes :: "nat \<Rightarrow> (nat \<times> bool) list \<Rightarrow> nat list" where
  "message_sizes acc [] = []"
| "message_sizes acc ((used, compl) # log) =
     (if compl then (if used + acc = 0 then [] else [used + acc]) @ message_sizes 0 log
      else message_sizes (used + acc) log)"

fun leftover :: "nat \<Rightarrow> (nat \<times> bool) list \<Rightarrow> nat" where
  "leftover acc [] = acc"
| "leftover acc ((used, compl) # log) = leftover (if compl then 0 else used + acc) log"

lemma account_sizes:
  "account i f p (cc, cs, ns) =
     (cc\<lparr>cc_acc := (if p then 0 else i - f + cc_acc cc)\<rparr>,
      fold stats_apply (map ReceivedMsg (if p \<and> i - f + cc_acc cc \<noteq> 0 then [i - f + cc_acc cc] else [])) cs,
      fold stats_apply (map ReceivedMsg (if p \<and> i - f + cc_acc cc \<noteq> 0 then [i - f + cc_acc cc] else [])) ns)"
  by (cases cc) (auto simp: account_def Let_def)

lemma decode_calls_sizes:
  assumes "decode_calls dec dec_eof calls (cc, cs, ns) = (log, (cc', cs', ns'))"
  shows "cs' = fold stats_apply (map ReceivedMsg (message_sizes (cc_acc cc) log)) cs
    \<and> ns' = fold stats_apply (map ReceivedMsg (message_sizes (cc_acc cc) log)) ns
    \<and> cc_acc cc' = leftover (cc_acc cc) log \<and> length log = length calls"
  using assms
proof (induction calls arbitrary: cc cs ns log)
  case (Cons call calls)
  obtain eof src where call: "call = (eof, src)" by fastforce
  obtain ret codec src' where dec: "(if eof then dec_eof else dec) (cc_codec cc) src = (ret, codec, src')"
    by (metis prod_cases3)
  obtain cc1 cs1 ns1 where acc: "account (length src) (length src') (produced ret)
      (cc\<lparr>cc_codec := codec\<rparr>, cs, ns) = (cc1, cs1, ns1)" by (metis prod_cases3)
  obtain log1 where rec: "decode_calls dec dec_eof calls (cc1, cs1, ns1) = (log1, (cc', cs', ns'))"
    and log: "log = (length src - length src', produced ret) # log1"
    using Cons.prems call dec acc
    by (cases eof) (auto simp: counting_decode_def counting_decode_eof_def split: prod.splits)
  from Cons.IH [OF rec] acc log show ?case
    by (auto simp: account_sizes)
qed simp

lemma message_sizes_total: "sum_list (message_sizes acc log) + leftover acc log = acc + sum_list (map fst log)"
  by (induction acc log rule: message_sizes.induct) auto

lemma message_sizes_count:
  "(\<And>used. (used, True) \<in> set log \<Longrightarrow> 0 < used)
     \<Longrightarrow> length (message_sizes acc log) = length (filter snd log)"
  by (induction acc log rule: message_sizes.induct) auto

lemma message_sizes_pos: "0 \<notin> set (message_sizes acc log)"
  by (induction acc log rule: message_sizes.induct) auto

section \<open>Properties\<close>



text \<open>A reader that decodes three messages into a queue of one slot; the first is processed.\<close>

definition demo_reading :: "bool \<Rightarrow> nat list \<Rightarrow> nat list \<Rightarrow> nat list \<Rightarrow> nat list \<Rightarrow> nat
  \<Rightarrow> (nat, nat chan_view) reading_task" where
  "demo_reading r fr pr q lo dr = \<lparr>rd_chan = \<lparr>cv_cap = 1, cv_queue = q, cv_closed = False, cv_tx = r\<rparr>,
     rd_dropped = dr, rd_last_log = 0, rd_heuristics = heuristics_default, rd_reader = r,
     rd_processing = True, rd_frames = fr, rd_processed = pr, rd_lost = lo, rd_refused = [],
     rd_reported = []\<rparr>"

lemmas demo_reading_defs = demo_reading_def reader_turn_def processing_turn_def deliver_def
  list_chan_def Let_def

lemma demo_reading_read:
  "reading_step bp 60000 list_chan (demo_reading True fr pr [] lo 0) (demo_reading True (fr @ [m]) pr [m] lo 0)"
  by (rule reads [where now = 0 and frame = "Completed (Some (Inr m))"])
    (simp_all add: demo_reading_defs)

lemma demo_reading_process:
  "reading_step bp 60000 list_chan (demo_reading True fr pr [m] lo dr) (demo_reading True fr (pr @ [m]) [] lo dr)"
  by (rule processes [where panics = False]) (simp_all add: demo_reading_defs)

lemma demo_reading_drop:
  "reading_step False 60000 list_chan (demo_reading True fr pr [x] lo dr)
     (demo_reading True (fr @ [m]) pr [x] (lo @ [m]) (dr + 1))"
  by (rule reads [where now = 0 and frame = "Completed (Some (Inr m))"])
    (simp_all add: demo_reading_defs)

lemma demo_reading_start:
  "demo_reading True [] [] [] [] 0 = reading_task_new list_chan 1 0 heuristics_default"
  by (simp add: demo_reading_def reading_task_new_def list_chan_def)

lemma demo_reading_two:
  "(reading_step bp 60000 list_chan)\<^sup>*\<^sup>* (reading_task_new list_chan 1 0 heuristics_default)
     (demo_reading True [4, 5] [4] [5] [] 0)"
  using demo_reading_read [of bp "[]" "[]" "[]" 4] demo_reading_process [of bp "[4]" "[]" 4 "[]" 0]
    demo_reading_read [of bp "[4]" "[4]" "[]" 5]
  unfolding demo_reading_start [symmetric] append.simps
  by (meson rtranclp.rtrancl_into_rtrancl rtranclp.rtrancl_refl)




definition pair_decoder :: "(unit, nat, nat list) decoder" where
  "pair_decoder c src =
     (if length src < 2 then (Inr None, c, src) else (Inr (Some (take 2 src)), c, drop 2 src))"


end
