(* ===== verification/Writing.thy ===== *)
theory Writing
  imports Protocols
begin

text \<open>
  The \<open>Writing\<close> protocol (\<open>pea2pea/src/protocols/writing.rs\<close>): queueing a message for a peer, the
  broadcast, the writer task that coalesces queued messages into batches, the accounting and the
  delivery notifications, and the registration of a connection's sender with its clean-up. Arguments:
  the user's encoder inside the framed writer of \<open>tokio_util\<close> (\<open>framed_ops\<close> with \<open>framed_contract\<close>), the
  bounded channels, and the moment the write timeout fires.
\<close>

section \<open>Queueing messages\<close>

definition enable_writing ::
  "bool \<Rightarrow> nat \<Rightarrow> task_id \<Rightarrow> ('sem node \<Rightarrow> 'sem node) \<Rightarrow> 'sem node \<Rightarrow> ('sem node \<times> task_id list) option"
where
  "enable_writing debug queue_depth handle meanwhile n =
     (if queue_depth = 0 then None
      else install_protocol_handler debug TaskWriting (slot_taken TaskWriting)
        (publish_slot TaskWriting) handle meanwhile n)"

text \<open>\<open>WrappedMessage\<close>; delivery notifications are named by numbers.\<close>

record 'm wrapped_message =
  wm_msg :: "'m option"
  wm_delivery :: "nat option"

definition wrapped_new :: "'m \<Rightarrow> bool \<Rightarrow> nat \<Rightarrow> 'm wrapped_message \<times> nat option" where
  "wrapped_new msg confirmation k =
     (let tx = (if confirmation then Some k else None)
      in (\<lparr>wm_msg = Some msg, wm_delivery = tx\<rparr>, tx))"

text \<open>The channels behind the type-erased senders: each has the type of its messages and its state.\<close>

type_synonym 'ch channels = "nat \<Rightarrow> nat \<times> 'ch"

text \<open>\<open>queue_message\<close> of a \<open>Writing\<close> implementation whose messages have type \<open>ty\<close>; \<open>k\<close> is a fresh
  notification.\<close>

definition queue_message ::
  "('m wrapped_message, 'ch) chan_ops \<Rightarrow> nat \<Rightarrow> nat \<Rightarrow> socket_addr \<Rightarrow> 'm \<Rightarrow> bool \<Rightarrow> 'sem node \<Rightarrow> 'ch channels
     \<Rightarrow> nat option io_result \<times> 'ch channels" where
  "queue_message ops ty k addr message confirm_delivery n chans =
     (case writing_handler (nd_protocols n) of
        None \<Rightarrow> (Inl (IoError Unsupported NoPayload), chans)
      | Some senders \<Rightarrow>
          (case fmlookup senders addr of
             None \<Rightarrow> (Inl (IoError NotConnected NoPayload), chans)
           | Some (_, sender) \<Rightarrow>
               (let (sender_ty, c) = chans sender in
                if sender_ty \<noteq> ty then (Inl (IoError Unsupported NoPayload), chans)
                else
                  (let (msg, delivery) = wrapped_new message confirm_delivery k in
                   case ch_try_send ops msg c of
                     Inr c' \<Rightarrow> (Inr delivery, chans(sender := (sender_ty, c')))
                   | Inl ChFull \<Rightarrow> (Inl (IoError QuotaExceeded NoPayload), chans)
                   | Inl ChClosed \<Rightarrow> (Inl (IoError BrokenPipe NoPayload), chans)))))"

text \<open>\<open>unicast\<close> unwraps the notification it requested; \<open>None\<close> would be a panic of that \<open>unwrap\<close>.\<close>

definition unicast ::
  "('m wrapped_message, 'ch) chan_ops \<Rightarrow> nat \<Rightarrow> nat \<Rightarrow> socket_addr \<Rightarrow> 'm \<Rightarrow> 'sem node \<Rightarrow> 'ch channels
     \<Rightarrow> (nat io_result \<times> 'ch channels) option" where
  "unicast ops ty k addr message n chans =
     (case queue_message ops ty k addr message True n chans of
        (Inl e, chans') \<Rightarrow> Some (Inl e, chans')
      | (Inr (Some delivery), chans') \<Rightarrow> Some (Inr delivery, chans')
      | (Inr None, _) \<Rightarrow> None)"

definition unicast_fast ::
  "('m wrapped_message, 'ch) chan_ops \<Rightarrow> nat \<Rightarrow> socket_addr \<Rightarrow> 'm \<Rightarrow> 'sem node \<Rightarrow> 'ch channels
     \<Rightarrow> unit io_result \<times> 'ch channels" where
  "unicast_fast ops ty addr message n chans =
     (case queue_message ops ty 0 addr message False n chans of
        (Inl e, chans') \<Rightarrow> (Inl e, chans')
      | (Inr _, chans') \<Rightarrow> (Inr (), chans'))"

text \<open>\<open>broadcast\<close>, with the addresses of the senders in the map's iteration order.\<close>

primrec broadcast_to ::
  "('m wrapped_message, 'ch) chan_ops \<Rightarrow> nat \<Rightarrow> 'm \<Rightarrow> 'sem node \<Rightarrow> socket_addr list \<Rightarrow> 'ch channels
     \<Rightarrow> unit io_result \<times> 'ch channels" where
  "broadcast_to ops ty message n [] chans = (Inr (), chans)"
| "broadcast_to ops ty message n (addr # addrs) chans =
     (case queue_message ops ty 0 addr message False n chans of
        (Inl e, chans') \<Rightarrow>
          if err_kind e = Unsupported then (Inl e, chans')
          else broadcast_to ops ty message n addrs chans'
      | (Inr _, chans') \<Rightarrow> broadcast_to ops ty message n addrs chans')"

definition broadcast ::
  "('m wrapped_message, 'ch) chan_ops \<Rightarrow> nat \<Rightarrow> 'm \<Rightarrow> socket_addr list \<Rightarrow> 'sem node \<Rightarrow> 'ch channels
     \<Rightarrow> unit io_result \<times> 'ch channels" where
  "broadcast ops ty message addrs n chans =
     (case writing_handler (nd_protocols n) of
        None \<Rightarrow> (Inl (IoError Unsupported NoPayload), chans)
      | Some _ \<Rightarrow> broadcast_to ops ty message n addrs chans)"

section \<open>Writing a batch\<close>

text \<open>The framed writer: readiness (which may flush), the length of the write buffer, encoding a
  message into it (\<open>None\<close>: the encoder panics), and the final flush.\<close>

record ('m, 'w) framed_ops =
  fw_ready :: "'w \<Rightarrow> unit io_result \<times> 'w"
  fw_buf_len :: "'w \<Rightarrow> nat"
  fw_start_send :: "'m \<Rightarrow> 'w \<Rightarrow> (unit io_result \<times> 'w) option"
  fw_flush :: "'w \<Rightarrow> unit io_result \<times> 'w"

text \<open>How the guarded write sequence ends.\<close>

datatype write_end = Wrote nat | WriteFailed io_error | WriteTimedOut | EncoderPanicked

text \<open>The \<open>write\<close> future of \<open>write_batch\<close>; \<open>fuel\<close> is the number of its waits the timeout lets pass.\<close>

fun feed_messages ::
  "('m, 'w) framed_ops \<Rightarrow> nat \<Rightarrow> 'm wrapped_message list \<Rightarrow> nat \<Rightarrow> 'w \<Rightarrow> write_end \<times> 'w" where
  "feed_messages fw 0 messages bytes w = (WriteTimedOut, w)"
| "feed_messages fw (Suc fuel) [] bytes w =
     (case fw_flush fw w of
        (Inl e, w') \<Rightarrow> (WriteFailed e, w')
      | (Inr _, w') \<Rightarrow> (Wrote bytes, w'))"
| "feed_messages fw (Suc fuel) (wrapped # messages) bytes w =
     (case wm_msg wrapped of
        None \<Rightarrow> (EncoderPanicked, w)
      | Some msg \<Rightarrow>
          (case fw_ready fw w of
             (Inl e, w1) \<Rightarrow> (WriteFailed e, w1)
           | (Inr _, w1) \<Rightarrow>
               (let prev = fw_buf_len fw w1 in
                case fw_start_send fw msg w1 of
                  None \<Rightarrow> (EncoderPanicked, w1)
                | Some (Inl e, w2) \<Rightarrow> (WriteFailed e, w2)
                | Some (Inr _, w2) \<Rightarrow>
                    feed_messages fw fuel messages (bytes + saturating_sub (fw_buf_len fw w2) prev) w2)))"

text \<open>\<open>write_batch\<close>: the number of messages and bytes written; \<open>None\<close> when the encoder panicked.\<close>

definition write_batch ::
  "('m, 'w) framed_ops \<Rightarrow> nat \<Rightarrow> 'm wrapped_message list \<Rightarrow> 'w \<Rightarrow> heuristics
     \<Rightarrow> (nat \<times> nat) io_result option \<times> 'w \<times> heuristics" where
  "write_batch fw fuel messages w h =
     (let msgs = length messages in
      case feed_messages fw fuel messages 0 w of
        (Wrote bytes, w') \<Rightarrow> (Some (Inr (msgs, bytes)), w', h)
      | (WriteFailed e, w') \<Rightarrow> (Some (Inl e), w', h)
      | (WriteTimedOut, w') \<Rightarrow>
          (Some (Inl (IoError TimedOut (Message ''write timed out''))), w', register_write_timeout h)
      | (EncoderPanicked, w') \<Rightarrow> (None, w', h))"

section \<open>The writer task\<close>

text \<open>\<open>recv_many\<close>: the messages already queued, up to the limit.\<close>

fun recv_upto :: "('m, 'ch) chan_ops \<Rightarrow> nat \<Rightarrow> 'ch \<Rightarrow> 'm list \<times> 'ch" where
  "recv_upto ops 0 c = ([], c)"
| "recv_upto ops (Suc limit) c =
     (case ch_recv ops c of
        Some (Some m, c') \<Rightarrow> (let (ms, c'') = recv_upto ops limit c' in (m # ms, c''))
      | _ \<Rightarrow> ([], c))"

text \<open>The state of the writer task, with what happened so far: the messages its queue accepted, those
  written, those of the batch that failed, and the notifications sent.\<close>

record ('m, 'ch, 'w) writer_task =
  wt_chan :: 'ch
  wt_framed :: 'w
  wt_conn_stats :: stats
  wt_node_stats :: stats
  wt_heuristics :: heuristics
  wt_running :: bool
  wt_accepted :: "'m wrapped_message list"
  wt_written :: "'m wrapped_message list"
  wt_failed :: "'m wrapped_message list"
  wt_notified :: "(nat \<times> unit io_result) list"

definition notifications :: "unit io_result \<Rightarrow> 'm wrapped_message list \<Rightarrow> (nat \<times> unit io_result) list" where
  "notifications r batch = map (\<lambda>k. (k, r)) (List.map_filter wm_delivery batch)"

text \<open>\<open>io::Error::to_string\<close>: the text of the payload, or else the standard text of the kind (that
  of an error of the operating system without its code).\<close>

fun kind_text :: "error_kind \<Rightarrow> string" where
  "kind_text AddrInUse = ''address in use''"
| "kind_text AddrNotAvailable = ''address not available''"
| "kind_text AlreadyExists = ''entity already exists''"
| "kind_text BrokenPipe = ''broken pipe''"
| "kind_text ConnectionAborted = ''connection aborted''"
| "kind_text ConnectionReset = ''connection reset''"
| "kind_text InvalidData = ''invalid data''"
| "kind_text InvalidInput = ''invalid input parameter''"
| "kind_text NotConnected = ''not connected''"
| "kind_text Other = ''other error''"
| "kind_text QuotaExceeded = ''quota exceeded''"
| "kind_text TimedOut = ''timed out''"
| "kind_text Unsupported = ''unsupported''"
| "kind_text (KindOs _) = ''os error''"

fun error_text :: "io_error \<Rightarrow> string" where
  "error_text (IoError k NoPayload) = kind_text k"
| "error_text (IoError k (Message text)) = text"
| "error_text (IoError k ShuttingDown) = ''shutting down''"

text \<open>One turn of the writer loop; \<open>None\<close> while it waits for a message.\<close>

definition writer_turn ::
  "('m wrapped_message, 'ch) chan_ops \<Rightarrow> ('m, 'w) framed_ops \<Rightarrow> nat \<Rightarrow> nat \<Rightarrow> ('m, 'ch, 'w) writer_task
     \<Rightarrow> ('m, 'ch, 'w) writer_task option" where
  "writer_turn ops fw queue_depth fuel s =
     (if ch_recv ops (wt_chan s) = None then None
      else
        (let (batch, c) = recv_upto ops queue_depth (wt_chan s) in
         if batch = [] then Some (s\<lparr>wt_running := False, wt_chan := ch_close ops c\<rparr>)
         else
           (let (r, w, h) = write_batch fw fuel batch (wt_framed s) (wt_heuristics s);
                s1 = s\<lparr>wt_chan := c, wt_framed := w, wt_heuristics := h\<rparr>
            in case r of
                 Some (Inr (msgs, bytes)) \<Rightarrow>
                   Some (s1\<lparr>wt_notified := wt_notified s1 @ notifications (Inr ()) batch,
                     wt_conn_stats := register_sent_messages msgs bytes (wt_conn_stats s1),
                     wt_node_stats := register_sent_messages msgs bytes (wt_node_stats s1),
                     wt_written := wt_written s1 @ batch\<rparr>)
               | Some (Inl e) \<Rightarrow>
                   Some (s1\<lparr>wt_notified := wt_notified s1
                       @ notifications (Inl (IoError (err_kind e) (Message (error_text e)))) batch,
                     wt_failed := batch, wt_running := False, wt_chan := ch_close ops c\<rparr>)
               | None \<Rightarrow>
                   Some (s1\<lparr>wt_failed := batch, wt_running := False, wt_chan := ch_close ops c\<rparr>))))"

inductive writer_step ::
  "('m wrapped_message, 'ch) chan_ops \<Rightarrow> ('m, 'w) framed_ops \<Rightarrow> nat \<Rightarrow> ('m, 'ch, 'w) writer_task
     \<Rightarrow> ('m, 'ch, 'w) writer_task \<Rightarrow> bool" for ops fw queue_depth where
  queued: "ch_try_send ops wrapped (wt_chan s) = Inr c \<Longrightarrow> wm_msg wrapped \<noteq> None
     \<Longrightarrow> writer_step ops fw queue_depth s (s\<lparr>wt_chan := c, wt_accepted := wt_accepted s @ [wrapped]\<rparr>)"
| senders_gone: "writer_step ops fw queue_depth s (s\<lparr>wt_chan := ch_drop_tx ops (wt_chan s)\<rparr>)"
| writes: "wt_running s \<Longrightarrow> writer_turn ops fw queue_depth fuel s = Some s'
     \<Longrightarrow> writer_step ops fw queue_depth s s'"

definition writer_task_new ::
  "('m wrapped_message, 'ch) chan_ops \<Rightarrow> nat \<Rightarrow> 'w \<Rightarrow> stats \<Rightarrow> stats \<Rightarrow> heuristics
     \<Rightarrow> ('m, 'ch, 'w) writer_task" where
  "writer_task_new ops queue_depth w cs ns h = \<lparr>wt_chan = ch_new ops queue_depth, wt_framed = w,
     wt_conn_stats = cs, wt_node_stats = ns, wt_heuristics = h, wt_running = True, wt_accepted = [],
     wt_written = [], wt_failed = [], wt_notified = []\<rparr>"

section \<open>Senders\<close>

definition adopt_writer ::
  "writing_senders \<Rightarrow> u64 \<Rightarrow> nat \<Rightarrow> task_id \<Rightarrow> connection \<Rightarrow> writing_senders \<times> connection" where
  "adopt_writer senders cid sender writer conn =
     (fmupd (conn_addr conn) (cid, sender) senders, conn\<lparr>conn_tasks := conn_tasks conn @ [writer]\<rparr>)"

text \<open>\<open>SenderCleanup::drop\<close>.\<close>

definition sender_cleanup :: "socket_addr \<Rightarrow> u64 \<Rightarrow> writing_senders \<Rightarrow> writing_senders" where
  "sender_cleanup addr cid senders =
     (case fmlookup senders addr of
        Some (i, _) \<Rightarrow> if i = cid then fmdrop addr senders else senders
      | None \<Rightarrow> senders)"

text \<open>The flush boundary of the framed writer: the initial buffer size raises it, never lowers it.\<close>

definition write_boundary :: "nat \<Rightarrow> nat \<Rightarrow> nat" where
  "write_boundary initial_buffer_size default_boundary =
     (if initial_buffer_size \<noteq> 0 then max default_boundary initial_buffer_size else default_boundary)"

text \<open>\<open>WritingInternal::handle_new_connection\<close> as a setup handler: \<open>codec\<close> is \<open>None\<close> when the construction
  of the encoder panics; \<open>sender\<close> names the message channel and \<open>writer\<close> the spawned task.\<close>

definition writing_handler_run ::
  "(socket_addr \<Rightarrow> connection_side \<Rightarrow> 'c option) \<Rightarrow> nat \<Rightarrow> task_id \<Rightarrow> 'sem setup_handler" where
  "writing_handler_run codec sender writer conn n =
     (case catch_setup_panic ''Writing::codec'' (codec (conn_addr conn) (side_not (conn_side conn))) of
        Inl e \<Rightarrow> (Some (Inl e), n)
      | Inr _ \<Rightarrow>
          (case conn_writer conn of
             None \<Rightarrow>
               (Some (Inl (IoError Other (Message ''the stream was not returned during the handshake''))), n)
           | Some _ \<Rightarrow>
               (let conn1 = conn\<lparr>conn_writer := None\<rparr>;
                    p = nd_protocols n;
                    (senders, conn2) =
                      adopt_writer (case writing_handler p of None \<Rightarrow> fmempty | Some m \<Rightarrow> m)
                        (conn_id conn1) sender writer conn1
                in (Some (Inr conn2),
                    if writing_handler p = None then n
                    else n\<lparr>nd_protocols := p\<lparr>writing_handler := Some senders\<rparr>\<rparr>))))"

section \<open>What a batch puts on the wire\<close>

text \<open>What is relied on of the framed writer, given the encoding of a message, the bytes already handed
  to the operating system and the bytes still buffered: readiness only moves bytes from the buffer to
  the system, encoding appends to the buffer, and a flush empties it.\<close>

definition framed_contract ::
  "('m, 'w) framed_ops \<Rightarrow> ('m \<Rightarrow> 'b list) \<Rightarrow> ('w \<Rightarrow> 'b list) \<Rightarrow> ('w \<Rightarrow> 'b list) \<Rightarrow> bool" where
  "framed_contract fw enc out buf \<longleftrightarrow>
     (\<forall>w. fw_buf_len fw w = length (buf w))
     \<and> (\<forall>w r w'. fw_ready fw w = (r, w') \<longrightarrow> out w' @ buf w' = out w @ buf w)
     \<and> (\<forall>m w u w'. fw_start_send fw m w = Some (Inr u, w') \<longrightarrow> out w' = out w \<and> buf w' = buf w @ enc m)
     \<and> (\<forall>w u w'. fw_flush fw w = (Inr u, w') \<longrightarrow> out w' = out w @ buf w \<and> buf w' = [])"

definition wire :: "('m \<Rightarrow> 'b list) \<Rightarrow> 'm wrapped_message list \<Rightarrow> 'b list" where
  "wire enc ms = concat (map (\<lambda>w. case wm_msg w of None \<Rightarrow> [] | Some m \<Rightarrow> enc m) ms)"

lemma wire_simps [simp]:
  "wire enc [] = []" "wire enc (xs @ ys) = wire enc xs @ wire enc ys"
  "wire enc (w # ms) = (case wm_msg w of None \<Rightarrow> [] | Some m \<Rightarrow> enc m) @ wire enc ms"
  by (simp_all add: wire_def)

lemma feed_messages_wrote:
  assumes "framed_contract fw enc out buf"
    and "feed_messages fw fuel ms b w = (Wrote bytes, w')"
  shows "out w' = (out w @ buf w) @ wire enc ms \<and> buf w' = [] \<and> bytes = b + length (wire enc ms)"
  using assms
proof (induction fw fuel ms b w rule: feed_messages.induct)
  case (2 fw fuel b w)
  then show ?case
    by (auto simp: framed_contract_def split: prod.splits sum.splits)
next
  case (3 fw fuel wrapped ms b w)
  from 3(3) obtain msg u1 w1 u2 w2 where step: "wm_msg wrapped = Some msg" "fw_ready fw w = (Inr u1, w1)"
    "fw_start_send fw msg w1 = Some (Inr u2, w2)"
    "feed_messages fw fuel ms (b + (fw_buf_len fw w2 - fw_buf_len fw w1)) w2 = (Wrote bytes, w')"
    by (auto simp: Let_def split: option.splits prod.splits sum.splits)
  have moved: "out w1 @ buf w1 = out w @ buf w" "out w2 = out w1" "buf w2 = buf w1 @ enc msg"
    "fw_buf_len fw w2 - fw_buf_len fw w1 = length (enc msg)"
    using 3(2) step(2,3) by (auto simp: framed_contract_def)
  have "out w' = (out w2 @ buf w2) @ wire enc ms \<and> buf w' = []
      \<and> bytes = b + length (enc msg) + length (wire enc ms)"
    using 3(1) [OF step(1) step(2) [symmetric] refl refl step(3) refl refl 3(2)] step(4) moved(4) by simp
  with moved(1) show ?case
    by (simp add: step(1) moved(2,3))
qed simp

text \<open>Receiving in bulk takes the front of the queue.\<close>

lemma recv_upto_view:
  assumes "channel_contract ops view" and "recv_upto ops k c = (ms, c')"
  shows "ms = take k (cv_queue (view c)) \<and> view c' = (view c)\<lparr>cv_queue := drop k (cv_queue (view c))\<rparr>"
  using assms(2)
proof (induction k arbitrary: c ms)
  case (Suc k)
  show ?case
    using assms(1)
  proof (cases rule: channel_recv_cases [where c = c])
    case (item m q c1)
    then obtain ms1 where "recv_upto ops k c1 = (ms1, c')" "ms = m # ms1"
      using Suc.prems by (auto split: prod.splits)
    with Suc.IH [of c1 ms1] item show ?thesis by simp
  qed (use Suc.prems in auto)
qed auto

lemma write_batch_Inr:
  assumes "framed_contract fw enc out buf"
    and "write_batch fw fuel batch w h = (Some (Inr (msgs, bytes)), w', h')"
  shows "out w' = (out w @ buf w) @ wire enc batch" and "buf w' = []" and "h' = h"
    and "msgs = length batch" and "bytes = length (wire enc batch)"
proof -
  obtain b where *: "feed_messages fw fuel batch 0 w = (Wrote b, w')" "h' = h" "msgs = length batch" "bytes = b"
    using assms(2) by (auto simp: write_batch_def Let_def split: prod.splits write_end.splits)
  with feed_messages_wrote [OF assms(1) *(1)]
  show "out w' = (out w @ buf w) @ wire enc batch" "buf w' = []" "h' = h"
    "msgs = length batch" "bytes = length (wire enc batch)" by simp_all
qed

lemma notifications_append [simp]:
  "notifications r (xs @ ys) = notifications r xs @ notifications r ys" "notifications r [] = []"
  by (simp_all add: notifications_def List.map_filter_def)

text \<open>What holds of the writer task at every moment. A running writer has nothing buffered between
  its turns.\<close>

definition writer_inv ::
  "('m \<Rightarrow> 'b list) \<Rightarrow> ('w \<Rightarrow> 'b list) \<Rightarrow> ('w \<Rightarrow> 'b list) \<Rightarrow> ('ch \<Rightarrow> 'm wrapped_message chan_view)
     \<Rightarrow> nat \<Rightarrow> stats \<Rightarrow> stats \<Rightarrow> ('m, 'ch, 'w) writer_task \<Rightarrow> bool" where
  "writer_inv enc out buf view depth cs ns s \<longleftrightarrow>
     wt_accepted s = wt_written s @ wt_failed s @ cv_queue (view (wt_chan s))
     \<and> cv_cap (view (wt_chan s)) = depth \<and> length (cv_queue (view (wt_chan s))) \<le> depth
     \<and> (wt_running s \<longrightarrow> wt_failed s = [] \<and> out (wt_framed s) = wire enc (wt_written s)
          \<and> buf (wt_framed s) = [] \<and> wt_notified s = notifications (Inr ()) (wt_written s))
     \<and> (wt_notified s = notifications (Inr ()) (wt_written s)
        \<or> (\<exists>e. wt_notified s
              = notifications (Inr ()) (wt_written s) @ notifications (Inl e) (wt_failed s)))
     \<and> stats_sent (wt_conn_stats s) = (fetch_add (msgs_sent cs) (length (wt_written s)),
          fetch_add (bytes_sent cs) (length (wire enc (wt_written s))))
     \<and> stats_sent (wt_node_stats s) = (fetch_add (msgs_sent ns) (length (wt_written s)),
          fetch_add (bytes_sent ns) (length (wire enc (wt_written s))))"

lemma writer_sent_inv:
  assumes fw: "framed_contract fw enc out buf" and inv: "writer_inv enc out buf view depth cs ns s"
    and "wt_running s" and rc: "cv_queue (view (wt_chan s)) = batch @ cv_queue (view c)"
      "cv_cap (view c) = depth" "length (cv_queue (view c)) \<le> depth"
    and wb: "write_batch fw fuel batch (wt_framed s) (wt_heuristics s) = (Some (Inr (msgs, bytes)), w, h)"
  shows "writer_inv enc out buf view depth cs ns (s\<lparr>wt_chan := c, wt_framed := w, wt_heuristics := h,
      wt_notified := wt_notified s @ notifications (Inr ()) batch,
      wt_conn_stats := register_sent_messages msgs bytes (wt_conn_stats s),
      wt_node_stats := register_sent_messages msgs bytes (wt_node_stats s),
      wt_written := wt_written s @ batch\<rparr>)"
proof -
  note run = inv [unfolded writer_inv_def] assms(3)
  note wr = write_batch_Inr [OF fw wb]
  have sent: "stats_sent (register_sent_messages msgs bytes (wt_conn_stats s))
      = (fetch_add (msgs_sent cs) (length (wt_written s @ batch)),
         fetch_add (bytes_sent cs) (length (wire enc (wt_written s @ batch))))"
    "stats_sent (register_sent_messages msgs bytes (wt_node_stats s))
      = (fetch_add (msgs_sent ns) (length (wt_written s @ batch)),
         fetch_add (bytes_sent ns) (length (wire enc (wt_written s @ batch))))"
    using run(1) wr(4,5) by (simp_all add: register_sent_messages_def stats_sent_def fetch_add_fetch_add Let_def)
  have wires: "out w = wire enc (wt_written s @ batch)" using run wr(1) by simp
  show ?thesis
    using run rc wr(2) sent wires unfolding writer_inv_def by simp
qed

lemma writer_turn_inv:
  assumes ch: "channel_contract ops view" and fw: "framed_contract fw enc out buf"
    and inv: "writer_inv enc out buf view depth cs ns s" and "wt_running s"
    and turn: "writer_turn ops fw limit fuel s = Some s'"
  shows "writer_inv enc out buf view depth cs ns s'"
proof -
  obtain batch c where rc: "recv_upto ops limit (wt_chan s) = (batch, c)" by fastforce
  note rv = recv_upto_view [OF ch rc]
  have q: "cv_queue (view (wt_chan s)) = batch @ cv_queue (view c)" using rv by simp
  have cap: "cv_cap (view c) = depth" "length (cv_queue (view c)) \<le> depth"
    using rv inv by (auto simp: writer_inv_def)
  note run = inv [unfolded writer_inv_def] assms(4)
  show ?thesis
  proof (cases "batch = []")
    case True
    then have "s' = s\<lparr>wt_running := False, wt_chan := ch_close ops c\<rparr>"
      using turn rc by (simp add: writer_turn_def split: if_splits)
    with run q cap True show ?thesis by (simp add: writer_inv_def channel_close [OF ch])
  next
    case False
    obtain r w h where wb: "write_batch fw fuel batch (wt_framed s) (wt_heuristics s) = (r, w, h)"
      by (metis prod_cases3)
    consider (ok) msgs bytes where "r = Some (Inr (msgs, bytes))" | (err) e where "r = Some (Inl e)"
      | (panic) "r = None" by (metis old.prod.exhaust option.exhaust sumE)
    then show ?thesis
    proof cases
      case ok
      have "s' = s\<lparr>wt_chan := c, wt_framed := w, wt_heuristics := h,
          wt_notified := wt_notified s @ notifications (Inr ()) batch,
          wt_conn_stats := register_sent_messages msgs bytes (wt_conn_stats s),
          wt_node_stats := register_sent_messages msgs bytes (wt_node_stats s),
          wt_written := wt_written s @ batch\<rparr>"
        using turn rc False wb ok by (simp add: writer_turn_def Let_def split: if_splits)
      with writer_sent_inv [OF fw inv assms(4) q cap wb [unfolded ok]] show ?thesis by simp
    next
      case err
      have s': "s' = s\<lparr>wt_framed := w, wt_heuristics := h,
          wt_notified := wt_notified s @ notifications (Inl (IoError (err_kind e) (Message (error_text e)))) batch,
          wt_failed := batch, wt_running := False, wt_chan := ch_close ops c\<rparr>"
        using turn rc False wb err by (auto simp: writer_turn_def Let_def split: if_splits)
      show ?thesis
        using run q cap unfolding s' writer_inv_def by (auto simp: channel_close [OF ch])
    next
      case panic
      have "s' = s\<lparr>wt_framed := w, wt_heuristics := h,
          wt_failed := batch, wt_running := False, wt_chan := ch_close ops c\<rparr>"
        using turn rc False wb panic by (auto simp: writer_turn_def Let_def split: if_splits)
      with run q cap show ?thesis
        by (simp add: writer_inv_def channel_close [OF ch])
    qed
  qed
qed

lemma writer_reachable:
  assumes ch: "channel_contract ops view" and fw: "framed_contract fw enc out buf"
    and "out w = []" and "buf w = []"
    and "(writer_step ops fw limit)\<^sup>*\<^sup>* (writer_task_new ops depth w cs ns h) s"
  shows "writer_inv enc out buf view depth cs ns s"
  using assms(5)
proof (induction rule: rtranclp_induct)
  case base
  show ?case
    by (simp add: writer_inv_def writer_task_new_def channel_new [OF ch] assms(3,4) stats_sent_def)
next
  case (step s s')
  from step.hyps(2) show ?case
  proof cases
    case (queued wrapped c)
    with step.IH channel_send [OF ch queued(2)] show ?thesis
      by (simp add: writer_inv_def)
  next
    case senders_gone
    with step.IH show ?thesis by (simp add: writer_inv_def channel_close [OF ch])
  next
    case (writes fuel)
    then show ?thesis by (blast intro: writer_turn_inv [OF ch fw step.IH])
  qed
qed

section \<open>Sending to a peer that keeps up\<close>

text \<open>The queue of outbound messages of a peer, with room for some more of them.\<close>

definition outbox ::
  "('ch \<Rightarrow> 'm wrapped_message chan_view) \<Rightarrow> nat \<Rightarrow> 'sem node \<Rightarrow> socket_addr \<Rightarrow> 'm wrapped_message list \<Rightarrow> nat
     \<Rightarrow> 'ch channels \<Rightarrow> bool" where
  "outbox view ty n a q room chans \<longleftrightarrow>
     (\<exists>senders cid sd c. writing_handler (nd_protocols n) = Some senders
        \<and> fmlookup senders a = Some (cid, sd) \<and> chans sd = (ty, c)
        \<and> \<not> cv_closed (view c) \<and> cv_queue (view c) = q \<and> length q + room \<le> cv_cap (view c))"

abbreviation plain :: "'m \<Rightarrow> 'm wrapped_message" where
  "plain m \<equiv> \<lparr>wm_msg = Some m, wm_delivery = None\<rparr>"

lemma unicast_fast_outbox:
  assumes "channel_contract ops view" and "outbox view ty n a q (Suc room) chans"
  shows "\<exists>chans'. unicast_fast ops ty a m n chans = (Inr (), chans') \<and> outbox view ty n a (q @ [plain m]) room chans'"
proof -
  obtain senders cid sd c where s: "writing_handler (nd_protocols n) = Some senders"
      "fmlookup senders a = Some (cid, sd)" "chans sd = (ty, c)" "\<not> cv_closed (view c)"
      "cv_queue (view c) = q" "length q + Suc room \<le> cv_cap (view c)"
    using assms(2) by (auto simp: outbox_def)
  obtain c' where c': "ch_try_send ops (plain m) c = Inr c'"
  proof (cases "ch_try_send ops (plain m) c")
    case (Inl e)
    then show ?thesis
      using channel_send_error [OF assms(1) Inl] s(4,5,6) by (cases e) simp_all
  qed (use that in blast)
  have "unicast_fast ops ty a m n chans = (Inr (), chans(sd := (ty, c')))"
    using s(1,2,3) c' by (simp add: unicast_fast_def queue_message_def wrapped_new_def Let_def)
  moreover have "outbox view ty n a (q @ [plain m]) room (chans(sd := (ty, c')))"
    using s channel_send(3) [OF assms(1) c'] by (auto simp: outbox_def)
  ultimately show ?thesis by blast
qed

section \<open>Properties\<close>

text \<open>C26: Queueing a message follows its documented error contract on every branch. A refused message
  changes no queue; an accepted one is appended to the queue of exactly the addressed peer, with a
  notification if and only if one was requested.\<close>

theorem queue_message_contract:
  assumes "channel_contract ops view"
  shows "case queue_message ops ty k addr m confirm n chans of
      (Inl e, chans') \<Rightarrow> chans' = chans \<and>
        (case writing_handler (nd_protocols n) of
           None \<Rightarrow> err_kind e = Unsupported
         | Some senders \<Rightarrow>
             (case fmlookup senders addr of
                None \<Rightarrow> err_kind e = NotConnected
              | Some (i, sd) \<Rightarrow>
                  (let v = view (snd (chans sd)) in
                   if fst (chans sd) \<noteq> ty then err_kind e = Unsupported
                   else if cv_closed v then err_kind e = BrokenPipe
                   else err_kind e = QuotaExceeded \<and> cv_cap v \<le> length (cv_queue v))))
    | (Inr d, chans') \<Rightarrow> d = (if confirm then Some k else None) \<and>
        (\<exists>senders i sd c'. writing_handler (nd_protocols n) = Some senders
          \<and> fmlookup senders addr = Some (i, sd) \<and> fst (chans sd) = ty \<and> chans' = chans(sd := (ty, c'))
          \<and> view c' = (view (snd (chans sd)))\<lparr>cv_queue := cv_queue (view (snd (chans sd)))
              @ [\<lparr>wm_msg = Some m, wm_delivery = d\<rparr>]\<rparr>)"
proof (cases "\<exists>senders i sd. writing_handler (nd_protocols n) = Some senders
    \<and> fmlookup senders addr = Some (i, sd) \<and> fst (chans sd) = ty")
  case False
  then show ?thesis
    by (auto simp: queue_message_def Let_def split: option.splits prod.splits)
next
  case True
  then obtain senders i sd where s: "writing_handler (nd_protocols n) = Some senders"
    "fmlookup senders addr = Some (i, sd)" "fst (chans sd) = ty" by blast
  obtain c where c: "chans sd = (ty, c)" using s(3) by (cases "chans sd") simp
  let ?w = "fst (wrapped_new m confirm k)"
  show ?thesis
  proof (cases "ch_try_send ops ?w c")
    case (Inr c')
    have q: "queue_message ops ty k addr m confirm n chans
        = (Inr (if confirm then Some k else None), chans(sd := (ty, c')))"
      using s(1,2) c Inr by (simp add: queue_message_def wrapped_new_def Let_def)
    have "view c' = (view (snd (chans sd)))\<lparr>cv_queue := cv_queue (view (snd (chans sd)))
        @ [\<lparr>wm_msg = Some m, wm_delivery = (if confirm then Some k else None)\<rparr>]\<rparr>"
      using channel_send(3) [OF assms Inr] c by (simp add: wrapped_new_def Let_def)
    with s show ?thesis unfolding q by auto
  next
    case (Inl e)
    with s c channel_send_error [OF assms Inl] show ?thesis
      by (cases e) (simp_all add: queue_message_def wrapped_new_def Let_def)
  qed
qed

theorem queue_message_contract_witness:
  "err_kind (projl (fst (queue_message list_chan 0 5 demo_addr (7 :: nat) True
     (demo_node\<lparr>nd_protocols := protocols_default\<lparr>writing_handler :=
        Some (fmupd demo_addr (1, 3) fmempty)\<rparr>\<rparr>)
     (\<lambda>_. (0, \<lparr>cv_cap = 0, cv_queue = [], cv_closed = False, cv_tx = True\<rparr>))))) = QuotaExceeded"
  (is "err_kind (projl (fst (queue_message _ _ _ _ _ _ ?n ?chans))) = _")
proof -
  have "\<exists>e. queue_message list_chan 0 5 demo_addr (7 :: nat) True ?n ?chans = (Inl e, ?chans)"
    by (simp add: queue_message_def wrapped_new_def Let_def list_chan_def)
  then obtain e where e: "queue_message list_chan 0 5 demo_addr (7 :: nat) True ?n ?chans = (Inl e, ?chans)" ..
  with queue_message_contract [OF list_chan_contract, where ty = 0 and k = 5 and addr = demo_addr
      and m = 7 and confirm = True and n = ?n and chans = ?chans]
  show ?thesis by simp
qed

text \<open>What offering a message to a channel leaves of it.\<close>

definition offered :: "('m wrapped_message, 'ch) chan_ops \<Rightarrow> 'm \<Rightarrow> nat \<times> 'ch \<Rightarrow> nat \<times> 'ch" where
  "offered ops m tc = (fst tc, case ch_try_send ops \<lparr>wm_msg = Some m, wm_delivery = None\<rparr> (snd tc) of
     Inr c \<Rightarrow> c | Inl _ \<Rightarrow> snd tc)"

lemma queue_message_offers:
  assumes "writing_handler (nd_protocols n) = Some senders" and "fmlookup senders addr = Some (i, sd)"
    and "fst (chans sd) = ty"
  shows "\<exists>r. queue_message ops ty 0 addr m False n chans = (r, chans(sd := offered ops m (chans sd)))
    \<and> (\<forall>e. r = Inl e \<longrightarrow> err_kind e \<noteq> Unsupported)"
proof -
  obtain c where c: "chans sd = (ty, c)" using assms(3) by (cases "chans sd") simp
  show ?thesis
  proof (cases "ch_try_send ops \<lparr>wm_msg = Some m, wm_delivery = None\<rparr> c")
    case (Inl e)
    have "chans(sd := (ty, c)) = chans" using c by auto
    with Inl assms(1,2) c show ?thesis
      by (cases e) (simp_all add: queue_message_def wrapped_new_def Let_def offered_def)
  qed (use assms(1,2) c in \<open>simp add: queue_message_def wrapped_new_def Let_def offered_def\<close>)
qed

lemma broadcast_to_offers:
  assumes "writing_handler (nd_protocols n) = Some senders" and "distinct addrs"
    and "\<And>a. a \<in> set addrs \<Longrightarrow> \<exists>i sd. fmlookup senders a = Some (i, sd) \<and> fst (chans sd) = ty"
    and "\<And>a b i j sd. fmlookup senders a = Some (i, sd) \<Longrightarrow> fmlookup senders b = Some (j, sd) \<Longrightarrow> a = b"
  shows "broadcast_to ops ty m n addrs chans = (Inr (), \<lambda>sd.
    if \<exists>a \<in> set addrs. \<exists>i. fmlookup senders a = Some (i, sd) then offered ops m (chans sd) else chans sd)"
  using assms(2,3)
proof (induction addrs arbitrary: chans)
  case (Cons a addrs)
  from Cons.prems(2) [of a] obtain i sd where sd: "fmlookup senders a = Some (i, sd)" "fst (chans sd) = ty"
    by auto
  let ?chans = "chans(sd := offered ops m (chans sd))"
  obtain r where r: "queue_message ops ty 0 a m False n chans = (r, ?chans)"
    "\<forall>e. r = Inl e \<longrightarrow> err_kind e \<noteq> Unsupported"
    using queue_message_offers [where chans = chans and ops = ops and m = m, OF assms(1) sd] by (elim exE conjE)
  have next_: "broadcast_to ops ty m n (a # addrs) chans = broadcast_to ops ty m n addrs ?chans"
    using r by (cases r) auto
  have ty: "\<exists>i sd. fmlookup senders b = Some (i, sd) \<and> fst (?chans sd) = ty" if "b \<in> set addrs" for b
    using Cons.prems(2) [of b] that sd(2) by (auto simp: offered_def)
  have other: "\<not> (\<exists>b \<in> set addrs. \<exists>i. fmlookup senders b = Some (i, sd))"
    using Cons.prems(1) assms(4) [OF sd(1)] by (metis distinct.simps(2))
  have ex: "(\<exists>b \<in> set (a # addrs). \<exists>i. fmlookup senders b = Some (i, x))
      \<longleftrightarrow> x = sd \<or> (\<exists>b \<in> set addrs. \<exists>i. fmlookup senders b = Some (i, x))" for x
    using sd(1) by auto
  have "broadcast_to ops ty m n addrs ?chans = (Inr (), \<lambda>x.
      if \<exists>b \<in> set addrs. \<exists>i. fmlookup senders b = Some (i, x) then offered ops m (?chans x) else ?chans x)"
    using Cons.prems(1) by (intro Cons.IH ty) simp_all
  with other show ?case
    unfolding next_ ex by (auto simp: fun_eq_iff)
qed simp

text \<open>A broadcast succeeds as a whole and offers the message to every connected peer exactly once:
  each peer whose queue is open and has room gets it, the queues of the others are unchanged, and no
  peer's failure keeps it from another.\<close>

lemma broadcast_reaches_all:
  assumes "channel_contract ops view" and "writing_handler (nd_protocols n) = Some senders"
    and "distinct addrs" and "set addrs = fset (fmdom senders)"
    and "\<And>a i sd. fmlookup senders a = Some (i, sd) \<Longrightarrow> fst (chans sd) = ty"
    and "\<And>a b i j sd. fmlookup senders a = Some (i, sd) \<Longrightarrow> fmlookup senders b = Some (j, sd) \<Longrightarrow> a = b"
    and "fmlookup senders a = Some (i, sd)"
  shows "fst (broadcast ops ty m addrs n chans) = Inr ()
    \<and> (let v = view (snd (chans sd)) in
       view (snd (snd (broadcast ops ty m addrs n chans) sd)) =
         (if cv_closed v \<or> cv_cap v \<le> length (cv_queue v) then v
          else v\<lparr>cv_queue := cv_queue v @ [\<lparr>wm_msg = Some m, wm_delivery = None\<rparr>]\<rparr>))"
proof -
  have "\<exists>i sd. fmlookup senders b = Some (i, sd) \<and> fst (chans sd) = ty" if "b \<in> set addrs" for b
    using that assms(4,5) by (fastforce simp: fmlookup_dom_iff)
  then have run: "broadcast_to ops ty m n addrs chans = (Inr (), \<lambda>x.
      if \<exists>b \<in> set addrs. \<exists>i. fmlookup senders b = Some (i, x) then offered ops m (chans x) else chans x)"
    by (rule broadcast_to_offers [OF assms(2,3) _ assms(6)])
  have in_: "\<exists>b \<in> set addrs. \<exists>i. fmlookup senders b = Some (i, sd)"
    using assms(4,7) by (auto simp: fmlookup_dom_iff)
  have "view (snd (offered ops m (chans sd))) = (let v = view (snd (chans sd)) in
      if cv_closed v \<or> cv_cap v \<le> length (cv_queue v) then v
      else v\<lparr>cv_queue := cv_queue v @ [\<lparr>wm_msg = Some m, wm_delivery = None\<rparr>]\<rparr>)"
  proof (cases "ch_try_send ops \<lparr>wm_msg = Some m, wm_delivery = None\<rparr> (snd (chans sd))")
    case (Inl e)
    then show ?thesis
      using channel_send_error [OF assms(1) Inl] by (cases e) (simp_all add: offered_def Let_def)
  next
    case (Inr c)
    then show ?thesis
      using channel_send [OF assms(1) Inr] by (simp add: offered_def Let_def)
  qed
  with run in_ assms(2) show ?thesis by (simp add: broadcast_def)
qed


text \<open>A framed writer over two lists, the sent and the buffered bytes, that flushes when made ready.\<close>

definition list_framed :: "(nat, nat list \<times> nat list) framed_ops" where
  "list_framed = \<lparr>fw_ready = (\<lambda>(o1, b). (Inr (), (o1 @ b, []))), fw_buf_len = (\<lambda>(o1, b). length b),
     fw_start_send = (\<lambda>m (o1, b). Some (Inr (), (o1, b @ [1, m]))),
     fw_flush = (\<lambda>(o1, b). (Inr (), (o1 @ b, [])))\<rparr>"

lemma list_framed_contract: "framed_contract list_framed (\<lambda>m. [1, m]) fst snd"
  by (auto simp: framed_contract_def list_framed_def)




end
