(* ===== verification/Hooks.thy ===== *)
theory Hooks
  imports Protocols
begin

text \<open>
  The hook protocols \<open>OnConnect\<close> and \<open>OnDisconnect\<close> (\<open>pea2pea/src/protocols/on_connect.rs\<close> and
  \<open>on_disconnect.rs\<close>): what their handlers do with a trigger, and how the task they spawn for the
  user's hook ends. The hook itself is an argument: it returns, panics, or runs into its timeout.
\<close>

section \<open>OnConnect\<close>

definition enable_on_connect ::
  "bool \<Rightarrow> task_id \<Rightarrow> ('sem node \<Rightarrow> 'sem node) \<Rightarrow> 'sem node \<Rightarrow> ('sem node \<times> task_id list) option" where
  "enable_on_connect debug handle meanwhile n =
     install_protocol_handler debug TaskOnConnect (slot_taken TaskOnConnect)
       (publish_slot TaskOnConnect) handle meanwhile n"

text \<open>How the spawned task ends: it was aborted before its first poll, so that it never armed its
  guard; or the hook returned, panicked, or was aborted while it ran.\<close>

datatype hook_end = NeverPolled | HookReturned | HookPanicked panic_payload | HookAborted

definition on_connect_guard :: "hook_end \<Rightarrow> socket_addr \<Rightarrow> u64 \<Rightarrow> disconnect_on_drop option" where
  "on_connect_guard r addr cid =
     (let conn_cleanup = dod_new addr cid OriginOnConnectAbort in
      case r of
        NeverPolled \<Rightarrow> None
      | HookReturned \<Rightarrow> Some (dod_defuse conn_cleanup)
      | HookPanicked _ \<Rightarrow> Some conn_cleanup
      | HookAborted \<Rightarrow> Some conn_cleanup)"

text \<open>The disconnect spawned when the task is over.\<close>

definition on_connect_recovery ::
  "bool \<Rightarrow> hook_end \<Rightarrow> socket_addr \<Rightarrow> u64 \<Rightarrow> 'sem node
     \<Rightarrow> (socket_addr \<times> disconnect_origin \<times> u64 option) option" where
  "on_connect_recovery runtime r addr cid n =
     (case on_connect_guard r addr cid of None \<Rightarrow> None | Some g \<Rightarrow> dod_drop runtime g n)"

text \<open>Handling a trigger: the response sent to the node's scheduling task, and the task aborted when
  that one is gone (\<open>listening\<close> is false).\<close>

definition on_connect_process ::
  "bool \<Rightarrow> bool \<Rightarrow> task_id \<Rightarrow> (task_id \<times> bool) option \<times> task_id list" where
  "on_connect_process abortable listening handle =
     (if listening then (Some (handle, abortable), [])
      else (None, if abortable then [handle] else []))"

section \<open>OnDisconnect\<close>

definition enable_on_disconnect ::
  "bool \<Rightarrow> task_id \<Rightarrow> ('sem node \<Rightarrow> 'sem node) \<Rightarrow> 'sem node \<Rightarrow> ('sem node \<times> task_id list) option" where
  "enable_on_disconnect debug handle meanwhile n =
     install_protocol_handler debug TaskOnDisconnect (slot_taken TaskOnDisconnect)
       (publish_slot TaskOnDisconnect) handle meanwhile n"

text \<open>The completion the spawned task reports: a panic (\<open>Completed (Inl _)\<close>) unwinds before the
  notification and drops its sender instead. Either resolves the wait of \<open>disconnect_w_origin\<close>.\<close>

definition on_disconnect_done :: "(panic_payload + unit) timed \<Rightarrow> unit option" where
  "on_disconnect_done r =
     (case r of
        Completed (Inr _) \<Rightarrow> Some ()
      | Completed (Inl _) \<Rightarrow> None
      | Elapsed \<Rightarrow> Some ())"

definition on_disconnect_process :: "bool \<Rightarrow> task_id \<Rightarrow> task_id option \<times> task_id list" where
  "on_disconnect_process listening handle = (if listening then (Some handle, []) else (None, [handle]))"

section \<open>Properties\<close>

lemma disconnect_removes:
  assumes "limits_wf (limits (nd_connections n))"
    and "fmlookup (active (nd_connections n)) a = Some c" and "\<not> disconnecting c"
    and "0 < ip_charge (limits (nd_connections n)) (canonical_ip a)"
    and "cid = None \<or> cid = Some (conn_id c)"
  shows "\<exists>n' ts. disconnect_w_origin debug hs a og cid n = Some (True, n', ts)
    \<and> fmlookup (active (nd_connections n')) a = None
    \<and> (\<forall>b. b \<noteq> a \<longrightarrow> fmlookup (active (nd_connections n')) b = fmlookup (active (nd_connections n)) b)"
proof -
  let ?n1 = "n\<lparr>nd_connections := (nd_connections n)\<lparr>active :=
    fmupd a (c\<lparr>disconnecting := True\<rparr>) (active (nd_connections n))\<rparr>\<rparr>"
  have claim: "claim_disconnect a cid n = Some ?n1"
    using assms(2,3,5) by (auto simp: claim_disconnect_def Let_def)
  define hook where "hook = (if has_on_disconnect (nd_protocols ?n1)
    then (case od_response hs a og of None \<Rightarrow> Some ?n1
          | Some handle \<Rightarrow> map_option snd (attach_on_disconnect debug handle a ?n1)) else Some ?n1)"
  have "\<exists>n2 c2. hook = Some n2 \<and> limits (nd_connections n2) = limits (nd_connections n)
      \<and> active (nd_connections n2) = fmupd a c2 (active (nd_connections n))"
    by (auto simp: hook_def attach_on_disconnect_def Let_def split: option.split)
  then obtain n2 c2 where n2: "hook = Some n2" "limits (nd_connections n2) = limits (nd_connections n)"
    "active (nd_connections n2) = fmupd a c2 (active (nd_connections n))" by blast
  let ?n3 = "finalizer_senders a n2"
  have n3: "nd_connections ?n3 = nd_connections n2" by (simp add: finalizer_senders_def)
  obtain l where "finalizer_remove debug a ?n3 = Some (connection_drop c2,
      ?n3\<lparr>nd_connections := \<lparr>active = fmdrop a (active (nd_connections ?n3)), limits = l,
        drain_notify = drain_notify (nd_connections ?n3) + 1\<rparr>\<rparr>)"
    by (rule finalizer_remove_active [of ?n3 a c2 debug]) (use n2 n3 assms(1,4) in auto)
  moreover have "disconnect_w_origin debug hs a og cid n = (case hook of None \<Rightarrow> None
      | Some n2 \<Rightarrow> map_option (\<lambda>(aborted, n3). (True, n3, aborted)) (finalizer_drop debug a n2))"
    unfolding disconnect_w_origin_def claim hook_def option.case ..
  ultimately show ?thesis
    using n2 n3 by (simp add: finalizer_drop_def)
qed

text \<open>C28: A connection whose \<open>OnConnect\<close> hook returns is left alone. One whose hook panics, or is aborted
  while it runs, is disconnected: if it is still the same, live instance, the disconnect spawned by the
  guard takes it (and no other connection) out of the active set.\<close>

theorem on_connect_panic_disconnects:
  assumes "limits_wf (limits (nd_connections n))"
    and "fmlookup (active (nd_connections n)) a = Some c" and "\<not> disconnecting c"
    and "0 < ip_charge (limits (nd_connections n)) (canonical_ip a)"
  shows "on_connect_recovery rt HookReturned a (conn_id c) n = None
    \<and> on_connect_recovery rt NeverPolled a (conn_id c) n = None
    \<and> (\<forall>r. r = HookPanicked p \<or> r = HookAborted \<longrightarrow>
        (\<exists>og cid n' ts. on_connect_recovery True r a (conn_id c) n = Some (a, og, cid)
          \<and> disconnect_w_origin debug hs a og cid n = Some (True, n', ts)
          \<and> fmlookup (active (nd_connections n')) a = None
          \<and> (\<forall>b. b \<noteq> a \<longrightarrow>
              fmlookup (active (nd_connections n')) b = fmlookup (active (nd_connections n)) b)))"
  using assms(2,3) disconnect_removes [OF assms(1-4), of "Some (conn_id c)"]
  by (auto simp: on_connect_recovery_def on_connect_guard_def dod_drop_def dod_new_def dod_defuse_def
      needs_recovery_def)

theorem on_connect_panic_disconnects_witness:
  "\<exists>(n :: nat node) n' ts. is_connected n demo_addr \<and> on_connect_recovery True HookAborted demo_addr 5 n
       = Some (demo_addr, OriginOnConnectAbort, Some 5)
     \<and> disconnect_w_origin True demo_handlers demo_addr OriginOnConnectAbort (Some 5) n = Some (True, n', ts)
     \<and> \<not> is_connected n' demo_addr"
proof -
  let ?c = "fst (connection_new 5 0 demo_addr 1 Initiator)"
  let ?n = "demo_node\<lparr>nd_connections := connections_default\<lparr>active := fmupd demo_addr ?c fmempty,
    limits := (limits_reserve limits_default demo_addr)\<lparr>connecting := {||}\<rparr>\<rparr>\<rparr>"
  have c: "conn_id ?c = 5" "\<not> disconnecting ?c" by (simp_all add: connection_new_def)
  have h: "limits_wf (limits (nd_connections ?n))"
    "fmlookup (active (nd_connections ?n)) demo_addr = Some ?c"
    "0 < ip_charge (limits (nd_connections ?n)) (canonical_ip demo_addr)"
    by (simp_all add: lim.wf_charge lim.count_charge)
  have rec: "on_connect_recovery True HookAborted demo_addr 5 ?n
      = Some (demo_addr, OriginOnConnectAbort, Some 5)"
    using h(2) c by (simp add: on_connect_recovery_def on_connect_guard_def dod_drop_def dod_new_def
        needs_recovery_def)
  from on_connect_panic_disconnects [OF h(1,2) c(2) h(3), where rt = True and debug = True
        and hs = demo_handlers and p = OtherPayload]
  obtain og cid n' ts where "on_connect_recovery True HookAborted demo_addr (conn_id ?c) ?n
      = Some (demo_addr, og, cid)"
    and dis: "disconnect_w_origin True demo_handlers demo_addr og cid ?n = Some (True, n', ts)"
      "fmlookup (active (nd_connections n')) demo_addr = None" by blast
  with rec c(1) have "og = OriginOnConnectAbort" "cid = Some 5" by simp_all
  moreover have "is_connected ?n demo_addr" "\<not> is_connected n' demo_addr"
    using h(2) dis(2) by (simp_all add: is_connected_def connections_is_connected_def)
  ultimately show ?thesis
    using rec dis(1) by blast
qed

end
