(* ===== verification/Wiring.thy ===== *)
theory Wiring
  imports Node_Runs Handshake Reading Writing Hooks
begin

text \<open>
  The protocols put together: the setup handlers of \<open>Handshake\<close>, \<open>Reading\<close> and \<open>Writing\<close> plugged into
  \<open>Node::enable_protocols\<close>. They keep the identity of the connection they are handed and touch nothing
  of the node but the senders and the health signals, which is what the runs of \<open>Node_Runs\<close> ask of
  handlers; and a connection that comes out of them is wired completely or not at all.
\<close>

text \<open>The user's handshake gives back the connection it was given, possibly with another stream.\<close>

definition handshake_keeps :: "(connection \<Rightarrow> handshake_outcome) \<Rightarrow> bool" where
  "handshake_keeps perform \<longleftrightarrow>
     (\<forall>c c'. perform c = Completed (Some (Inr c')) \<longrightarrow> same_conn c' c)"

definition protocol_handlers ::
  "(connection \<Rightarrow> handshake_outcome) \<Rightarrow> (socket_addr \<Rightarrow> connection_side \<Rightarrow> 'd option)
     \<Rightarrow> (socket_addr \<Rightarrow> connection_side \<Rightarrow> 'e option) \<Rightarrow> nat \<Rightarrow> nat \<Rightarrow> task_id \<Rightarrow> task_id \<Rightarrow> task_id
     \<Rightarrow> 'sem handlers" where
  "protocol_handlers perform decoder encoder ready sender processing reader writer = \<lparr>
     hs_handler = handshake_handler perform,
     rd_handler = reading_handler decoder ready processing reader,
     wr_handler = writing_handler_run encoder sender writer,
     oc_response = (\<lambda>_ _. None), od_response = (\<lambda>_ _. None)\<rparr>"

lemma handshake_handler_frame: "handshake_keeps perform \<Longrightarrow> handler_frame (handshake_handler perform)"
  by (auto simp: handler_frame_def handshake_handler_def handshake_conclude_def handshake_keeps_def
      env_same_def split: timed.splits option.splits sum.splits)

lemma reading_handler_frame: "handler_frame (reading_handler decoder ready processing reader)"
  by (auto simp: handler_frame_def reading_handler_def reading_handle_new_connection_def
      catch_setup_panic_def env_same_def same_conn_def split: option.splits)

lemma writing_handler_frame: "handler_frame (writing_handler_run encoder sender writer)"
  by (auto simp: handler_frame_def writing_handler_run_def catch_setup_panic_def adopt_writer_def
      env_same_def same_conn_def Let_def split: option.splits)

lemma protocol_handlers_frame:
  "handshake_keeps perform
     \<Longrightarrow> handlers_frame (protocol_handlers perform decoder encoder ready sender pr rd wr)"
  by (simp add: handlers_frame_def protocol_handlers_def handshake_handler_frame
      reading_handler_frame writing_handler_frame)

text \<open>The two task-spawning handlers one after the other, on a connection after its handshake.\<close>

lemma reading_writing_wired:
  assumes "has_reading (nd_protocols n)" and "writing_handler (nd_protocols n) = Some senders"
  shows "case (case enable_protocol (has_reading (nd_protocols n))
        (reading_handler decoder ready pr rd) c n of
      (Inl e, n2) \<Rightarrow> (Inl e, n2)
    | (Inr c2, n2) \<Rightarrow> enable_protocol (writing_handler (nd_protocols n2) \<noteq> None)
        (writing_handler_run encoder sender wr) c2 n2) of
      (Inr c', n') \<Rightarrow> same_conn c' c \<and> conn_reader c \<noteq> None \<and> conn_writer c \<noteq> None
        \<and> conn_reader c' = None \<and> conn_writer c' = None \<and> readiness_notifier c' = Some ready
        \<and> conn_tasks c' = conn_tasks c @ [pr, rd, wr]
        \<and> writing_handler (nd_protocols n') = Some (fmupd (conn_addr c) (conn_id c, sender) senders)
    | (Inl e, n') \<Rightarrow> writing_handler (nd_protocols n') = Some senders"
  using assms
  by (auto simp: enable_protocol_def reading_handler_def reading_handle_new_connection_def
      writing_handler_run_def catch_setup_panic_def adopt_writer_def same_conn_def Let_def
      split: option.splits)



end
