(* ===== verification/Wire.thy ===== *)
theory Wire
  imports Prelude
begin

text \<open>
  Bytes on the wire: the big-endian reads and writes of \<open>bytes::Buf\<close> and \<open>BufMut\<close>, the check
  behind \<open>String::from_utf8\<close>, the contract of \<open>tokio_util\<close>'s \<open>LengthDelimitedCodec\<close>, and the two
  codecs of \<open>examples/src/lib.rs\<close> built on it. The locale \<open>stream_codec\<close> states what makes an
  encoder and a decoder a pair and carries it over to whole sequences of messages.
\<close>

section \<open>Bytes\<close>

type_synonym byte = "8 word"

named_theorems wire_simps \<open>reading back what was written\<close>

text \<open>\<open>to_be_bytes\<close> and \<open>from_be_bytes\<close> on the value of an unsigned integer of \<open>n\<close> bytes.\<close>

fun be_bytes :: "nat \<Rightarrow> nat \<Rightarrow> byte list" where
  "be_bytes 0 v = []"
| "be_bytes (Suc n) v = be_bytes n (v div 256) @ [of_nat (v mod 256)]"

definition be_value :: "byte list \<Rightarrow> nat" where
  "be_value bs = foldl (\<lambda>acc b. acc * 256 + unat b) 0 bs"

lemma length_be_bytes [simp]: "length (be_bytes n v) = n"
  by (induction n arbitrary: v) simp_all

lemma be_value_snoc [simp]: "be_value (bs @ [b]) = be_value bs * 256 + unat b"
  by (simp add: be_value_def)

lemma unat_byte_of_nat [simp]: "unat (of_nat (v mod 256) :: byte) = v mod 256"
  by (simp add: unsigned_of_nat take_bit_eq_mod)

lemma be_value_be_bytes: "be_value (be_bytes n v) = v mod 256 ^ n"
proof (induction n arbitrary: v)
  case 0
  then show ?case by (simp add: be_value_def)
next
  case (Suc n)
  have "v mod (256 * 256 ^ n) = 256 * (v div 256 mod 256 ^ n) + v mod 256"
    by (rule mod_mult2_eq)
  then show ?case by (simp add: Suc.IH)
qed

lemma be_bytes_be_value: "be_bytes (length bs) (be_value bs) = bs"
proof (induction bs rule: rev_induct)
  case (snoc b bs)
  have "unat b < 256"
    using unsigned_less [of b] by simp
  then show ?case
    using snoc by (simp add: mult.commute)
qed simp

lemma be_value_less: "be_value bs < 256 ^ length bs"
  using be_value_be_bytes [of "length bs" "be_value bs"] by (metis be_bytes_be_value mod_less_divisor zero_less_numeral zero_less_power)

text \<open>A read of \<open>n\<close> bytes; \<open>None\<close> is the panic on a shorter buffer.\<close>

definition get_be :: "nat \<Rightarrow> byte list \<Rightarrow> (nat \<times> byte list) option" where
  "get_be n src = (if length src < n then None else Some (be_value (take n src), drop n src))"

lemma get_be_put [simp, wire_simps]:
  "get_be n (be_bytes n v @ rest) = Some (v mod 256 ^ n, rest)"
  by (simp add: get_be_def be_value_be_bytes)

lemma get_be_Some:
  "get_be n src = Some (v, rest) \<longleftrightarrow> n \<le> length src \<and> src = be_bytes n v @ rest \<and> v < 256 ^ n"
proof
  assume a: "get_be n src = Some (v, rest)"
  then have n: "n \<le> length src" and v: "v = be_value (take n src)" and r: "rest = drop n src"
    by (auto simp: get_be_def split: if_splits)
  have "take n src = be_bytes n v"
    using be_bytes_be_value [of "take n src"] n v by (simp add: min_absorb2)
  then show "n \<le> length src \<and> src = be_bytes n v @ rest \<and> v < 256 ^ n"
    using n r v be_value_less [of "take n src"] by (metis append_take_drop_id length_be_bytes)
qed (auto simp: mod_less)

text \<open>\<open>core::str::from_utf8\<close>: a string of the source is the list of its bytes.\<close>

abbreviation cont_byte :: "byte \<Rightarrow> bool" where
  "cont_byte b \<equiv> 0x80 \<le> b \<and> b \<le> 0xBF"

fun valid_utf8 :: "byte list \<Rightarrow> bool" where
  "valid_utf8 [] \<longleftrightarrow> True"
| "valid_utf8 (a # r0) \<longleftrightarrow>
     (if a < 0x80 then valid_utf8 r0
      else case r0 of
        [] \<Rightarrow> False
      | b # r1 \<Rightarrow>
          if 0xC2 \<le> a \<and> a \<le> 0xDF then cont_byte b \<and> valid_utf8 r1
          else case r1 of
            [] \<Rightarrow> False
          | c # r2 \<Rightarrow>
              if 0xE0 \<le> a \<and> a \<le> 0xEF
              then (if a = 0xE0 then 0xA0 else 0x80) \<le> b \<and> b \<le> (if a = 0xED then 0x9F else 0xBF)
                \<and> cont_byte c \<and> valid_utf8 r2
              else case r2 of
                [] \<Rightarrow> False
              | d # r3 \<Rightarrow> 0xF0 \<le> a \<and> a \<le> 0xF4
                  \<and> (if a = 0xF0 then 0x90 else 0x80) \<le> b \<and> b \<le> (if a = 0xF4 then 0x8F else 0xBF)
                  \<and> cont_byte c \<and> cont_byte d \<and> valid_utf8 r3)"

lemma valid_utf8_append:
  assumes "valid_utf8 ys"
  shows "valid_utf8 xs \<Longrightarrow> valid_utf8 (xs @ ys)"
proof (induction "length xs" arbitrary: xs rule: less_induct)
  case less
  show ?case
  proof (cases xs)
    case (Cons a r0)
    note first = valid_utf8.simps(2) [of a]
    note IH0 = less.hyps [of r0]
    show ?thesis
    proof (cases r0)
      case r0: (Cons b r1)
      note IH1 = less.hyps [of r1]
      show ?thesis
      proof (cases r1)
        case r1: (Cons c r2)
        note IH2 = less.hyps [of r2]
        show ?thesis
        proof (cases r2)
          case r2: (Cons d r3)
          show ?thesis
            using less.prems IH0 IH1 IH2 less.hyps [of r3] Cons r0 r1 r2
            by (simp del: valid_utf8.simps) (auto simp: first split: if_splits simp del: valid_utf8.simps)
        qed (use less.prems IH0 IH1 IH2 Cons r0 r1 assms in \<open>auto simp: first split: if_splits simp del: valid_utf8.simps\<close>)
      qed (use less.prems IH0 IH1 Cons r0 assms in \<open>auto simp: first split: if_splits simp del: valid_utf8.simps\<close>)
    qed (use less.prems IH0 Cons assms in \<open>auto simp: first split: if_splits simp del: valid_utf8.simps\<close>)
  qed (use assms in simp)
qed

text \<open>The bytes of an ASCII string literal.\<close>

definition bstr :: "string \<Rightarrow> byte list" where
  "bstr s = map (\<lambda>c. of_nat (of_char c)) s"

lemma bstr_append [simp]: "bstr (s @ t) = bstr s @ bstr t"
  by (simp add: bstr_def)

definition from_utf8 :: "byte list \<Rightarrow> byte list option" where
  "from_utf8 bs = (if valid_utf8 bs then Some bs else None)"

section \<open>Length-delimited frames\<close>

text \<open>What is called of \<open>LengthDelimitedCodec\<close>: encoding appends bytes or fails, decoding changes
  the codec's own state and the buffer.\<close>

record 's ld_codec =
  ld_start :: 's
  ld_encode :: "byte list \<Rightarrow> byte list io_result"
  ld_decode :: "'s \<Rightarrow> byte list \<Rightarrow> byte list option io_result \<times> 's \<times> byte list"

text \<open>Its documented behaviour: frames longer than the limit are refused, and a whole encoded
  frame at the front of the buffer is taken from it and handed out.\<close>

definition ld_contract :: "'s ld_codec \<Rightarrow> nat \<Rightarrow> bool" where
  "ld_contract ld max_len \<longleftrightarrow>
     (\<forall>f. (\<exists>bs. ld_encode ld f = Inr bs) \<longleftrightarrow> length f \<le> max_len)
     \<and> (\<forall>f bs rest. ld_encode ld f = Inr bs
          \<longrightarrow> ld_decode ld (ld_start ld) (bs @ rest) = (Inr (Some f), ld_start ld, rest))"

text \<open>A codec with a prefix of \<open>n\<close> bytes satisfies it.\<close>

definition ld_prefix :: "nat \<Rightarrow> unit ld_codec" where
  "ld_prefix n = \<lparr>ld_start = (),
     ld_encode = (\<lambda>f. if length f < 256 ^ n then Inr (be_bytes n (length f) @ f)
        else Inl (IoError InvalidInput NoPayload)),
     ld_decode = (\<lambda>_ src. case get_be n src of
          None \<Rightarrow> (Inr None, (), src)
        | Some (l, rest) \<Rightarrow> if length rest < l then (Inr None, (), src)
            else (Inr (Some (take l rest)), (), drop l rest))\<rparr>"

lemma ld_prefix_contract: "ld_contract (ld_prefix n) (256 ^ n - 1)"
proof -
  have "l < 256 ^ n \<longleftrightarrow> l \<le> 256 ^ n - Suc 0" for l :: nat
    by (metis Suc_pred less_Suc_eq_le zero_less_numeral zero_less_power)
  then show ?thesis
    by (auto simp: ld_contract_def ld_prefix_def mod_less)
qed

section \<open>Codecs for streams of messages\<close>

type_synonym ('e, 'm) encoder = "'e \<Rightarrow> 'm \<Rightarrow> byte list io_result \<times> 'e"
type_synonym ('d, 'm) stream_decoder = "'d \<Rightarrow> byte list \<Rightarrow> 'm option io_result \<times> 'd \<times> byte list"

fun encode_all :: "('e, 'm) encoder \<Rightarrow> 'e \<Rightarrow> 'm list \<Rightarrow> byte list io_result \<times> 'e" where
  "encode_all enc e [] = (Inr [], e)"
| "encode_all enc e (m # ms) =
     (case enc e m of
        (Inl err, e') \<Rightarrow> (Inl err, e')
      | (Inr bs, e') \<Rightarrow>
          (case encode_all enc e' ms of
             (Inl err, e'') \<Rightarrow> (Inl err, e'')
           | (Inr bs', e'') \<Rightarrow> (Inr (bs @ bs'), e'')))"

fun decode_upto :: "('d, 'm) stream_decoder \<Rightarrow> nat \<Rightarrow> 'd \<Rightarrow> byte list \<Rightarrow> 'm list \<times> 'd \<times> byte list" where
  "decode_upto dec 0 d src = ([], d, src)"
| "decode_upto dec (Suc n) d src =
     (case dec d src of
        (Inr (Some m), d', src') \<Rightarrow>
          (case decode_upto dec n d' src' of (ms, r) \<Rightarrow> (m # ms, r))
      | (_, d', src') \<Rightarrow> ([], d', src'))"

text \<open>An encoder and a decoder belong together when, as long as they are in step, the decoder
  hands out the message the encoder was given and both are in step again.\<close>

locale stream_codec =
  fixes enc :: "('e, 'm) encoder" and dec :: "('d, 'm) stream_decoder" and in_step :: "'e \<Rightarrow> 'd \<Rightarrow> bool"
  assumes decodes: "in_step e d \<Longrightarrow> enc e m = (Inr bs, e')
    \<Longrightarrow> \<exists>d'. dec d (bs @ rest) = (Inr (Some m), d', rest) \<and> in_step e' d'"
begin

lemma decodes_all:
  assumes "in_step e d" and "encode_all enc e ms = (Inr bs, e')"
  shows "\<exists>d'. decode_upto dec (length ms) d (bs @ rest) = (ms, d', rest) \<and> in_step e' d'"
  using assms
proof (induction ms arbitrary: e d bs)
  case (Cons m ms)
  from Cons.prems(2) obtain b1 e1 b2 where b: "enc e m = (Inr b1, e1)"
      "encode_all enc e1 ms = (Inr b2, e')" "bs = b1 @ b2"
    by (auto split: prod.splits sum.splits)
  obtain d1 where d1: "dec d (b1 @ b2 @ rest) = (Inr (Some m), d1, b2 @ rest)" "in_step e1 d1"
    using decodes [OF Cons.prems(1) b(1)] by blast
  from Cons.IH [OF d1(2) b(2)] show ?case
    using d1 b(3) by auto
qed auto

end

section \<open>The codecs of the examples\<close>

text \<open>\<open>SimpleCodec\<close> adds nothing to the frames when it decodes to bytes, and insists on UTF-8 when
  it decodes to a string.\<close>

definition simple_encode :: "'s ld_codec \<Rightarrow> byte list \<Rightarrow> byte list io_result" where
  "simple_encode ld item = ld_encode ld item"

definition simple_decode :: "'s ld_codec \<Rightarrow> ('s, byte list) stream_decoder" where
  "simple_decode ld s src = ld_decode ld s src"

definition simple_decode_string :: "'s ld_codec \<Rightarrow> ('s, byte list) stream_decoder" where
  "simple_decode_string ld s src =
     (case ld_decode ld s src of
        (Inr (Some bs), s', src') \<Rightarrow>
          ((case from_utf8 bs of None \<Rightarrow> Inl (IoError InvalidData NoPayload) | Some t \<Rightarrow> Inr (Some t)),
           s', src')
      | (Inr None, s', src') \<Rightarrow> (Inr None, s', src')
      | (Inl e, s', src') \<Rightarrow> (Inl e, s', src'))"

text \<open>\<open>PostcardCodec\<close> is generic in the message type; the \<open>postcard\<close> serializer is a parameter, and
  relied on to read back what it wrote.\<close>

record 'm serializer =
  to_stdvec :: "'m \<Rightarrow> byte list option"
  from_bytes :: "byte list \<Rightarrow> 'm option"

definition serializer_contract :: "'m serializer \<Rightarrow> bool" where
  "serializer_contract sz \<longleftrightarrow> (\<forall>m bs. to_stdvec sz m = Some bs \<longrightarrow> from_bytes sz bs = Some m)"

definition postcard_encode :: "'m serializer \<Rightarrow> 's ld_codec \<Rightarrow> 'm \<Rightarrow> byte list io_result" where
  "postcard_encode sz ld item =
     (case to_stdvec sz item of
        None \<Rightarrow> Inl (IoError InvalidData NoPayload)
      | Some bs \<Rightarrow> ld_encode ld bs)"

definition postcard_decode :: "'m serializer \<Rightarrow> 's ld_codec \<Rightarrow> ('s, 'm) stream_decoder" where
  "postcard_decode sz ld s src =
     (case ld_decode ld s src of
        (Inr (Some bs), s', src') \<Rightarrow>
          ((case from_bytes sz bs of None \<Rightarrow> Inl (IoError InvalidData NoPayload) | Some m \<Rightarrow> Inr (Some m)),
           s', src')
      | (Inr None, s', src') \<Rightarrow> (Inr None, s', src')
      | (Inl e, s', src') \<Rightarrow> (Inl e, s', src'))"

interpretation simple_stream: stream_codec
    "\<lambda>(_ :: unit) item. (if valid_utf8 item then simple_encode ld item else Inl err, ())"
    "simple_decode_string ld" "\<lambda>_ s. ld_contract ld max_len \<and> s = ld_start ld"
  by unfold_locales
    (auto simp: simple_encode_def simple_decode_string_def from_utf8_def ld_contract_def split: if_splits)

interpretation postcard_stream: stream_codec "\<lambda>(_ :: unit) m. (postcard_encode sz ld m, ())"
    "postcard_decode sz ld" "\<lambda>_ s. serializer_contract sz \<and> ld_contract ld max_len \<and> s = ld_start ld"
  by unfold_locales
    (auto simp: postcard_encode_def postcard_decode_def serializer_contract_def ld_contract_def
      split: option.splits)

text \<open>Whatever sequence of messages a \<open>PostcardCodec\<close> encodes one after the other, the codec at the
  other end decodes exactly these messages in this order and leaves the bytes after them alone.\<close>

lemma postcard_sequence:
  assumes "serializer_contract sz" and "ld_contract ld max_len"
    and "encode_all (\<lambda>(_ :: unit) m. (postcard_encode sz ld m, ())) () ms = (Inr bs, u)"
  shows "decode_upto (postcard_decode sz ld) (length ms) (ld_start ld) (bs @ rest)
    = (ms, ld_start ld, rest)"
  using postcard_stream.decodes_all [where sz = sz and ld = ld and max_len = max_len and e = "()"
      and d = "ld_start ld" and ms = ms and bs = bs and rest = rest] assms by auto

end
