(* ===== verification/Kademlia.thy ===== *)
theory Kademlia
  imports Wire Writing
begin

text \<open>
  The Kademlia hash table of \<open>examples/examples/kademlia_dht.rs\<close>: the XOR distance and the routing
  table, requests correlated with responses by their identifiers, the message handler, the
  handshake, and the iterative lookups. A node is the \<open>pea2pea\<close> node of this development together
  with the fields of \<open>DhtNode\<close>; replies and requests go through \<open>Writing::unicast_fast\<close>.
\<close>

section \<open>Messages\<close>

type_synonym node_id = u64

record contact =
  ct_id :: node_id
  ct_addr :: socket_addr

definition K :: nat where
  "K = 4"

datatype find_value_outcome =
    FoundValue "byte list"
  | CloserContacts "(node_id \<times> string) list"

datatype kad_message =
    FindNode u64 node_id node_id
  | FindNodeResult u64 "(node_id \<times> string) list"
  | StoreValue u64 node_id "byte list"
  | StoreResult u64
  | FindValue u64 node_id
  | FindValueResult u64 find_value_outcome

fun rpc_id :: "kad_message \<Rightarrow> u64" where
  "rpc_id (FindNode i _ _) = i"
| "rpc_id (FindNodeResult i _) = i"
| "rpc_id (StoreValue i _ _) = i"
| "rpc_id (StoreResult i) = i"
| "rpc_id (FindValue i _) = i"
| "rpc_id (FindValueResult i _) = i"

datatype kad_request =
    ReqFindNode node_id node_id
  | ReqStore node_id "byte list"
  | ReqFindValue node_id

fun into_message :: "kad_request \<Rightarrow> u64 \<Rightarrow> kad_message" where
  "into_message (ReqFindNode sender_id target) i = FindNode i sender_id target"
| "into_message (ReqStore key val) i = StoreValue i key val"
| "into_message (ReqFindValue key) i = FindValue i key"

section \<open>The node\<close>

text \<open>\<open>dn_chans\<close> are the outbound channels of the node's connections; a oneshot sender in
  \<open>dn_pending\<close> is the number of its channel, of which \<open>dn_channels\<close> were created so far.\<close>

record ('sem, 'ch) dht_node =
  dn_node :: "'sem node"
  dn_chans :: "'ch channels"
  dn_id :: node_id
  dn_peer_info :: "(socket_addr, node_id \<times> socket_addr) fmap"
  dn_routing_table :: "contact list"
  dn_storage :: "(node_id, byte list) fmap"
  dn_next_rpc_id :: u64
  dn_pending :: "(u64, nat) fmap"
  dn_channels :: nat

text \<open>What a node runs in: the channel operations, \<open>SocketAddr\<close>'s \<open>Display\<close> and \<open>FromStr\<close>, and the
  two awaits, each giving its outcome and the node as the other tasks have left it by then:
  \<open>Node::connect\<close>, and the response to a request or its timeout.\<close>

record ('sem, 'ch) dht_env =
  de_chan :: "(kad_message wrapped_message, 'ch) chan_ops"
  de_type :: nat
  de_show :: "socket_addr \<Rightarrow> string"
  de_parse :: "string \<Rightarrow> socket_addr option"
  de_connect :: "socket_addr \<Rightarrow> ('sem, 'ch) dht_node \<Rightarrow> unit io_result \<times> ('sem, 'ch) dht_node"
  de_await :: "nat \<Rightarrow> ('sem, 'ch) dht_node \<Rightarrow> kad_message option timed \<times> ('sem, 'ch) dht_node"

fun hex_digits :: "nat \<Rightarrow> nat \<Rightarrow> string" where
  "hex_digits 0 v = []"
| "hex_digits (Suc n) v =
     hex_digits n (v div 16) @ [char_of (if v mod 16 < 10 then 48 + v mod 16 else 87 + v mod 16)]"

definition dht_new ::
  "'sem sem_ops \<Rightarrow> nat \<Rightarrow> 'ch channels \<Rightarrow> bool \<Rightarrow> node_id \<Rightarrow> nat \<Rightarrow> string + ('sem, 'ch) dht_node" where
  "dht_new ops now chans test_feature i next_node_id =
     (let config = (config_default test_feature)\<lparr>cfg_name := Some (hex_digits 16 (unat i)),
            cfg_listener_addr := Some (sa_from (V4 0x7F000001) 0), cfg_max_connections_per_ip := 100\<rparr>
      in case node_new ops now config next_node_id of
           Inl limit \<Rightarrow> Inl limit
         | Inr (n, _) \<Rightarrow> Inr \<lparr>dn_node = n, dn_chans = chans, dn_id = i, dn_peer_info = fmempty,
             dn_routing_table = [], dn_storage = fmempty, dn_next_rpc_id = 0, dn_pending = fmempty,
             dn_channels = 0\<rparr>)"

definition distance :: "node_id \<Rightarrow> node_id \<Rightarrow> node_id" where
  "distance a b = a XOR b"

definition closest_contacts :: "node_id \<Rightarrow> nat \<Rightarrow> ('sem, 'ch) dht_node \<Rightarrow> contact list" where
  "closest_contacts target k d =
     take k (sort_key (\<lambda>c. distance (ct_id c) target) (dn_routing_table d))"

definition add_contact :: "node_id \<Rightarrow> socket_addr \<Rightarrow> ('sem, 'ch) dht_node \<Rightarrow> ('sem, 'ch) dht_node" where
  "add_contact i addr d =
     (if i = dn_id d then d
      else if \<exists>c \<in> set (dn_routing_table d). ct_id c = i then d
      else d\<lparr>dn_routing_table := dn_routing_table d @ [\<lparr>ct_id = i, ct_addr = addr\<rparr>]\<rparr>)"

text \<open>Taking over what the handshake learned of the peer at an address.\<close>

definition add_peer :: "socket_addr \<Rightarrow> ('sem, 'ch) dht_node \<Rightarrow> ('sem, 'ch) dht_node" where
  "add_peer addr d =
     (case fmlookup (dn_peer_info d) addr of
        None \<Rightarrow> d
      | Some (peer_id, peer_listening_addr) \<Rightarrow> add_contact peer_id peer_listening_addr d)"

definition ensure_connected ::
  "('sem, 'ch) dht_env \<Rightarrow> socket_addr \<Rightarrow> ('sem, 'ch) dht_node \<Rightarrow> bool \<times> ('sem, 'ch) dht_node" where
  "ensure_connected env addr d =
     (if is_connected (dn_node d) addr then (True, d)
      else
        (case de_connect env addr d of
           (Inl _, d1) \<Rightarrow> (False, d1)
         | (Inr _, d1) \<Rightarrow> (True, add_peer addr d1)))"

definition dht_send ::
  "('sem, 'ch) dht_env \<Rightarrow> socket_addr \<Rightarrow> kad_message \<Rightarrow> ('sem, 'ch) dht_node
     \<Rightarrow> unit io_result \<times> ('sem, 'ch) dht_node" where
  "dht_send env addr msg d =
     (case unicast_fast (de_chan env) (de_type env) addr msg (dn_node d) (dn_chans d) of
        (r, chans) \<Rightarrow> (r, d\<lparr>dn_chans := chans\<rparr>))"

section \<open>Requests and responses\<close>

text \<open>\<open>rpc\<close> up to its await: the identifier of the request and its oneshot channel.\<close>

definition rpc_begin ::
  "('sem, 'ch) dht_env \<Rightarrow> socket_addr \<Rightarrow> kad_request \<Rightarrow> ('sem, 'ch) dht_node
     \<Rightarrow> (u64 \<times> nat) io_result \<times> ('sem, 'ch) dht_node" where
  "rpc_begin env addr request d =
     (let i = dn_next_rpc_id d; tx = dn_channels d;
          d1 = d\<lparr>dn_next_rpc_id := fetch_add i 1, dn_channels := Suc tx,
                 dn_pending := fmupd i tx (dn_pending d)\<rparr>
      in case dht_send env addr (into_message request i) d1 of
           (Inl e, d2) \<Rightarrow> (Inl e, d2\<lparr>dn_pending := fmdrop i (dn_pending d2)\<rparr>)
         | (Inr _, d2) \<Rightarrow> (Inr (i, tx), d2))"

definition rpc_end ::
  "u64 \<Rightarrow> kad_message option timed \<Rightarrow> ('sem, 'ch) dht_node
     \<Rightarrow> kad_message io_result \<times> ('sem, 'ch) dht_node" where
  "rpc_end i res d =
     ((case res of
         Elapsed \<Rightarrow> Inl (IoError TimedOut (Message ''RPC timed out''))
       | Completed None \<Rightarrow> Inl (IoError BrokenPipe (Message ''RPC peer dropped''))
       | Completed (Some response) \<Rightarrow> Inr response),
      d\<lparr>dn_pending := fmdrop i (dn_pending d)\<rparr>)"

definition rpc ::
  "('sem, 'ch) dht_env \<Rightarrow> socket_addr \<Rightarrow> kad_request \<Rightarrow> ('sem, 'ch) dht_node
     \<Rightarrow> kad_message io_result \<times> ('sem, 'ch) dht_node" where
  "rpc env addr request d =
     (case rpc_begin env addr request d of
        (Inl e, d1) \<Rightarrow> (Inl e, d1)
      | (Inr (i, rx), d1) \<Rightarrow> (case de_await env rx d1 of (res, d2) \<Rightarrow> rpc_end i res d2))"

section \<open>Lookups\<close>

fun absorb_contacts ::
  "('sem, 'ch) dht_env \<Rightarrow> (node_id \<times> string) list \<Rightarrow> contact list \<Rightarrow> ('sem, 'ch) dht_node
     \<Rightarrow> contact list \<times> ('sem, 'ch) dht_node" where
  "absorb_contacts env [] shortlist d = (shortlist, d)"
| "absorb_contacts env ((i, addr_str) # contacts) shortlist d =
     (if i = dn_id d then absorb_contacts env contacts shortlist d
      else
        (case de_parse env addr_str of
           None \<Rightarrow> absorb_contacts env contacts shortlist d
         | Some addr \<Rightarrow>
             absorb_contacts env contacts
               (if \<exists>c \<in> set shortlist. ct_id c = i then shortlist
                else shortlist @ [\<lparr>ct_id = i, ct_addr = addr\<rparr>])
               (add_contact i addr d)))"

text \<open>The loop of \<open>iterative_find_node\<close>: every round asks one contact that was not asked before, so
  that it ends after at most as many rounds as there are identifiers. It gives the shortlist and the
  set of the contacts asked.\<close>

function find_node_loop ::
  "('sem, 'ch) dht_env \<Rightarrow> node_id \<Rightarrow> contact list \<Rightarrow> node_id fset \<Rightarrow> ('sem, 'ch) dht_node
     \<Rightarrow> contact list \<times> node_id fset \<times> ('sem, 'ch) dht_node" where
  "find_node_loop env target shortlist0 queried d =
     (let shortlist = sort_key (\<lambda>c. distance (ct_id c) target) shortlist0 in
      case find (\<lambda>c. ct_id c |\<notin>| queried) shortlist of
        None \<Rightarrow> (shortlist, queried, d)
      | Some contact \<Rightarrow>
          (let queried1 = finsert (ct_id contact) queried in
           case ensure_connected env (ct_addr contact) d of
             (False, d1) \<Rightarrow> find_node_loop env target shortlist queried1 d1
           | (True, d1) \<Rightarrow>
               (case rpc env (ct_addr contact) (ReqFindNode (dn_id d1) target) d1 of
                  (Inr (FindNodeResult _ contacts), d2) \<Rightarrow>
                    (case absorb_contacts env contacts shortlist d2 of
                       (shortlist', d3) \<Rightarrow> find_node_loop env target shortlist' queried1 d3)
                | (_, d2) \<Rightarrow> find_node_loop env target shortlist queried1 d2)))"
  by pat_completeness auto

lemma unqueried_decrease:
  assumes "find (\<lambda>c. ct_id c |\<notin>| queried) xs = Some c"
  shows "card (UNIV - fset (finsert (ct_id c) queried)) < card (UNIV - fset queried)"
proof (rule psubset_card_mono)
  have "ct_id c \<notin> fset queried"
    using assms by (auto simp: find_Some_iff)
  then show "UNIV - fset (finsert (ct_id c) queried) \<subset> UNIV - fset queried"
    by auto
qed simp

termination find_node_loop
  by (relation "measure (\<lambda>(_, _, _, queried, _). card (UNIV - fset queried))")
    (auto dest: unqueried_decrease)

declare find_node_loop.simps [simp del]

definition iterative_find_node ::
  "('sem, 'ch) dht_env \<Rightarrow> node_id \<Rightarrow> ('sem, 'ch) dht_node \<Rightarrow> contact list \<times> ('sem, 'ch) dht_node" where
  "iterative_find_node env target d =
     (case find_node_loop env target (closest_contacts target K d) fempty d of
        (shortlist, _, d') \<Rightarrow> (take K (sort_key (\<lambda>c. distance (ct_id c) target) shortlist), d'))"

fun store_at ::
  "('sem, 'ch) dht_env \<Rightarrow> node_id \<Rightarrow> byte list \<Rightarrow> contact list \<Rightarrow> ('sem, 'ch) dht_node
     \<Rightarrow> ('sem, 'ch) dht_node" where
  "store_at env key val [] d = d"
| "store_at env key val (contact # contacts) d =
     (case ensure_connected env (ct_addr contact) d of
        (False, d1) \<Rightarrow> store_at env key val contacts d1
      | (True, d1) \<Rightarrow>
          (case rpc env (ct_addr contact) (ReqStore key val) d1 of
             (_, d2) \<Rightarrow> store_at env key val contacts d2))"

definition store ::
  "('sem, 'ch) dht_env \<Rightarrow> node_id \<Rightarrow> byte list \<Rightarrow> ('sem, 'ch) dht_node \<Rightarrow> ('sem, 'ch) dht_node" where
  "store env key val d =
     (case iterative_find_node env key d of (contacts, d1) \<Rightarrow> store_at env key val contacts d1)"

function find_value_loop ::
  "('sem, 'ch) dht_env \<Rightarrow> node_id \<Rightarrow> contact list \<Rightarrow> node_id fset \<Rightarrow> ('sem, 'ch) dht_node
     \<Rightarrow> byte list option \<times> ('sem, 'ch) dht_node" where
  "find_value_loop env key shortlist0 queried d =
     (let shortlist = sort_key (\<lambda>c. distance (ct_id c) key) shortlist0 in
      case find (\<lambda>c. ct_id c |\<notin>| queried) shortlist of
        None \<Rightarrow> (None, d)
      | Some contact \<Rightarrow>
          (let queried1 = finsert (ct_id contact) queried in
           case ensure_connected env (ct_addr contact) d of
             (False, d1) \<Rightarrow> find_value_loop env key shortlist queried1 d1
           | (True, d1) \<Rightarrow>
               (case rpc env (ct_addr contact) (ReqFindValue key) d1 of
                  (Inr (FindValueResult _ (FoundValue val)), d2) \<Rightarrow> (Some val, d2)
                | (Inr (FindValueResult _ (CloserContacts contacts)), d2) \<Rightarrow>
                    (case absorb_contacts env contacts shortlist d2 of
                       (shortlist', d3) \<Rightarrow> find_value_loop env key shortlist' queried1 d3)
                | (_, d2) \<Rightarrow> find_value_loop env key shortlist queried1 d2)))"
  by pat_completeness auto

termination find_value_loop
  by (relation "measure (\<lambda>(_, _, _, queried, _). card (UNIV - fset queried))")
    (auto dest: unqueried_decrease)

declare find_value_loop.simps [simp del]

definition find_value ::
  "('sem, 'ch) dht_env \<Rightarrow> node_id \<Rightarrow> ('sem, 'ch) dht_node \<Rightarrow> byte list option \<times> ('sem, 'ch) dht_node" where
  "find_value env key d = find_value_loop env key (closest_contacts key K d) fempty d"

section \<open>Handlers\<close>

text \<open>The handshake: ten bytes each way, the node's identifier and its listening port; the two sides
  order their write and their read oppositely.\<close>

datatype hello_io = WriteHello | ReadHello

definition hello_bytes :: "node_id \<Rightarrow> u16 \<Rightarrow> byte list" where
  "hello_bytes i port = be_bytes 8 (unat i) @ be_bytes 2 (unat port)"

definition hello_order :: "connection_side \<Rightarrow> hello_io list" where
  "hello_order side =
     (case side_not side of
        Initiator \<Rightarrow> [WriteHello, ReadHello]
      | Responder \<Rightarrow> [ReadHello, WriteHello])"

definition hello_received ::
  "byte list \<Rightarrow> socket_addr \<Rightarrow> ('sem, 'ch) dht_node \<Rightarrow> ('sem, 'ch) dht_node" where
  "hello_received buf addr d =
     (let peer_id = of_nat (be_value (take 8 buf));
          peer_port = of_nat (be_value (drop 8 buf));
          peer_listening_addr = sa_from (sa_ip addr) peer_port
      in d\<lparr>dn_peer_info := fmupd addr (peer_id, peer_listening_addr) (dn_peer_info d)\<rparr>)"

definition dht_on_connect :: "socket_addr \<Rightarrow> ('sem, 'ch) dht_node \<Rightarrow> ('sem, 'ch) dht_node" where
  "dht_on_connect addr d = add_peer addr d"

definition dht_on_disconnect :: "socket_addr \<Rightarrow> ('sem, 'ch) dht_node \<Rightarrow> ('sem, 'ch) dht_node" where
  "dht_on_disconnect addr d =
     (case fmlookup (dn_peer_info d) addr of
        None \<Rightarrow> d
      | Some (peer_id, _) \<Rightarrow>
          d\<lparr>dn_peer_info := fmdrop addr (dn_peer_info d),
            dn_routing_table := filter (\<lambda>c. ct_id c \<noteq> peer_id) (dn_routing_table d)\<rparr>)"

definition contact_texts :: "('sem, 'ch) dht_env \<Rightarrow> contact list \<Rightarrow> (node_id \<times> string) list" where
  "contact_texts env cs = map (\<lambda>c. (ct_id c, de_show env (ct_addr c))) cs"

text \<open>\<open>process_message\<close>: the node, and the response handed to a waiting caller with its channel.\<close>

fun dht_process ::
  "('sem, 'ch) dht_env \<Rightarrow> socket_addr \<Rightarrow> kad_message \<Rightarrow> ('sem, 'ch) dht_node
     \<Rightarrow> ('sem, 'ch) dht_node \<times> (nat \<times> kad_message) option" where
  "dht_process env source (FindNode i sender_id target) d =
     (let sender_addr = (case fmlookup (dn_peer_info d) source of None \<Rightarrow> source | Some (_, addr) \<Rightarrow> addr);
          d1 = add_contact sender_id sender_addr d;
          contacts = contact_texts env (closest_contacts target K d1)
      in (snd (dht_send env source (FindNodeResult i contacts) d1), None))"
| "dht_process env source (StoreValue i key val) d =
     (let d1 = d\<lparr>dn_storage := fmupd key val (dn_storage d)\<rparr>
      in (snd (dht_send env source (StoreResult i) d1), None))"
| "dht_process env source (FindValue i key) d =
     (let result = (case fmlookup (dn_storage d) key of
            Some v \<Rightarrow> FoundValue v
          | None \<Rightarrow> CloserContacts (contact_texts env (closest_contacts key K d)))
      in (snd (dht_send env source (FindValueResult i result) d), None))"
| "dht_process env source response d =
     (case fmlookup (dn_pending d) (rpc_id response) of
        None \<Rightarrow> (d, None)
      | Some tx \<Rightarrow>
          (d\<lparr>dn_pending := fmdrop (rpc_id response) (dn_pending d)\<rparr>, Some (tx, response)))"

end
