(* ===== verification/Kademlia_Properties.thy ===== *)
theory Kademlia_Properties
  imports Kademlia
begin

text \<open>
  What the Kademlia node promises: the XOR distance is a metric in which distances determine the
  contact, so that the nearest contacts are well defined; the routing table names every other peer
  at most once and never the node itself, whatever the handlers do; a lookup ends and returns the
  nearest of all the contacts it heard of, each of which it has asked; and a caller only ever gets
  the response to its own request.
\<close>

section \<open>Distances\<close>

lemma distance_self [simp]: "distance a a = 0"
  by (simp add: distance_def)

lemma distance_commute: "distance a b = distance b a"
  by (simp add: distance_def xor.commute)

lemma distance_via: "distance a c = distance a b XOR distance b c"
  by (simp add: distance_def xor.assoc flip: xor.assoc [of b b c])

lemma distance_inj: "distance a t = distance b t \<longleftrightarrow> a = b"
  by (metis distance_def xor.assoc xor.right_neutral xor_self_eq)

lemma nat_xor_le: "(m XOR n :: nat) \<le> m + n"
proof (induction m arbitrary: n rule: less_induct)
  case (less m)
  show ?case
  proof (cases "m = 0")
    case False
    then have "m div 2 XOR n div 2 \<le> m div 2 + n div 2"
      by (intro less.IH) simp
    then show ?thesis
      unfolding xor_nat_rec [of m n] by (cases "odd m"; cases "odd n") (auto elim!: oddE evenE)
  qed simp
qed

lemma distance_triangle: "unat (distance a c) \<le> unat (distance a b) + unat (distance b c)"
  unfolding distance_via [of a c b] unsigned_xor_eq by (rule nat_xor_le)

section \<open>The nearest contacts\<close>

abbreviation ids :: "contact list \<Rightarrow> node_id set" where
  "ids cs \<equiv> ct_id ` set cs"

definition table_ok :: "('sem, 'ch) dht_node \<Rightarrow> bool" where
  "table_ok d \<longleftrightarrow> distinct (map ct_id (dn_routing_table d)) \<and> dn_id d \<notin> ids (dn_routing_table d)"

lemma sort_key_split:
  assumes "c \<in> set (take k (sort_key f xs))" and "c' \<in> set (drop k (sort_key f xs))"
  shows "f c \<le> f c'"
proof -
  have "sorted (map f (take k (sort_key f xs) @ drop k (sort_key f xs)))"
    by simp
  then show ?thesis
    using assms unfolding map_append sorted_append by auto
qed

lemma distinct_ids_sort [simp]:
  "distinct (map ct_id (sort_key f cs)) \<longleftrightarrow> distinct (map ct_id cs)"
  by (simp add: distinct_map)

text \<open>Of contacts with different identifiers, those before the cut are strictly nearer.\<close>

lemma nearest_strict:
  assumes "distinct (map ct_id cs)"
    and "c \<in> set (take k (sort_key (\<lambda>c. distance (ct_id c) t) cs))"
    and "c' \<in> set cs" and "c' \<notin> set (take k (sort_key (\<lambda>c. distance (ct_id c) t) cs))"
  shows "distance (ct_id c) t < distance (ct_id c') t"
proof -
  let ?s = "sort_key (\<lambda>c. distance (ct_id c) t) cs"
  have "c' \<in> set (drop k ?s)"
    using assms(3,4) by (metis Un_iff append_take_drop_id set_append set_sort)
  then have "distance (ct_id c) t \<le> distance (ct_id c') t"
    using assms(2) sort_key_split [where f = "\<lambda>c. distance (ct_id c) t"] by blast
  moreover have "c \<in> set cs" "c \<noteq> c'"
    using assms(2,4) by (auto dest: in_set_takeD)
  then have "ct_id c \<noteq> ct_id c'"
    using assms(1,3) by (auto simp: distinct_map dest: inj_onD)
  ultimately show ?thesis
    by (simp add: distance_inj order_less_le)
qed

text \<open>\<open>closest_contacts\<close> is exact: it returns as many contacts as asked for (or all there are), in
  the order of their distance, and every contact it leaves out is strictly farther away than every
  one it returns.\<close>

lemma closest_contacts_exact:
  assumes "table_ok d"
  shows "length (closest_contacts t k d) = min k (length (dn_routing_table d))
    \<and> set (closest_contacts t k d) \<subseteq> set (dn_routing_table d)
    \<and> sorted (map (\<lambda>c. distance (ct_id c) t) (closest_contacts t k d))
    \<and> (\<forall>c \<in> set (closest_contacts t k d).
         \<forall>c' \<in> set (dn_routing_table d) - set (closest_contacts t k d).
           distance (ct_id c) t < distance (ct_id c') t)"
proof (intro conjI ballI)
  show "length (closest_contacts t k d) = min k (length (dn_routing_table d))"
    by (simp add: closest_contacts_def)
  show "set (closest_contacts t k d) \<subseteq> set (dn_routing_table d)"
    by (auto simp: closest_contacts_def dest: in_set_takeD)
  show "sorted (map (\<lambda>c. distance (ct_id c) t) (closest_contacts t k d))"
    unfolding closest_contacts_def take_map [symmetric] by (simp add: sorted_wrt_take)
  fix c c'
  assume "c \<in> set (closest_contacts t k d)"
    and "c' \<in> set (dn_routing_table d) - set (closest_contacts t k d)"
  with assms show "distance (ct_id c) t < distance (ct_id c') t"
    by (intro nearest_strict [of "dn_routing_table d" c k]) (auto simp: closest_contacts_def table_ok_def)
qed

definition demo_dht :: "contact list \<Rightarrow> (nat, nat) dht_node" where
  "demo_dht cs = \<lparr>dn_node = demo_node, dn_chans = (\<lambda>_. (0, 0)), dn_id = 1, dn_peer_info = fmempty,
     dn_routing_table = cs, dn_storage = fmempty, dn_next_rpc_id = 0, dn_pending = fmempty,
     dn_channels = 0\<rparr>"

section \<open>The routing table\<close>

text \<open>An operation keeps a node's identifier, and a sound routing table sound.\<close>

definition dht_keeps :: "('sem, 'ch) dht_node \<Rightarrow> ('sem, 'ch) dht_node \<Rightarrow> bool" where
  "dht_keeps d d' \<longleftrightarrow> dn_id d' = dn_id d \<and> (table_ok d \<longrightarrow> table_ok d')"

named_theorems keeps \<open>operations that keep the routing table sound\<close>

lemma dht_keeps_refl [keeps, simp]: "dht_keeps d d"
  by (simp add: dht_keeps_def)

lemma dht_keeps_trans: "dht_keeps d e \<Longrightarrow> dht_keeps e f \<Longrightarrow> dht_keeps d f"
  by (simp add: dht_keeps_def)

text \<open>The two awaits give the node back as the other tasks left it, and they only use the operations
  below.\<close>

definition env_sound :: "('sem, 'ch) dht_env \<Rightarrow> bool" where
  "env_sound env \<longleftrightarrow>
     (\<forall>addr d. dht_keeps d (snd (de_connect env addr d))) \<and> (\<forall>rx d. dht_keeps d (snd (de_await env rx d)))"

lemma add_contact_keeps [keeps]: "dht_keeps d (add_contact i addr d)"
  by (auto simp: dht_keeps_def add_contact_def table_ok_def)

lemma add_peer_keeps [keeps]: "dht_keeps d (add_peer addr d)"
  by (auto simp: add_peer_def intro: keeps split: option.splits)

lemma dht_send_keeps [keeps]: "dht_keeps d (snd (dht_send env addr msg d))"
  by (auto simp: dht_send_def dht_keeps_def table_ok_def split: prod.splits)

lemma ensure_connected_keeps [keeps]:
  assumes "env_sound env"
  shows "dht_keeps d (snd (ensure_connected env addr d))"
proof -
  have "dht_keeps d (snd (de_connect env addr d))"
    using assms by (simp add: env_sound_def)
  then show ?thesis
    by (auto simp: ensure_connected_def split: prod.splits sum.splits
        intro: dht_keeps_trans [OF _ add_peer_keeps])
qed

lemma dht_keeps_fields:
  "dn_id e = dn_id d \<Longrightarrow> dn_routing_table e = dn_routing_table d \<Longrightarrow> dht_keeps d e"
  by (simp add: dht_keeps_def table_ok_def)

lemma dht_send_fields [simp]:
  "dht_send env addr msg d = (r, d') \<Longrightarrow> dn_id d' = dn_id d"
  "dht_send env addr msg d = (r, d') \<Longrightarrow> dn_routing_table d' = dn_routing_table d"
  "dht_send env addr msg d = (r, d') \<Longrightarrow> dn_pending d' = dn_pending d"
  "dht_send env addr msg d = (r, d') \<Longrightarrow> dn_next_rpc_id d' = dn_next_rpc_id d"
  "dht_send env addr msg d = (r, d') \<Longrightarrow> dn_channels d' = dn_channels d"
  by (auto simp: dht_send_def split: prod.splits)

lemma rpc_begin_keeps [keeps]: "dht_keeps d (snd (rpc_begin env addr request d))"
  by (rule dht_keeps_fields) (auto simp: rpc_begin_def Let_def split: prod.splits sum.splits)

lemma rpc_end_keeps [keeps]: "dht_keeps d (snd (rpc_end i res d))"
  by (rule dht_keeps_fields) (auto simp: rpc_end_def)

lemma rpc_keeps [keeps]:
  assumes "env_sound env"
  shows "dht_keeps d (snd (rpc env addr request d))"
proof (cases "rpc_begin env addr request d")
  case (Pair r d1)
  have d1: "dht_keeps d d1"
    using rpc_begin_keeps [of d env addr request] Pair by simp
  have "dht_keeps d1 (snd (de_await env rx d1))" for rx
    using assms by (simp add: env_sound_def)
  then have "dht_keeps d1 (snd (rpc_end i res d2))" if "de_await env rx d1 = (res, d2)" for rx i res d2
    using that rpc_end_keeps dht_keeps_trans by (metis snd_conv)
  then show ?thesis
    using Pair d1 by (auto simp: rpc_def split: sum.splits prod.splits intro: dht_keeps_trans)
qed

lemma absorb_contacts_keeps [keeps]: "dht_keeps d (snd (absorb_contacts env contacts shortlist d))"
proof (induction contacts arbitrary: shortlist d)
  case (Cons c contacts)
  then show ?case
    by (cases c) (auto split: option.splits intro: dht_keeps_trans [OF add_contact_keeps])
qed simp

section \<open>Lookups\<close>

text \<open>A shortlist: different contacts, none of which is the node itself.\<close>

definition shortlist_ok :: "('sem, 'ch) dht_node \<Rightarrow> contact list \<Rightarrow> bool" where
  "shortlist_ok d cs \<longleftrightarrow> distinct (map ct_id cs) \<and> dn_id d \<notin> ids cs"

lemma shortlist_ok_sort [simp]: "shortlist_ok d (sort_key f cs) \<longleftrightarrow> shortlist_ok d cs"
  by (simp add: shortlist_ok_def)

lemma shortlist_ok_keeps: "dht_keeps d e \<Longrightarrow> shortlist_ok e cs \<longleftrightarrow> shortlist_ok d cs"
  by (simp add: shortlist_ok_def dht_keeps_def)

lemma absorb_contacts_ok:
  "shortlist_ok d cs \<Longrightarrow> absorb_contacts env contacts cs d = (cs', d')
     \<Longrightarrow> shortlist_ok d cs' \<and> set cs \<subseteq> set cs'"
proof (induction contacts arbitrary: cs d)
  case (Cons c contacts)
  obtain i s where c: "c = (i, s)" by (cases c)
  show ?case
  proof (cases "i = dn_id d \<or> de_parse env s = None")
    case True
    then show ?thesis
      using Cons.prems Cons.IH [of d cs] c by (cases "i = dn_id d") simp_all
  next
    case False
    then obtain addr where addr: "i \<noteq> dn_id d" "de_parse env s = Some addr" by auto
    let ?cs = "if \<exists>c \<in> set cs. ct_id c = i then cs else cs @ [\<lparr>ct_id = i, ct_addr = addr\<rparr>]"
    let ?d = "add_contact i addr d"
    have ok: "shortlist_ok d ?cs" "set cs \<subseteq> set ?cs"
      using Cons.prems(1) addr(1) by (auto simp: shortlist_ok_def)
    have k: "shortlist_ok ?d xs \<longleftrightarrow> shortlist_ok d xs" for xs
      by (rule shortlist_ok_keeps [OF add_contact_keeps])
    have "absorb_contacts env contacts ?cs ?d = (cs', d')"
      using Cons.prems(2) addr unfolding c by simp
    from Cons.IH [OF _ this] have "shortlist_ok d cs' \<and> set ?cs \<subseteq> set cs'"
      using ok(1) unfolding k by blast
    then show ?thesis
      using ok(2) by blast
  qed
qed simp

text \<open>One round asks the contact it picked and goes on with a shortlist that has only grown.\<close>

definition lookup_state :: "('sem, 'ch) dht_node \<Rightarrow> contact list \<Rightarrow> node_id fset \<Rightarrow> bool" where
  "lookup_state d cs q \<longleftrightarrow> table_ok d \<and> shortlist_ok d cs \<and> fset q \<subseteq> ids cs"

definition lookup_done ::
  "node_id \<Rightarrow> ('sem, 'ch) dht_node \<Rightarrow> contact list \<Rightarrow> contact list \<times> node_id fset \<times> ('sem, 'ch) dht_node
     \<Rightarrow> bool" where
  "lookup_done t d cs r \<longleftrightarrow> (case r of (cs', q', d') \<Rightarrow>
     dht_keeps d d' \<and> shortlist_ok d cs' \<and> sorted (map (\<lambda>c. distance (ct_id c) t) cs')
     \<and> ids cs \<subseteq> ids cs' \<and> fset q' = ids cs')"

lemma lookup_done_trans:
  assumes "lookup_done t e cs' r" and "dht_keeps d e" and "ids cs \<subseteq> ids cs'"
  shows "lookup_done t d cs r"
proof (cases r)
  case (fields cs1 q1 d1)
  then show ?thesis
    using assms dht_keeps_trans [OF assms(2), of d1] shortlist_ok_keeps [OF assms(2), of cs1]
    unfolding lookup_done_def by auto
qed

lemma lookup_state_next:
  assumes "lookup_state d cs q" and "c \<in> set cs" and "dht_keeps d e" and "shortlist_ok e cs'"
    and "ids cs \<subseteq> ids cs'"
  shows "lookup_state e cs' (finsert (ct_id c) q)"
  using assms by (force simp: lookup_state_def dht_keeps_def)

lemma find_node_loop_turn:
  fixes cs t
  defines "cs' \<equiv> sort_key (\<lambda>c. distance (ct_id c) t) cs"
  assumes sound: "env_sound env" and st: "lookup_state d cs' q" and c: "find (\<lambda>c. ct_id c |\<notin>| q) cs' = Some c"
  obtains cs'' e where "find_node_loop env t cs q d = find_node_loop env t cs'' (finsert (ct_id c) q) e"
    and "dht_keeps d e" and "shortlist_ok e cs''" and "ids cs' \<subseteq> ids cs''"
proof -
  note loop = find_node_loop.simps [of env t cs q d, folded cs'_def]
  obtain ok d1 where d1: "ensure_connected env (ct_addr c) d = (ok, d1)" "dht_keeps d d1"
    using ensure_connected_keeps [OF sound, of d "ct_addr c"] by (cases "ensure_connected env (ct_addr c) d") auto
  obtain r d2 where d2: "rpc env (ct_addr c) (ReqFindNode (dn_id d1) t) d1 = (r, d2)" "dht_keeps d d2"
    using rpc_keeps [OF sound, of d1 "ct_addr c"] dht_keeps_trans [OF d1(2)] by (metis prod.collapse)
  have same: "shortlist_ok e cs'" if "dht_keeps d e" for e
    using st shortlist_ok_keeps [OF that] by (simp add: lookup_state_def)
  consider "\<not> ok" | i contacts where "ok" "r = Inr (FindNodeResult i contacts)"
    | "ok" "\<nexists>i contacts. r = Inr (FindNodeResult i contacts)" by blast
  then show ?thesis
  proof cases
    case 1
    then show ?thesis
      using that [of cs' d1] same [OF d1(2)] d1 c by (simp add: loop Let_def)
  next
    case 2
    obtain cs'' d3 where ab: "absorb_contacts env contacts cs' d2 = (cs'', d3)"
      by (cases "absorb_contacts env contacts cs' d2")
    have k: "dht_keeps d2 d3"
      using absorb_contacts_keeps [of d2 env contacts cs'] ab by simp
    have "find_node_loop env t cs q d = find_node_loop env t cs'' (finsert (ct_id c) q) d3"
      using 2 c d1(1) d2(1) ab by (simp add: loop Let_def)
    then show ?thesis
      using absorb_contacts_ok [OF same [OF d2(2)] ab] shortlist_ok_keeps [OF k] dht_keeps_trans [OF d2(2) k]
      by (intro that) auto
  next
    case 3
    then have "find_node_loop env t cs q d = find_node_loop env t cs' (finsert (ct_id c) q) d2"
      using c d1(1) d2(1) by (auto simp: loop Let_def split: sum.split kad_message.split)
    then show ?thesis
      using that [of cs' d2] same [OF d2(2)] d2(2) by simp
  qed
qed

lemma find_node_loop_done:
  assumes sound: "env_sound env" and "lookup_state d cs q"
  shows "lookup_done t d cs (find_node_loop env t cs q d)"
  using assms(2)
proof (induction "card (UNIV - fset q)" arbitrary: cs q d rule: less_induct)
  case (less q cs d)
  let ?cs = "sort_key (\<lambda>c. distance (ct_id c) t) cs"
  have st: "lookup_state d ?cs q"
    using less.prems by (simp add: lookup_state_def)
  show ?case
  proof (cases "find (\<lambda>c. ct_id c |\<notin>| q) ?cs")
    case None
    then have "ids ?cs \<subseteq> fset q"
      by (auto simp: find_None_iff)
    then show ?thesis
      using st None by (auto simp: find_node_loop.simps [of env t cs] lookup_done_def lookup_state_def)
  next
    case (Some c)
    have c: "c \<in> set ?cs"
      using Some by (metis find_Some_iff nth_mem)
    obtain cs' e where e: "find_node_loop env t cs q d = find_node_loop env t cs' (finsert (ct_id c) q) e"
        "dht_keeps d e" "shortlist_ok e cs'" "ids ?cs \<subseteq> ids cs'"
      by (rule find_node_loop_turn [OF sound st Some])
    from less.hyps [OF unqueried_decrease [OF Some] lookup_state_next [OF st c e(2-4)]] e(2-4)
    show ?thesis
      unfolding e(1) by (intro lookup_done_trans [of t e cs' _ d cs]) simp_all
  qed
qed

lemma closest_lookup_state:
  assumes "table_ok d"
  shows "lookup_state d (closest_contacts t k d) fempty"
proof -
  have "distinct (map ct_id (sort_key (\<lambda>c. distance (ct_id c) t) (dn_routing_table d)))"
    using assms by (simp add: table_ok_def)
  then have "distinct (map ct_id (closest_contacts t k d))"
    by (simp add: closest_contacts_def flip: take_map)
  then show ?thesis
    using assms by (auto simp: lookup_state_def shortlist_ok_def table_ok_def closest_contacts_def
        dest: in_set_takeD)
qed


definition demo_env :: "(nat, nat) dht_env" where
  "demo_env = \<lparr>de_chan = \<lparr>ch_new = id, ch_try_send = (\<lambda>_ c. Inr (Suc c)), ch_recv = (\<lambda>_. None),
       ch_close = id, ch_drop_tx = id\<rparr>, de_type = 0, de_show = (\<lambda>_. []), de_parse = (\<lambda>_. Some demo_addr),
     de_connect = (\<lambda>_ d. (Inl (IoError TimedOut NoPayload), d)), de_await = (\<lambda>_ d. (Elapsed, d))\<rparr>"


lemma find_value_loop_keeps:
  assumes sound: "env_sound env"
  shows "dht_keeps d (snd (find_value_loop env key cs q d))"
proof (induction "card (UNIV - fset q)" arbitrary: cs q d rule: less_induct)
  case (less q cs d)
  let ?cs = "sort_key (\<lambda>c. distance (ct_id c) key) cs"
  show ?case
  proof (cases "find (\<lambda>c. ct_id c |\<notin>| q) ?cs")
    case None
    then show ?thesis
      by (simp add: find_value_loop.simps [of env key cs] Let_def)
  next
    case (Some c)
    let ?q = "finsert (ct_id c) q"
    have go: "dht_keeps d (snd (find_value_loop env key cs' ?q e))" if "dht_keeps d e" for e cs'
      using less.hyps [OF unqueried_decrease [OF Some], of e cs'] dht_keeps_trans [OF that] by blast
    obtain ok d1 where d1: "ensure_connected env (ct_addr c) d = (ok, d1)" "dht_keeps d d1"
      using ensure_connected_keeps [OF sound, of d "ct_addr c"] by (cases "ensure_connected env (ct_addr c) d") auto
    obtain r d2 where d2: "rpc env (ct_addr c) (ReqFindValue key) d1 = (r, d2)" "dht_keeps d d2"
      using rpc_keeps [OF sound, of d1 "ct_addr c"] dht_keeps_trans [OF d1(2)] by (metis prod.collapse)
    have absorbed: "dht_keeps d (snd (case absorb_contacts env contacts ?cs d2 of
        (cs', d3) \<Rightarrow> find_value_loop env key cs' ?q d3))" for contacts
      using dht_keeps_trans [OF d2(2) absorb_contacts_keeps [of d2 env contacts ?cs]]
      by (auto intro: go split: prod.split)
    have "find_value_loop env key cs q d = (if ok then (case r of
          Inr (FindValueResult _ (FoundValue val)) \<Rightarrow> (Some val, d2)
        | Inr (FindValueResult _ (CloserContacts contacts)) \<Rightarrow>
            (case absorb_contacts env contacts ?cs d2 of (cs', d3) \<Rightarrow> find_value_loop env key cs' ?q d3)
        | _ \<Rightarrow> find_value_loop env key ?cs ?q d2) else find_value_loop env key ?cs ?q d1)"
      by (subst find_value_loop.simps) (simp add: Some d1(1) d2(1) Let_def)
    then show ?thesis
      using absorbed go [OF d1(2)] go [OF d2(2)] d2(2)
      by (simp split: sum.split kad_message.split find_value_outcome.split)
  qed
qed

lemma store_at_keeps:
  assumes sound: "env_sound env"
  shows "dht_keeps d (store_at env key val cs d)"
proof (induction cs arbitrary: d)
  case (Cons c cs)
  obtain ok d1 where d1: "ensure_connected env (ct_addr c) d = (ok, d1)" "dht_keeps d d1"
    using ensure_connected_keeps [OF sound, of d "ct_addr c"] by (cases "ensure_connected env (ct_addr c) d") auto
  obtain r d2 where d2: "rpc env (ct_addr c) (ReqStore key val) d1 = (r, d2)" "dht_keeps d d2"
    using rpc_keeps [OF sound, of d1 "ct_addr c"] dht_keeps_trans [OF d1(2)] by (metis prod.collapse)
  have "dht_keeps d (store_at env key val cs d1)" "dht_keeps d (store_at env key val cs d2)"
    using dht_keeps_trans [OF d1(2) Cons.IH] dht_keeps_trans [OF d2(2) Cons.IH] by simp_all
  then show ?case
    using d1(1) d2(1) by (cases ok) simp_all
qed simp

lemma dht_process_keeps: "dht_keeps d (fst (dht_process env source msg d))"
proof (cases msg)
  case (FindNode i sender_id target)
  then show ?thesis
    using dht_keeps_trans [OF add_contact_keeps dht_send_keeps] by (simp add: Let_def)
next
  case (StoreValue i key val)
  have "dht_keeps d (d\<lparr>dn_storage := fmupd key val (dn_storage d)\<rparr>)"
    by (rule dht_keeps_fields) simp_all
  then show ?thesis
    using StoreValue dht_keeps_trans [OF _ dht_send_keeps] by (simp add: Let_def)
qed (auto simp: dht_send_keeps Let_def split: option.split intro: dht_keeps_fields)

text \<open>Everything that happens to a node: its hooks, the handshake with a peer, a message, and the calls
  of its user.\<close>

inductive dht_step :: "('sem, 'ch) dht_env \<Rightarrow> ('sem, 'ch) dht_node \<Rightarrow> ('sem, 'ch) dht_node \<Rightarrow> bool"
  for env where
  greeted: "dht_step env d (hello_received buf addr d)"
| connected: "dht_step env d (dht_on_connect addr d)"
| disconnected: "dht_step env d (dht_on_disconnect addr d)"
| processed: "dht_step env d (fst (dht_process env source msg d))"
| looked_up: "dht_step env d (snd (iterative_find_node env target d))"
| stored: "dht_step env d (store env key val d)"
| searched: "dht_step env d (snd (find_value env key d))"

lemma dht_on_disconnect_keeps: "dht_keeps d (dht_on_disconnect addr d)"
  by (auto simp: dht_on_disconnect_def dht_keeps_def table_ok_def distinct_map_filter split: option.split)

lemma iterative_find_node_keeps:
  assumes "env_sound env" and "table_ok d"
  shows "dht_keeps d (snd (iterative_find_node env t d))"
  using find_node_loop_done [OF assms(1) closest_lookup_state [OF assms(2)], of t t K]
  by (auto simp: iterative_find_node_def lookup_done_def split: prod.splits)

lemma store_keeps:
  assumes "env_sound env" and "table_ok d"
  shows "dht_keeps d (store env key val d)"
  using dht_keeps_trans [OF iterative_find_node_keeps [OF assms, of key] store_at_keeps [OF assms(1)]]
  by (auto simp: store_def split: prod.splits)

lemma dht_step_keeps:
  assumes "env_sound env" and "table_ok d" and "dht_step env d e"
  shows "dht_keeps d e"
  using assms(3)
proof cases
  case (greeted buf addr)
  then show ?thesis by (simp add: hello_received_def Let_def dht_keeps_fields)
qed (simp_all add: dht_on_connect_def keeps dht_on_disconnect_keeps dht_process_keeps find_value_def
    find_value_loop_keeps [OF assms(1)] iterative_find_node_keeps [OF assms(1,2)] store_keeps [OF assms(1,2)])

interpretation dht_sys: invariant_system
    "\<lambda>d. env_sound env \<and> dn_routing_table d = [] \<and> dn_id d = i" "dht_step env"
    "\<lambda>d. env_sound env \<and> table_ok d \<and> dn_id d = i"
proof unfold_locales
  show "env_sound env \<and> table_ok t \<and> dn_id t = i"
    if "env_sound env \<and> table_ok s \<and> dn_id s = i" "dht_step env s t" for s t
    using that dht_step_keeps [of env s t] by (simp add: dht_keeps_def)
qed (simp add: table_ok_def)



section \<open>Requests and responses\<close>

text \<open>A node with the calls of \<open>rpc\<close> that are awaiting their response: for each oneshot channel the
  identifier of its request and what was sent into the channel.\<close>

record ('sem, 'ch) rpc_sys =
  rs_node :: "('sem, 'ch) dht_node"
  rs_calls :: "(nat, u64 \<times> kad_message option) fmap"

inductive rpc_step :: "('sem, 'ch) dht_env \<Rightarrow> ('sem, 'ch) rpc_sys \<Rightarrow> ('sem, 'ch) rpc_sys \<Rightarrow> bool" for env where
  begun: "rpc_begin env addr request (rs_node s) = (Inr (i, tx), d)
     \<Longrightarrow> rpc_step env s (s\<lparr>rs_node := d, rs_calls := fmupd tx (i, None) (rs_calls s)\<rparr>)"
| refused: "rpc_begin env addr request (rs_node s) = (Inl e, d) \<Longrightarrow> rpc_step env s (s\<lparr>rs_node := d\<rparr>)"
| unheard: "dht_process env source msg (rs_node s) = (d, None) \<Longrightarrow> rpc_step env s (s\<lparr>rs_node := d\<rparr>)"
| answered: "dht_process env source msg (rs_node s) = (d, Some (tx, response))
     \<Longrightarrow> fmlookup (rs_calls s) tx = Some (i, a)
     \<Longrightarrow> rpc_step env s (s\<lparr>rs_node := d, rs_calls := fmupd tx (i, Some response) (rs_calls s)\<rparr>)"
| ended: "fmlookup (rs_calls s) tx = Some (i, a) \<Longrightarrow> rpc_end i res (rs_node s) = (r, d)
     \<Longrightarrow> rpc_step env s (s\<lparr>rs_node := d, rs_calls := fmdrop tx (rs_calls s)\<rparr>)"

text \<open>The identifiers are the numbers of the channels; the pending table holds exactly the calls that
  have no response yet, and a response is in the channel of the call it answers.\<close>

definition calls_ok :: "nat \<Rightarrow> (u64, nat) fmap \<Rightarrow> (nat, u64 \<times> kad_message option) fmap \<Rightarrow> bool" where
  "calls_ok n pending calls \<longleftrightarrow>
     (\<forall>i tx. fmlookup pending i = Some tx \<longleftrightarrow> fmlookup calls tx = Some (i, None))
     \<and> (\<forall>tx i a. fmlookup calls tx = Some (i, a)
          \<longrightarrow> tx < n \<and> i = of_nat tx \<and> (\<forall>m. a = Some m \<longrightarrow> rpc_id m = i))"

definition rpc_inv :: "('sem, 'ch) rpc_sys \<Rightarrow> bool" where
  "rpc_inv s \<longleftrightarrow>
     dn_next_rpc_id (rs_node s) = of_nat (dn_channels (rs_node s))
     \<and> (dn_channels (rs_node s) \<le> 2 ^ 64
          \<longrightarrow> calls_ok (dn_channels (rs_node s)) (dn_pending (rs_node s)) (rs_calls s))"

lemma calls_ok_pending:
  "calls_ok n pending calls \<Longrightarrow> fmlookup pending i = Some tx \<longleftrightarrow> fmlookup calls tx = Some (i, None)"
  by (simp add: calls_ok_def)

lemma calls_ok_call:
  "calls_ok n pending calls \<Longrightarrow> fmlookup calls tx = Some (i, a)
     \<Longrightarrow> tx < n \<and> i = of_nat tx \<and> (\<forall>m. a = Some m \<longrightarrow> rpc_id m = i)"
  by (simp add: calls_ok_def)

lemma calls_okI:
  assumes "\<And>i tx. fmlookup pending i = Some tx \<longleftrightarrow> fmlookup calls tx = Some (i, None)"
    and "\<And>tx i a. fmlookup calls tx = Some (i, a)
      \<Longrightarrow> tx < n \<and> i = of_nat tx \<and> (\<forall>m. a = Some m \<longrightarrow> rpc_id m = i)"
  shows "calls_ok n pending calls"
  using assms by (simp add: calls_ok_def)

lemma calls_ok_fresh:
  assumes "calls_ok n pending calls" and "Suc n \<le> 2 ^ 64"
  shows "fmlookup calls n = None" and "fmlookup calls tx \<noteq> Some (of_nat n, a)"
    and "fmlookup pending (of_nat n) = None"
proof -
  show "fmlookup calls n = None"
    using calls_ok_call [OF assms(1), of n] by (cases "fmlookup calls n") auto
  show no: "fmlookup calls tx \<noteq> Some (of_nat n, a)" for tx a
    using calls_ok_call [OF assms(1), of tx "of_nat n" a] of_nat_u64_inj [of n tx] assms(2) by auto
  show "fmlookup pending (of_nat n) = None"
    using calls_ok_pending [OF assms(1), of "of_nat n"] no by (cases "fmlookup pending (of_nat n)") auto
qed

lemma calls_ok_begin:
  assumes "calls_ok n pending calls" and "Suc n \<le> 2 ^ 64"
  shows "calls_ok (Suc n) (fmupd (of_nat n) n pending) (fmupd n (of_nat n, None) calls)"
proof (rule calls_okI)
  show "fmlookup (fmupd (of_nat n) n pending) i = Some tx
      \<longleftrightarrow> fmlookup (fmupd n (of_nat n, None) calls) tx = Some (i, None)" for i tx
    using calls_ok_pending [OF assms(1), of i tx] calls_ok_fresh [OF assms] by auto
  show "tx < Suc n \<and> i = of_nat tx \<and> (\<forall>m. a = Some m \<longrightarrow> rpc_id m = i)"
    if "fmlookup (fmupd n (of_nat n, None) calls) tx = Some (i, a)" for tx i a
    using that calls_ok_call [OF assms(1), of tx i a] by (auto split: if_splits)
qed

lemma calls_ok_refuse:
  assumes "calls_ok n pending calls" and "Suc n \<le> 2 ^ 64"
  shows "calls_ok (Suc n) (fmdrop (of_nat n) pending) calls"
proof -
  have "fmdrop (of_nat n) pending = pending"
    using calls_ok_fresh(3) [OF assms] by (intro fmap_ext) auto
  then show ?thesis
    using assms(1) by (simp add: calls_ok_def less_Suc_eq)
qed

lemma calls_ok_answer:
  assumes "calls_ok n pending calls" and "fmlookup pending (rpc_id m) = Some tx"
  shows "calls_ok n (fmdrop (rpc_id m) pending) (fmupd tx (rpc_id m, Some m) calls)"
proof (rule calls_okI)
  have tx: "fmlookup calls tx = Some (rpc_id m, None)"
    using assms by (simp add: calls_ok_pending)
  show "fmlookup (fmdrop (rpc_id m) pending) i = Some ty
      \<longleftrightarrow> fmlookup (fmupd tx (rpc_id m, Some m) calls) ty = Some (i, None)" for i ty
    using calls_ok_pending [OF assms(1), of i ty] tx assms(2) by auto
  show "ty < n \<and> i = of_nat ty \<and> (\<forall>m. a = Some m \<longrightarrow> rpc_id m = i)"
    if "fmlookup (fmupd tx (rpc_id m, Some m) calls) ty = Some (i, a)" for ty i a
    using that calls_ok_call [OF assms(1), of ty i a] calls_ok_call [OF assms(1) tx]
    by (auto split: if_splits)
qed

lemma calls_ok_end:
  assumes "calls_ok n pending calls" and "n \<le> 2 ^ 64" and "fmlookup calls tx = Some (i, a)"
  shows "calls_ok n (fmdrop i pending) (fmdrop tx calls)"
proof (rule calls_okI)
  have call: "i = of_nat tx" "tx < 2 ^ 64"
    using calls_ok_call [OF assms(1,3)] assms(2) by simp_all
  have same: "j = i \<longleftrightarrow> ty = tx" if "fmlookup calls ty = Some (j, b)" for ty j b
  proof -
    have "j = of_nat ty" "ty < 2 ^ 64"
      using calls_ok_call [OF assms(1) that] assms(2) by simp_all
    then show ?thesis
      using call of_nat_u64_inj by metis
  qed
  show "fmlookup (fmdrop i pending) j = Some ty \<longleftrightarrow> fmlookup (fmdrop tx calls) ty = Some (j, None)" for j ty
    using calls_ok_pending [OF assms(1), of j ty] same [of ty j None] by auto
  show "ty < n \<and> j = of_nat ty \<and> (\<forall>m. b = Some m \<longrightarrow> rpc_id m = j)"
    if "fmlookup (fmdrop tx calls) ty = Some (j, b)" for ty j b
    using that calls_ok_call [OF assms(1), of ty j b] by (auto split: if_splits)
qed

lemma dht_process_pending:
  assumes "dht_process env source msg d = (d', r)"
  shows "dn_next_rpc_id d' = dn_next_rpc_id d \<and> dn_channels d' = dn_channels d
    \<and> (case r of
         None \<Rightarrow> dn_pending d' = dn_pending d
       | Some (tx, m) \<Rightarrow> fmlookup (dn_pending d) (rpc_id m) = Some tx
           \<and> dn_pending d' = fmdrop (rpc_id m) (dn_pending d))"
proof -
  have send: "dn_pending (snd (dht_send env a m e)) = dn_pending e"
      "dn_next_rpc_id (snd (dht_send env a m e)) = dn_next_rpc_id e"
      "dn_channels (snd (dht_send env a m e)) = dn_channels e" for a m e
    by (simp_all add: dht_send_def split: prod.split)
  have add: "dn_pending (add_contact i a d) = dn_pending d"
      "dn_next_rpc_id (add_contact i a d) = dn_next_rpc_id d" "dn_channels (add_contact i a d) = dn_channels d"
    for i a
    by (simp_all add: add_contact_def)
  show ?thesis
    using assms by (cases msg) (auto simp: send add Let_def split: option.splits)
qed

lemma rpc_begin_pending:
  assumes "rpc_begin env addr request d = (r, d')"
  shows "dn_next_rpc_id d' = fetch_add (dn_next_rpc_id d) 1 \<and> dn_channels d' = Suc (dn_channels d)
    \<and> (case r of
         Inl e \<Rightarrow> dn_pending d' = fmdrop (dn_next_rpc_id d) (dn_pending d)
       | Inr (i, tx) \<Rightarrow> i = dn_next_rpc_id d \<and> tx = dn_channels d
           \<and> dn_pending d' = fmupd (dn_next_rpc_id d) (dn_channels d) (dn_pending d))"
  using assms by (auto simp: rpc_begin_def Let_def split: prod.splits sum.splits)

lemma rpc_inv_step: "rpc_step env s t \<Longrightarrow> rpc_inv s \<Longrightarrow> rpc_inv t"
proof (induction rule: rpc_step.induct)
  case (begun addr request s i tx d)
  then show ?case
    using rpc_begin_pending [OF begun.hyps] by (simp add: rpc_inv_def fetch_add_def calls_ok_begin)
next
  case (refused addr request s e d)
  then show ?case
    using rpc_begin_pending [OF refused.hyps] by (simp add: rpc_inv_def fetch_add_def calls_ok_refuse)
next
  case (unheard source msg s d)
  then show ?case
    using dht_process_pending [OF unheard.hyps] by (simp add: rpc_inv_def)
next
  case (answered source msg s d tx response i a)
  have p: "fmlookup (dn_pending (rs_node s)) (rpc_id response) = Some tx"
      "dn_pending d = fmdrop (rpc_id response) (dn_pending (rs_node s))"
      "dn_next_rpc_id d = dn_next_rpc_id (rs_node s)" "dn_channels d = dn_channels (rs_node s)"
    using dht_process_pending [OF answered.hyps(1)] by simp_all
  have "i = rpc_id response" if "calls_ok n (dn_pending (rs_node s)) (rs_calls s)" for n
    using that p(1) answered.hyps(2) by (auto simp: calls_ok_def)
  then show ?case
    using answered.prems calls_ok_answer [OF _ p(1)] by (auto simp: rpc_inv_def p)
next
  case (ended s tx i a res r d)
  have "d = (rs_node s)\<lparr>dn_pending := fmdrop i (dn_pending (rs_node s))\<rparr>"
    using ended.hyps(2) by (simp add: rpc_end_def)
  then show ?case
    using ended.prems calls_ok_end [OF _ _ ended.hyps(1)] by (simp add: rpc_inv_def)
qed

interpretation rpc_sys: invariant_system
    "\<lambda>s. dn_next_rpc_id (rs_node s) = 0 \<and> dn_channels (rs_node s) = 0
       \<and> dn_pending (rs_node s) = fmempty \<and> rs_calls s = fmempty" "rpc_step env" rpc_inv
proof unfold_locales
  show "rpc_inv t" if "rpc_inv s" "rpc_step env s t" for s t
    using rpc_inv_step [OF that(2,1)] .
qed (simp add: rpc_inv_def calls_ok_def)

text \<open>C32: However calls, messages from any peer, timeouts and failing sends interleave, a caller only
  ever gets a response that carries the identifier of its own request, different calls have
  different identifiers, and the table of pending requests holds exactly the calls that are still
  waiting: nothing is left behind in it (for the first \<open>2 ^ 64\<close> requests of a node).\<close>

theorem responses_matched:
  assumes "dn_next_rpc_id (rs_node s0) = 0 \<and> dn_channels (rs_node s0) = 0
      \<and> dn_pending (rs_node s0) = fmempty \<and> rs_calls s0 = fmempty"
    and "(rpc_step env)\<^sup>*\<^sup>* s0 s" and "dn_channels (rs_node s) \<le> 2 ^ 64"
  shows "(\<forall>tx i m. fmlookup (rs_calls s) tx = Some (i, Some m) \<longrightarrow> rpc_id m = i)
    \<and> (\<forall>tx ty i a b. fmlookup (rs_calls s) tx = Some (i, a) \<longrightarrow> fmlookup (rs_calls s) ty = Some (i, b)
         \<longrightarrow> ty = tx)
    \<and> (\<forall>i. i |\<in>| fmdom (dn_pending (rs_node s)) \<longleftrightarrow> (\<exists>tx. fmlookup (rs_calls s) tx = Some (i, None)))"
proof -
  have "rpc_inv s"
    using rpc_sys.inv_reachable [OF assms(1,2)] .
  then have ok: "calls_ok (dn_channels (rs_node s)) (dn_pending (rs_node s)) (rs_calls s)"
    using assms(3) by (simp add: rpc_inv_def)
  have "ty = tx" if "fmlookup (rs_calls s) tx = Some (i, a)" "fmlookup (rs_calls s) ty = Some (i, b)" for tx ty i a b
    using calls_ok_call [OF ok that(1)] calls_ok_call [OF ok that(2)] assms(3) of_nat_u64_inj [of tx ty]
    by (metis less_le_trans)
  moreover have "i |\<in>| fmdom (dn_pending (rs_node s)) \<longleftrightarrow> (\<exists>tx. fmlookup (rs_calls s) tx = Some (i, None))" for i
    using calls_ok_pending [OF ok, of i] by (metis fmdomE fmdomI)
  ultimately show ?thesis
    using calls_ok_call [OF ok] by blast
qed

text \<open>A request sent to a connected peer, a stray response and the right one.\<close>

definition busy_dht :: "(nat, nat) dht_node" where
  "busy_dht = (demo_dht [])\<lparr>dn_node := demo_node\<lparr>nd_protocols :=
     (nd_protocols demo_node)\<lparr>writing_handler := Some (fmupd demo_addr (0, 0) fmempty)\<rparr>\<rparr>\<rparr>"

theorem responses_matched_witness:
  "\<exists>s. (rpc_step demo_env)\<^sup>*\<^sup>* \<lparr>rs_node = busy_dht, rs_calls = fmempty\<rparr> s
     \<and> fmlookup (rs_calls s) 0 = Some (0, Some (StoreResult 0)) \<and> fmdom (dn_pending (rs_node s)) = {||}"
proof -
  define s0 where "s0 = \<lparr>rs_node = busy_dht, rs_calls = fmempty\<rparr>"
  obtain d1 where d1: "rpc_begin demo_env demo_addr (ReqStore 5 []) (rs_node s0) = (Inr (0, 0), d1)"
      "dn_pending d1 = fmupd 0 0 fmempty" "dn_channels d1 = 1"
    by (simp add: s0_def rpc_begin_def dht_send_def unicast_fast_def queue_message_def busy_dht_def demo_dht_def
        demo_env_def wrapped_new_def Let_def)
  define s1 where "s1 = s0\<lparr>rs_node := d1, rs_calls := fmupd 0 (0, None) (rs_calls s0)\<rparr>"
  define d2 where "d2 = d1\<lparr>dn_pending := fmdrop 0 (dn_pending d1)\<rparr>"
  define s2 where "s2 = s1\<lparr>rs_node := d2, rs_calls := fmupd 0 (0, Some (StoreResult 0)) (rs_calls s1)\<rparr>"
  have "rpc_step demo_env s0 s1"
    unfolding s1_def by (rule rpc_step.begun [OF d1(1)])
  moreover have "rpc_step demo_env s1 s2"
    unfolding s2_def
  proof (rule rpc_step.answered)
    show "dht_process demo_env demo_addr (StoreResult 0) (rs_node s1) = (d2, Some (0, StoreResult 0))"
      by (simp add: s1_def d2_def d1(2))
    show "fmlookup (rs_calls s1) 0 = Some (0, None)"
      by (simp add: s1_def)
  qed
  ultimately have run: "(rpc_step demo_env)\<^sup>*\<^sup>* s0 s2"
    by (meson r_into_rtranclp rtranclp.rtrancl_into_rtrancl)
  have start: "dn_next_rpc_id (rs_node s0) = 0 \<and> dn_channels (rs_node s0) = 0
      \<and> dn_pending (rs_node s0) = fmempty \<and> rs_calls s0 = fmempty"
    by (simp add: s0_def busy_dht_def demo_dht_def)
  have few: "dn_channels (rs_node s2) \<le> 2 ^ 64"
    by (simp add: s2_def d2_def d1(3))
  have none: "fmlookup (rs_calls s2) tx \<noteq> Some (i, None)" for tx i
    by (simp add: s2_def s1_def s0_def)
  have "i |\<notin>| fmdom (dn_pending (rs_node s2))" for i
    using responses_matched [OF start run few] none by blast
  then have "fmdom (dn_pending (rs_node s2)) = {||}"
    by blast
  then show ?thesis
    using run by (intro exI [of _ s2]) (simp add: s2_def s0_def)
qed

section \<open>Handshakes and values\<close>

lemma hello_received_bytes:
  "hello_received (hello_bytes i port) addr d
     = d\<lparr>dn_peer_info := fmupd addr (i, sa_from (sa_ip addr) port) (dn_peer_info d)\<rparr>"
proof -
  have "unat i < 256 ^ 8" "unat port < 256 ^ 2"
    using unsigned_less [where 'a = nat and w = i] unsigned_less [where 'a = nat and w = port] by simp_all
  then show ?thesis
    by (simp add: hello_received_def hello_bytes_def be_value_be_bytes Let_def)
qed

text \<open>The two ends of a connection never both wait for the other's hello first.\<close>

lemma hello_order_complementary:
  "hd (hello_order side) = WriteHello \<longleftrightarrow> hd (hello_order (side_not side)) = ReadHello"
  by (cases side) (simp_all add: hello_order_def)

lemma find_value_stored:
  "fmlookup (dn_storage d) key = Some val \<Longrightarrow> dht_process env source (FindValue j key) d
     = (snd (dht_send env source (FindValueResult j (FoundValue val)) d), None)"
  by simp

lemma stored_value_found:
  assumes "dht_process env peer (StoreValue i key val) d = (d', r)"
  shows "dht_process env source (FindValue j key) d'
    = (snd (dht_send env source (FindValueResult j (FoundValue val)) d'), None)"
  using assms by (intro find_value_stored) (auto simp: dht_send_def Let_def split: prod.splits)

end
