(* ===== verification/Yamux.thy ===== *)
theory Yamux
  imports Wire Connections
begin

text \<open>
  The minimal Yamux multiplexer of \<open>examples/src/yamux.rs\<close>: headers, frames and their constructors,
  the flag and type encodings, and the codec. A header is twelve bytes: version, type, flags, stream
  id and length, all big-endian.
\<close>

section \<open>Frames\<close>

datatype yamux_ty = TyData | TyWindowUpdate | TyPing | TyGoAway

fun ty_code :: "yamux_ty \<Rightarrow> byte" where
  "ty_code TyData = 0x0"
| "ty_code TyWindowUpdate = 0x1"
| "ty_code TyPing = 0x2"
| "ty_code TyGoAway = 0x3"

fun ty_text :: "yamux_ty \<Rightarrow> string" where
  "ty_text TyData = ''Data''"
| "ty_text TyWindowUpdate = ''Window Update''"
| "ty_text TyPing = ''Ping''"
| "ty_text TyGoAway = ''Go Away''"

definition ty_try_from :: "byte \<Rightarrow> yamux_ty io_result" where
  "ty_try_from ty =
     (if ty = 0x0 then Inr TyData
      else if ty = 0x1 then Inr TyWindowUpdate
      else if ty = 0x2 then Inr TyPing
      else if ty = 0x3 then Inr TyGoAway
      else Inl (IoError InvalidData NoPayload))"

datatype yamux_flag = Syn | Ack | Fin | Rst

fun flag_code :: "yamux_flag \<Rightarrow> u16" where
  "flag_code Syn = 0x1"
| "flag_code Ack = 0x2"
| "flag_code Fin = 0x4"
| "flag_code Rst = 0x8"

fun flag_text :: "yamux_flag \<Rightarrow> string" where
  "flag_text Syn = ''SYN''"
| "flag_text Ack = ''ACK''"
| "flag_text Fin = ''FIN''"
| "flag_text Rst = ''RST''"

definition flag_try_from :: "byte \<Rightarrow> yamux_flag io_result" where
  "flag_try_from flag =
     (if flag = 0x1 then Inr Syn
      else if flag = 0x2 then Inr Ack
      else if flag = 0x4 then Inr Fin
      else if flag = 0x8 then Inr Rst
      else Inl (IoError InvalidData NoPayload))"

datatype termination_code = TermNormal | TermProtocolError | TermInternalError

fun term_code :: "termination_code \<Rightarrow> u32" where
  "term_code TermNormal = 0"
| "term_code TermProtocolError = 1"
| "term_code TermInternalError = 2"

datatype yamux_side = Client | Server

record yamux_header =
  yh_version :: byte
  yh_ty :: yamux_ty
  yh_flags :: "yamux_flag list"
  yh_stream_id :: u32
  yh_length :: u32

record yamux_frame =
  yf_header :: yamux_header
  yf_payload :: "byte list"

definition VERSION :: byte where
  "VERSION = 0"

definition HEADER_LEN :: nat where
  "HEADER_LEN = 1 + 1 + 2 + 4 + 4"

definition frame_data :: "u32 \<Rightarrow> yamux_flag list \<Rightarrow> byte list option \<Rightarrow> yamux_frame" where
  "frame_data stream_id flags data =
     (let payload = (case data of None \<Rightarrow> [] | Some d \<Rightarrow> d)
      in \<lparr>yf_header = \<lparr>yh_version = VERSION, yh_ty = TyData, yh_flags = flags,
            yh_stream_id = stream_id, yh_length = of_nat (length payload)\<rparr>,
          yf_payload = payload\<rparr>)"

definition frame_ping :: "yamux_flag list \<Rightarrow> u32 \<Rightarrow> yamux_frame" where
  "frame_ping flags opaque =
     \<lparr>yf_header = \<lparr>yh_version = VERSION, yh_ty = TyPing, yh_flags = flags, yh_stream_id = 0,
        yh_length = opaque\<rparr>, yf_payload = []\<rparr>"

definition frame_terminate :: "u32 \<Rightarrow> yamux_frame" where
  "frame_terminate stream_id =
     \<lparr>yf_header = \<lparr>yh_version = VERSION, yh_ty = TyGoAway, yh_flags = [], yh_stream_id = stream_id,
        yh_length = term_code TermNormal\<rparr>, yf_payload = []\<rparr>"

definition codec_mode :: "connection_side \<Rightarrow> yamux_side" where
  "codec_mode side = (if side = Initiator then Client else Server)"

section \<open>The codec\<close>

definition decode_flags :: "u16 \<Rightarrow> yamux_flag list io_result" where
  "decode_flags flags =
     (if flags AND NOT 0xf \<noteq> 0 then Inl (IoError InvalidData NoPayload)
      else Inr (filter (\<lambda>flag. flags AND flag_code flag \<noteq> 0) [Syn, Ack, Fin, Rst]))"

definition encode_flags :: "yamux_flag list \<Rightarrow> u16" where
  "encode_flags flags = foldl (\<lambda>ret flag. ret OR flag_code flag) 0 flags"

text \<open>\<open>decode\<close> gives the result and what is left of the buffer; \<open>None\<close> is the panic of a read from a
  buffer that is too short.\<close>

definition yamux_decode :: "byte list \<Rightarrow> (yamux_frame option io_result \<times> byte list) option" where
  "yamux_decode src =
     (if length src < HEADER_LEN
      then Some (Inl (IoError InvalidData (Message ''truncated Yamux header'')), src)
      else case get_be 1 src of None \<Rightarrow> None | Some (version, s1) \<Rightarrow>
       (case get_be 1 s1 of None \<Rightarrow> None | Some (t, s2) \<Rightarrow>
       (case ty_try_from (of_nat t) of Inl e \<Rightarrow> Some (Inl e, s2) | Inr ty \<Rightarrow>
       (case get_be 2 s2 of None \<Rightarrow> None | Some (fl, s3) \<Rightarrow>
       (case decode_flags (of_nat fl) of Inl e \<Rightarrow> Some (Inl e, s3) | Inr flags \<Rightarrow>
       (case get_be 4 s3 of None \<Rightarrow> None | Some (stream_id, s4) \<Rightarrow>
       (case get_be 4 s4 of None \<Rightarrow> None | Some (len, s5) \<Rightarrow>
        let (payload, s6) = (case ty of
              TyData \<Rightarrow> (s5, [])
            | TyPing \<Rightarrow> (be_bytes 4 len, s5)
            | _ \<Rightarrow> ([], s5))
        in Some (Inr (Some \<lparr>yf_header = \<lparr>yh_version = of_nat version, yh_ty = ty, yh_flags = flags,
                   yh_stream_id = of_nat stream_id, yh_length = of_nat len\<rparr>,
                 yf_payload = payload\<rparr>), s6))))))))"

definition yamux_encode :: "yamux_frame \<Rightarrow> byte list" where
  "yamux_encode msg =
     (let h = yf_header msg
      in be_bytes 1 (unat (yh_version h)) @ be_bytes 1 (unat (ty_code (yh_ty h)))
         @ be_bytes 2 (unat (encode_flags (yh_flags h))) @ be_bytes 4 (unat (yh_stream_id h))
         @ be_bytes 4 (unat (yh_length h)) @ yf_payload msg)"

section \<open>Types and flags\<close>

lemma ty_try_from_code [simp]: "ty_try_from (ty_code t) = Inr t"
  by (cases t) (simp_all add: ty_try_from_def)

lemma ty_code_try_from: "ty_try_from b = Inr t \<Longrightarrow> ty_code t = b"
  by (auto simp: ty_try_from_def split: if_splits)

lemma flag_try_from_code: "flag_try_from (ucast (flag_code f)) = Inr f"
  by (cases f) (simp_all add: flag_try_from_def)

definition canonical_flags :: "yamux_flag list \<Rightarrow> yamux_flag list" where
  "canonical_flags fs = filter (\<lambda>f. f \<in> set fs) [Syn, Ack, Fin, Rst]"

lemma encode_flags_members:
  "encode_flags fs = (if Syn \<in> set fs then 1 else 0) OR (if Ack \<in> set fs then 2 else 0)
     OR (if Fin \<in> set fs then 4 else 0) OR (if Rst \<in> set fs then 8 else 0)"
proof (induction fs rule: rev_induct)
  case (snoc f fs)
  have "encode_flags (fs @ [f]) = encode_flags fs OR flag_code f"
    by (simp add: encode_flags_def)
  with snoc.IH show ?case
    by (cases f) (auto simp: ac_simps)
qed (simp add: encode_flags_def)

lemma decode_encode_flags [simp]: "decode_flags (encode_flags fs) = Inr (canonical_flags fs)"
  by (simp add: encode_flags_members decode_flags_def canonical_flags_def)

lemma encode_decode_flags:
  assumes "decode_flags w = Inr fs"
  shows "encode_flags fs = w"
proof -
  have "w = (w AND 0xf) OR (w AND NOT 0xf)"
    by (simp flip: bit.conj_disj_distrib)
  then have "w = w AND 0xf"
    using assms by (simp add: decode_flags_def split: if_splits)
  then have "w \<le> 0xf"
    by (metis word_and_le1)
  then have "unat w \<le> 15"
    by (simp add: word_le_nat_alt)
  then have "unat w \<in> {0, 1, 2, 3, 4, 5, 6, 7, 8, 9, 10, 11, 12, 13, 14, 15}"
    unfolding insert_iff empty_iff by presburger
  moreover have "encode_flags fs = of_nat n"
    if "n \<in> {0, 1, 2, 3, 4, 5, 6, 7, 8, 9, 10, 11, 12, 13, 14, 15}" "decode_flags (of_nat n) = Inr fs" for n
    using that by (elim insertE) (auto simp: decode_flags_def encode_flags_def)
  ultimately have "encode_flags fs = of_nat (unat w)"
    using assms by simp
  then show ?thesis
    by simp
qed

section \<open>Encoding and decoding\<close>

text \<open>What the other end gets for a frame, and what it leaves in the buffer: the flags in their
  fixed order and without repetitions, the payload of a data frame, and for a ping the opaque value
  of its header.\<close>

definition yamux_received :: "yamux_frame \<Rightarrow> yamux_frame" where
  "yamux_received f =
     f\<lparr>yf_header := (yf_header f)\<lparr>yh_flags := canonical_flags (yh_flags (yf_header f))\<rparr>,
       yf_payload := (case yh_ty (yf_header f) of
          TyData \<Rightarrow> yf_payload f
        | TyPing \<Rightarrow> be_bytes 4 (unat (yh_length (yf_header f)))
        | _ \<Rightarrow> [])\<rparr>"

definition yamux_unread :: "yamux_frame \<Rightarrow> byte list" where
  "yamux_unread f = (if yh_ty (yf_header f) = TyData then [] else yf_payload f)"

text \<open>The part of a received frame that was on the wire.\<close>

definition yamux_on_wire :: "yamux_frame \<Rightarrow> yamux_frame" where
  "yamux_on_wire f = (if yh_ty (yf_header f) = TyData then f else f\<lparr>yf_payload := []\<rparr>)"

lemma unat_mod_width [simp]:
  "unat (b :: byte) mod 256 = unat b" "unat (h :: u16) mod 65536 = unat h"
  "unat (w :: u32) mod 4294967296 = unat w"
  using unsigned_less [where 'a = nat and w = b] unsigned_less [where 'a = nat and w = h]
    unsigned_less [where 'a = nat and w = w] by simp_all

lemma length_yamux_encode: "HEADER_LEN \<le> length (yamux_encode f)"
  by (simp add: yamux_encode_def HEADER_LEN_def Let_def)

lemma yamux_decode_encode:
  "yamux_decode (yamux_encode f) = Some (Inr (Some (yamux_received f)), yamux_unread f)"
proof -
  have "\<not> length (yamux_encode f) < HEADER_LEN"
    using length_yamux_encode [of f] by simp
  then show ?thesis
    unfolding yamux_decode_def
    by (simp add: yamux_encode_def yamux_received_def yamux_unread_def Let_def
        del: One_nat_def be_bytes.simps split: yamux_ty.splits)
qed

lemma yamux_encode_decode:
  assumes "yamux_decode src = Some (Inr (Some f), rest)"
  shows "yamux_encode (yamux_on_wire f) @ rest = src"
  using assms
  by (auto simp: yamux_decode_def yamux_encode_def yamux_on_wire_def get_be_Some Let_def
      unsigned_of_nat take_bit_eq_mod encode_decode_flags dest: ty_code_try_from
      split: if_splits option.splits sum.splits prod.splits yamux_ty.splits)

lemma yamux_decode_total: "\<exists>r rest. yamux_decode src = Some (r, rest) \<and> r \<noteq> Inr None"
  by (auto simp: yamux_decode_def get_be_def HEADER_LEN_def Let_def
      split: if_splits option.splits sum.splits prod.splits)

lemma yamux_decode_error_kind:
  "yamux_decode src = Some (Inl e, rest) \<Longrightarrow> err_kind e = InvalidData"
  by (auto simp: yamux_decode_def ty_try_from_def decode_flags_def Let_def
      split: if_splits option.splits sum.splits prod.splits)

lemma yamux_decode_classified:
  "\<exists>r rest. yamux_decode src = Some (r, rest)
     \<and> (case r of
          Inl e \<Rightarrow> err_kind e = InvalidData \<and> src \<notin> range yamux_encode
        | Inr None \<Rightarrow> False
        | Inr (Some f) \<Rightarrow> yamux_encode (yamux_on_wire f) @ rest = src \<and> src \<in> range yamux_encode)"
proof -
  obtain r rest where d: "yamux_decode src = Some (r, rest)" "r \<noteq> Inr None"
    using yamux_decode_total by blast
  show ?thesis
  proof (cases r)
    case (Inl e)
    then show ?thesis
      using d yamux_decode_error_kind yamux_decode_encode by fastforce
  next
    case (Inr o1)
    then obtain f where f: "yamux_decode src = Some (Inr (Some f), rest)"
      using d by (cases o1) auto
    have "yamux_encode (yamux_on_wire f) @ rest = yamux_encode ((yamux_on_wire f)\<lparr>yf_payload := yf_payload (yamux_on_wire f) @ rest\<rparr>)"
      by (simp add: yamux_encode_def Let_def)
    then show ?thesis
      using f yamux_encode_decode [OF f] by force
  qed
qed


end
