(* ===== verification/Noise.thy ===== *)
theory Noise
  imports Yamux
begin

text \<open>
  The Noise layer of \<open>examples/src/noise.rs\<close> and the codec the \<open>libp2p\<close> example puts on top of it:
  messages are cut into chunks, each chunk is encrypted under its own nonce, and the encrypted message
  travels as one length-delimited frame. The \<open>snow\<close> library is a parameter; relied on is that what one
  end encrypts under a nonce, sixteen bytes longer, the other end decrypts under the same nonce.
\<close>

section \<open>State\<close>

definition MAX_MESSAGE_LEN :: nat where
  "MAX_MESSAGE_LEN = 65535"

record ('h, 'k) snow_ops =
  sn_hs_read :: "'h \<Rightarrow> byte list \<Rightarrow> (byte list \<times> 'h) option"
  sn_hs_write :: "'h \<Rightarrow> byte list \<Rightarrow> (byte list \<times> 'h) option"
  sn_into_transport :: "'h \<Rightarrow> 'k option"
  sn_read :: "'k \<Rightarrow> u64 \<Rightarrow> byte list \<Rightarrow> byte list option"
  sn_write :: "'k \<Rightarrow> u64 \<Rightarrow> byte list \<Rightarrow> byte list option"

record 'k post_handshake_state =
  ph_state :: 'k
  ph_rx_carryover :: "byte list option"
  ph_rx_nonce :: u64
  ph_tx_nonce :: u64

datatype ('h, 'k) noise_state = Handshaking 'h | PostHandshake "'k post_handshake_state"

text \<open>\<open>None\<close> is a panic, here and below.\<close>

fun noise_state_clone :: "('h, 'k) noise_state \<Rightarrow> ('h, 'k) noise_state option" where
  "noise_state_clone (Handshaking _) = None"
| "noise_state_clone (PostHandshake ph) = Some (PostHandshake ph)"

fun into_post_handshake :: "('h, 'k) snow_ops \<Rightarrow> ('h, 'k) noise_state \<Rightarrow> ('h, 'k) noise_state option" where
  "into_post_handshake sn (Handshaking h) =
     map_option (\<lambda>k. PostHandshake \<lparr>ph_state = k, ph_rx_carryover = None, ph_rx_nonce = 0, ph_tx_nonce = 0\<rparr>)
       (sn_into_transport sn h)"
| "into_post_handshake sn (PostHandshake _) = None"

fun save_buffer :: "byte list \<Rightarrow> ('h, 'k) noise_state \<Rightarrow> ('h, 'k) noise_state option" where
  "save_buffer buf (Handshaking _) = None"
| "save_buffer buf (PostHandshake ph) = Some (PostHandshake (ph\<lparr>ph_rx_carryover := Some buf\<rparr>))"

record ('h, 'k, 's) noise_codec =
  nc_codec :: 's
  nc_noise :: "('h, 'k) noise_state"

definition noise_codec_new :: "'s ld_codec \<Rightarrow> ('h, 'k) noise_state \<Rightarrow> ('h, 'k, 's) noise_codec" where
  "noise_codec_new ld noise = \<lparr>nc_codec = ld_start ld, nc_noise = noise\<rparr>"

section \<open>The codec\<close>

text \<open>\<open>slice::chunks\<close> for a positive size.\<close>

fun chunks :: "nat \<Rightarrow> 'a list \<Rightarrow> 'a list list" where
  "chunks n xs = (if xs = [] \<or> n = 0 then [] else take n xs # chunks n (drop n xs))"

declare chunks.simps [simp del]

text \<open>The two loops over the chunks of a message, with the nonce after them.\<close>

fun decrypt_chunks ::
  "('h, 'k) snow_ops \<Rightarrow> 'k \<Rightarrow> u64 \<Rightarrow> byte list list \<Rightarrow> byte list io_result \<times> u64" where
  "decrypt_chunks sn k nonce [] = (Inr [], nonce)"
| "decrypt_chunks sn k nonce (c # cs) =
     (case sn_read sn k nonce c of
        None \<Rightarrow> (Inl (IoError InvalidData NoPayload), nonce)
      | Some p \<Rightarrow>
          (case decrypt_chunks sn k (nonce + 1) cs of
             (Inl e, nonce') \<Rightarrow> (Inl e, nonce')
           | (Inr ps, nonce') \<Rightarrow> (Inr (p @ ps), nonce')))"

fun encrypt_chunks ::
  "('h, 'k) snow_ops \<Rightarrow> 'k \<Rightarrow> u64 \<Rightarrow> byte list list \<Rightarrow> (byte list \<times> u64) option" where
  "encrypt_chunks sn k nonce [] = Some ([], nonce)"
| "encrypt_chunks sn k nonce (p # ps) =
     (case sn_write sn k nonce p of
        None \<Rightarrow> None
      | Some c \<Rightarrow>
          (case encrypt_chunks sn k (nonce + 1) ps of
             None \<Rightarrow> None
           | Some (cs, nonce') \<Rightarrow> Some (c @ cs, nonce')))"

text \<open>The bytes carried over from the handshake go before those of the buffer, once.\<close>

fun take_carryover :: "('h, 'k) noise_state \<Rightarrow> byte list \<Rightarrow> ('h, 'k) noise_state \<times> byte list" where
  "take_carryover (Handshaking h) src = (Handshaking h, src)"
| "take_carryover (PostHandshake ph) src =
     (case ph_rx_carryover ph of
        None \<Rightarrow> (PostHandshake ph, src)
      | Some carryover \<Rightarrow> (PostHandshake (ph\<lparr>ph_rx_carryover := None\<rparr>), carryover @ src))"

definition noise_decode ::
  "('h, 'k) snow_ops \<Rightarrow> 's ld_codec \<Rightarrow> (('h, 'k, 's) noise_codec, byte list) stream_decoder" where
  "noise_decode sn ld codec src0 =
     (let (noise, src) = take_carryover (nc_noise codec) src0 in
      case ld_decode ld (nc_codec codec) src of
        (Inl e, s, src') \<Rightarrow> (Inl e, \<lparr>nc_codec = s, nc_noise = noise\<rparr>, src')
      | (Inr None, s, src') \<Rightarrow> (Inr None, \<lparr>nc_codec = s, nc_noise = noise\<rparr>, src')
      | (Inr (Some bytes), s, src') \<Rightarrow>
          (case noise of
             Handshaking h \<Rightarrow>
               (case sn_hs_read sn h bytes of
                  None \<Rightarrow> (Inl (IoError InvalidData NoPayload), \<lparr>nc_codec = s, nc_noise = noise\<rparr>, src')
                | Some (msg, h') \<Rightarrow> (Inr (Some msg), \<lparr>nc_codec = s, nc_noise = Handshaking h'\<rparr>, src'))
           | PostHandshake ph \<Rightarrow>
               (case decrypt_chunks sn (ph_state ph) (ph_rx_nonce ph) (chunks MAX_MESSAGE_LEN bytes) of
                  (r, nonce) \<Rightarrow>
                    ((case r of Inl e \<Rightarrow> Inl e | Inr msg \<Rightarrow> Inr (Some msg)),
                     \<lparr>nc_codec = s, nc_noise = PostHandshake (ph\<lparr>ph_rx_nonce := nonce\<rparr>)\<rparr>, src'))))"

definition noise_encode ::
  "('h, 'k) snow_ops \<Rightarrow> 's ld_codec \<Rightarrow> ('h, 'k, 's) noise_codec \<Rightarrow> byte list
     \<Rightarrow> (byte list io_result \<times> ('h, 'k, 's) noise_codec) option" where
  "noise_encode sn ld codec msg =
     (case nc_noise codec of
        Handshaking h \<Rightarrow>
          (case sn_hs_write sn h msg of
             None \<Rightarrow> None
           | Some (bytes, h') \<Rightarrow> Some (ld_encode ld bytes, codec\<lparr>nc_noise := Handshaking h'\<rparr>))
      | PostHandshake ph \<Rightarrow>
          (case encrypt_chunks sn (ph_state ph) (ph_tx_nonce ph) (chunks (MAX_MESSAGE_LEN - 16) msg) of
             None \<Rightarrow> None
           | Some (encrypted_msg, nonce) \<Rightarrow>
               Some (ld_encode ld encrypted_msg,
                     codec\<lparr>nc_noise := PostHandshake (ph\<lparr>ph_tx_nonce := nonce\<rparr>)\<rparr>)))"

section \<open>Chunks\<close>

lemma chunks_Nil [simp]: "chunks n [] = []"
  by (simp add: chunks.simps)

lemma chunks_short: "xs \<noteq> [] \<Longrightarrow> length xs \<le> n \<Longrightarrow> chunks n xs = [xs]"
  by (cases n) (simp_all add: chunks.simps)

lemma chunks_append: "0 < n \<Longrightarrow> length xs = n \<Longrightarrow> chunks n (xs @ ys) = xs # chunks n ys"
  by (subst chunks.simps) auto

lemma concat_chunks: "0 < n \<Longrightarrow> concat (chunks n xs) = xs"
  by (induction n xs rule: chunks.induct) (subst chunks.simps, auto)

definition snow_contract :: "('h, 'k) snow_ops \<Rightarrow> 'k \<Rightarrow> 'k \<Rightarrow> bool" where
  "snow_contract sn tx rx \<longleftrightarrow>
     (\<forall>nonce p c. sn_write sn tx nonce p = Some c
        \<longrightarrow> length c = length p + 16 \<and> sn_read sn rx nonce c = Some p)"

text \<open>Cutting the encrypted message gives the encrypted chunks again, and they decrypt to the message.\<close>

lemma decrypt_encrypt_chunks:
  assumes "snow_contract sn tx rx" and "0 < n"
    and "encrypt_chunks sn tx nonce (chunks n msg) = Some (cs, nonce')"
  shows "decrypt_chunks sn rx nonce (chunks (n + 16) cs) = (Inr msg, nonce')"
  using assms(3)
proof (induction "length msg" arbitrary: msg nonce cs rule: less_induct)
  case less
  show ?case
  proof (cases "msg = []")
    case True
    then show ?thesis using less.prems by simp
  next
    case False
    let ?p = "take n msg"
    obtain c cs' where c: "sn_write sn tx nonce ?p = Some c"
        "encrypt_chunks sn tx (nonce + 1) (chunks n (drop n msg)) = Some (cs', nonce')" "cs = c @ cs'"
      using less.prems False assms(2) by (subst (asm) chunks.simps) (auto split: option.splits)
    have len: "length c = length ?p + 16" and rd: "sn_read sn rx nonce c = Some ?p"
      using assms(1) c(1) by (auto simp: snow_contract_def)
    have IH: "decrypt_chunks sn rx (nonce + 1) (chunks (n + 16) cs') = (Inr (drop n msg), nonce')"
      using less.hyps [OF _ c(2)] False assms(2) by simp
    have "chunks (n + 16) cs = c # chunks (n + 16) cs'"
    proof (cases "length msg \<le> n")
      case True
      then have "cs' = []" using c(2) by simp
      moreover have "c \<noteq> []" using len by auto
      ultimately show ?thesis
        using c(3) len True by (simp add: chunks_short)
    next
      case False
      then show ?thesis
        using c(3) len by (simp add: chunks_append)
    qed
    then show ?thesis
      using rd IH by simp
  qed
qed

section \<open>Streams of messages\<close>

text \<open>The encoding end and the decoding end are in step: both past the handshake, their keys belong
  together, and the nonces agree.\<close>

definition noise_in_step ::
  "('h, 'k) snow_ops \<Rightarrow> 's ld_codec \<Rightarrow> nat \<Rightarrow> ('h, 'k, 's) noise_codec \<Rightarrow> ('h, 'k, 's) noise_codec \<Rightarrow> bool" where
  "noise_in_step sn ld max_len e d \<longleftrightarrow>
     ld_contract ld max_len \<and> nc_codec d = ld_start ld
     \<and> (\<exists>tx rx. nc_noise e = PostHandshake tx \<and> nc_noise d = PostHandshake rx
          \<and> ph_rx_carryover rx = None \<and> ph_tx_nonce tx = ph_rx_nonce rx
          \<and> snow_contract sn (ph_state tx) (ph_state rx))"

lemma noise_decodes:
  assumes "noise_in_step sn ld max_len e d" and "noise_encode sn ld e msg = Some (Inr bs, e')"
  shows "\<exists>d'. noise_decode sn ld d (bs @ rest) = (Inr (Some msg), d', rest) \<and> noise_in_step sn ld max_len e' d'"
proof -
  obtain tx rx where st: "ld_contract ld max_len" "nc_codec d = ld_start ld"
      "nc_noise e = PostHandshake tx" "nc_noise d = PostHandshake rx" "ph_rx_carryover rx = None"
      "ph_tx_nonce tx = ph_rx_nonce rx" "snow_contract sn (ph_state tx) (ph_state rx)"
    using assms(1) by (auto simp: noise_in_step_def)
  obtain c nonce where c: "encrypt_chunks sn (ph_state tx) (ph_rx_nonce rx)
        (chunks (MAX_MESSAGE_LEN - 16) msg) = Some (c, nonce)" "ld_encode ld c = Inr bs"
      "e' = e\<lparr>nc_noise := PostHandshake (tx\<lparr>ph_tx_nonce := nonce\<rparr>)\<rparr>"
    using assms(2) st by (auto simp: noise_encode_def split: option.splits prod.splits)
  have "decrypt_chunks sn (ph_state rx) (ph_rx_nonce rx) (chunks MAX_MESSAGE_LEN c) = (Inr msg, nonce)"
    using decrypt_encrypt_chunks [OF st(7) _ c(1)] by (simp add: MAX_MESSAGE_LEN_def)
  moreover have "ld_decode ld (ld_start ld) (bs @ rest) = (Inr (Some c), ld_start ld, rest)"
    using st(1) c(2) by (simp add: ld_contract_def)
  ultimately show ?thesis
    using st c(3) by (simp add: noise_decode_def noise_in_step_def)
qed

definition noise_encoder ::
  "('h, 'k) snow_ops \<Rightarrow> 's ld_codec \<Rightarrow> (('h, 'k, 's) noise_codec, byte list) encoder" where
  "noise_encoder sn ld e msg =
     (case noise_encode sn ld e msg of
        None \<Rightarrow> (Inl (IoError Other (Message ''panicked'')), e)
      | Some r \<Rightarrow> r)"

interpretation noise_stream: stream_codec "noise_encoder sn ld" "noise_decode sn ld"
    "noise_in_step sn ld max_len"
proof unfold_locales
  show "\<exists>d'. noise_decode sn ld d (bs @ rest) = (Inr (Some m), d', rest) \<and> noise_in_step sn ld max_len e' d'"
    if "noise_in_step sn ld max_len e d" "noise_encoder sn ld e m = (Inr bs, e')" for e d m bs e' rest
    using that(2) noise_decodes [OF that(1)] by (auto simp: noise_encoder_def split: option.splits)
qed

lemma noise_decode_carryover:
  assumes "nc_noise d = PostHandshake ph" and "ph_rx_carryover ph = Some buf"
  shows "noise_decode sn ld d src
    = noise_decode sn ld (d\<lparr>nc_noise := PostHandshake (ph\<lparr>ph_rx_carryover := None\<rparr>)\<rparr>) (buf @ src)"
  using assms by (simp add: noise_decode_def)

text \<open>Messages of any size and number that one end encrypts after the handshake are decrypted by
  the other end exactly, in order and without touching the bytes that follow, also when the first of
  their bytes had already been read during the handshake and were carried over from it.\<close>

lemma noise_sequence:
  assumes "noise_in_step sn ld max_len e (d\<lparr>nc_noise := PostHandshake (ph\<lparr>ph_rx_carryover := None\<rparr>)\<rparr>)"
    and "encode_all (noise_encoder sn ld) e ms = (Inr bs, e')" and "ms \<noteq> []"
    and "nc_noise d = PostHandshake ph"
    and "(case ph_rx_carryover ph of None \<Rightarrow> [] | Some buf \<Rightarrow> buf) @ src = bs @ rest"
  shows "\<exists>d'. decode_upto (noise_decode sn ld) (length ms) d src = (ms, d', rest)
    \<and> noise_in_step sn ld max_len e' d'"
proof -
  let ?d = "d\<lparr>nc_noise := PostHandshake (ph\<lparr>ph_rx_carryover := None\<rparr>)\<rparr>"
  have "noise_decode sn ld d src = noise_decode sn ld ?d (bs @ rest)"
  proof (cases "ph_rx_carryover ph")
    case None
    then have "?d = d" using assms(4) by simp
    then show ?thesis using None assms(5) by simp
  next
    case (Some buf)
    then show ?thesis using noise_decode_carryover [OF assms(4) Some] assms(5) by simp
  qed
  then have "decode_upto (noise_decode sn ld) (length ms) d src
      = decode_upto (noise_decode sn ld) (length ms) ?d (bs @ rest)"
    using assms(3) by (cases ms) simp_all
  then show ?thesis
    using noise_stream.decodes_all [OF assms(1,2), of rest] by simp
qed

text \<open>A cipher for the examples: the nonce's last byte is added to every byte, and sixteen copies of it
  are the tag.\<close>

definition toy_snow :: "(unit, unit) snow_ops" where
  "toy_snow = \<lparr>sn_hs_read = (\<lambda>_ bs. Some (bs, ())), sn_hs_write = (\<lambda>_ bs. Some (bs, ())),
     sn_into_transport = Some,
     sn_read = (\<lambda>_ n c. if drop (length c - 16) c = replicate 16 (ucast n)
        then Some (map (\<lambda>b. b - ucast n) (take (length c - 16) c)) else None),
     sn_write = (\<lambda>_ n p. if length p \<le> MAX_MESSAGE_LEN - 16
        then Some (map (\<lambda>b. b + ucast n) p @ replicate 16 (ucast n)) else None)\<rparr>"

lemma toy_snow_contract: "snow_contract toy_snow () ()"
  by (auto simp: snow_contract_def toy_snow_def map_idI split: if_splits)

definition toy_codec :: "byte list option \<Rightarrow> (unit, unit, unit) noise_codec" where
  "toy_codec carryover = \<lparr>nc_codec = (), nc_noise = PostHandshake
     \<lparr>ph_state = (), ph_rx_carryover = carryover, ph_rx_nonce = 0, ph_tx_nonce = 0\<rparr>\<rparr>"

section \<open>The codec of the libp2p example\<close>

text \<open>A frame of the multiplexer is encoded on its own, cut, and each part encrypted; a received
  message is decrypted and decoded as one frame.\<close>

fun noise_encode_parts ::
  "('h, 'k) snow_ops \<Rightarrow> 's ld_codec \<Rightarrow> ('h, 'k, 's) noise_codec \<Rightarrow> byte list list
     \<Rightarrow> (byte list io_result \<times> ('h, 'k, 's) noise_codec) option" where
  "noise_encode_parts sn ld e [] = Some (Inr [], e)"
| "noise_encode_parts sn ld e (part # parts) =
     (case noise_encode sn ld e part of
        None \<Rightarrow> None
      | Some (Inl err, e') \<Rightarrow> Some (Inl err, e')
      | Some (Inr bs, e') \<Rightarrow>
          (case noise_encode_parts sn ld e' parts of
             None \<Rightarrow> None
           | Some (Inl err, e'') \<Rightarrow> Some (Inl err, e'')
           | Some (Inr bs', e'') \<Rightarrow> Some (Inr (bs @ bs'), e'')))"

definition libp2p_encode ::
  "('h, 'k) snow_ops \<Rightarrow> 's ld_codec \<Rightarrow> ('h, 'k, 's) noise_codec \<Rightarrow> yamux_frame
     \<Rightarrow> (byte list io_result \<times> ('h, 'k, 's) noise_codec) option" where
  "libp2p_encode sn ld e msg = noise_encode_parts sn ld e (chunks MAX_MESSAGE_LEN (yamux_encode msg))"

definition libp2p_decode ::
  "('h, 'k) snow_ops \<Rightarrow> 's ld_codec \<Rightarrow> ('h, 'k, 's) noise_codec \<Rightarrow> byte list
     \<Rightarrow> (yamux_frame option io_result \<times> ('h, 'k, 's) noise_codec \<times> byte list) option" where
  "libp2p_decode sn ld d src =
     (case noise_decode sn ld d src of
        (Inl e, d', src') \<Rightarrow> Some (Inl e, d', src')
      | (Inr None, d', src') \<Rightarrow> Some (Inr None, d', src')
      | (Inr (Some bytes), d', src') \<Rightarrow>
          map_option (\<lambda>(r, _). (r, d', src')) (yamux_decode bytes))"

lemma encrypt_chunks_length:
  assumes "snow_contract sn tx rx"
  shows "encrypt_chunks sn tx nonce ps = Some (c, nonce') \<Longrightarrow> length c = length (concat ps) + 16 * length ps"
proof (induction ps arbitrary: nonce c)
  case (Cons p ps)
  then show ?case
    using assms by (fastforce simp: snow_contract_def split: option.splits)
qed simp

text \<open>A message that does not fit a frame together with its tag is refused.\<close>

lemma noise_encode_too_long:
  assumes "noise_in_step sn ld MAX_MESSAGE_LEN e d" and "MAX_MESSAGE_LEN - 16 < length msg"
  shows "noise_encode sn ld e msg \<noteq> Some (Inr bs, e')"
proof
  assume "noise_encode sn ld e msg = Some (Inr bs, e')"
  moreover obtain tx k where st: "ld_contract ld MAX_MESSAGE_LEN" "nc_noise e = PostHandshake tx"
      "snow_contract sn (ph_state tx) k"
    using assms(1) by (auto simp: noise_in_step_def)
  ultimately obtain c nonce where c: "encrypt_chunks sn (ph_state tx) (ph_tx_nonce tx)
        (chunks (MAX_MESSAGE_LEN - 16) msg) = Some (c, nonce)" "ld_encode ld c = Inr bs"
    by (auto simp: noise_encode_def split: option.splits prod.splits)
  let ?cs = "chunks (MAX_MESSAGE_LEN - 16) msg"
  have "length c = length msg + 16 * length ?cs"
    using encrypt_chunks_length [OF st(3) c(1)] by (simp add: concat_chunks MAX_MESSAGE_LEN_def)
  moreover have "?cs \<noteq> []"
    using assms(2) by (subst chunks.simps) (auto simp: MAX_MESSAGE_LEN_def)
  moreover have "length c \<le> MAX_MESSAGE_LEN"
    using st(1) c(2) by (auto simp: ld_contract_def)
  ultimately show False
    using assms(2) by (cases ?cs) auto
qed



end
