(* ===== verification/Noise_Handshake.thy ===== *)
theory Noise_Handshake
  imports Noise Handshake
begin

text \<open>
  The XX handshake of \<open>examples/src/noise.rs\<close> and the node of \<open>examples/examples/noise_handshake.rs\<close>
  that runs it. Parameters: \<open>snow\<close>'s handshake states, and \<open>tokio_util\<close>'s \<open>Framed\<close> with the stream it
  borrows. Relied on of \<open>Framed\<close> is that a message sent is encoded and written, and that receiving
  hands out what the decoder makes of the bytes of the stream, however they arrive, keeping the bytes
  it has read beyond in its own buffer.
\<close>

section \<open>Framed streams\<close>

record ('c, 'io, 'f) framed_rw =
  fr_new :: "'io \<Rightarrow> 'c \<Rightarrow> 'f"
  fr_send :: "byte list \<Rightarrow> 'f \<Rightarrow> (unit io_result \<times> 'f) option"
  fr_next :: "'f \<Rightarrow> byte list option io_result \<times> 'f"
  fr_io :: "'f \<Rightarrow> 'io"
  fr_codec :: "'f \<Rightarrow> 'c"
  fr_read_buf :: "'f \<Rightarrow> byte list"

text \<open>The contract, on the bytes a stream will still deliver and those written to it.\<close>

definition framed_rw_contract ::
  "('c \<Rightarrow> byte list \<Rightarrow> (byte list io_result \<times> 'c) option) \<Rightarrow> ('c, byte list) stream_decoder
     \<Rightarrow> ('io \<Rightarrow> byte list) \<Rightarrow> ('io \<Rightarrow> byte list) \<Rightarrow> ('c, 'io, 'f) framed_rw \<Rightarrow> bool" where
  "framed_rw_contract enc dec unread written fr \<longleftrightarrow>
     (\<forall>io c. fr_io fr (fr_new fr io c) = io \<and> fr_codec fr (fr_new fr io c) = c \<and> fr_read_buf fr (fr_new fr io c) = [])
     \<and> (\<forall>msg f u f'. fr_send fr msg f = Some (Inr u, f') \<longrightarrow>
          (\<exists>bs. enc (fr_codec fr f) msg = Some (Inr bs, fr_codec fr f')
             \<and> written (fr_io fr f') = written (fr_io fr f) @ bs)
          \<and> unread (fr_io fr f') = unread (fr_io fr f) \<and> fr_read_buf fr f' = fr_read_buf fr f)
     \<and> (\<forall>f r f'. fr_next fr f = (Inr r, f') \<longrightarrow>
          written (fr_io fr f') = written (fr_io fr f)
          \<and> (\<exists>more. unread (fr_io fr f) = more @ unread (fr_io fr f'))
          \<and> (\<forall>item c rest. dec (fr_codec fr f) (fr_read_buf fr f @ unread (fr_io fr f)) = (Inr (Some item), c, rest)
               \<longrightarrow> r = Some item \<and> fr_codec fr f' = c \<and> fr_read_buf fr f' @ unread (fr_io fr f') = rest))"

text \<open>A sequence of fallible steps on a framed stream; \<open>None\<close> is a panic.\<close>

type_synonym ('f, 'a) framed_act = "'f \<Rightarrow> ('a io_result \<times> 'f) option"

definition act_return :: "'a \<Rightarrow> ('f, 'a) framed_act" where
  "act_return a f = Some (Inr a, f)"

definition act_then :: "('f, 'a) framed_act \<Rightarrow> ('a \<Rightarrow> ('f, 'b) framed_act) \<Rightarrow> ('f, 'b) framed_act" where
  "act_then m k f =
     (case m f of
        None \<Rightarrow> None
      | Some (Inl e, f') \<Rightarrow> Some (Inl e, f')
      | Some (Inr a, f') \<Rightarrow> k a f')"

definition act_next :: "('c, 'io, 'f) framed_rw \<Rightarrow> ('f, byte list option) framed_act" where
  "act_next fr f = Some (fr_next fr f)"

lemma act_then_Inr:
  "act_then m k f = Some (Inr b, f') \<longleftrightarrow> (\<exists>a f1. m f = Some (Inr a, f1) \<and> k a f1 = Some (Inr b, f'))"
  by (auto simp: act_then_def split: option.splits sum.splits)

lemma act_return_Inr [simp]: "act_return a f = Some (Inr b, f') \<longleftrightarrow> b = a \<and> f' = f"
  by (auto simp: act_return_def)

section \<open>The handshake\<close>

text \<open>\<open>unwrap_or_default\<close> of a received message.\<close>

definition msg_or_default :: "byte list option \<Rightarrow> byte list" where
  "msg_or_default m = (case m of None \<Rightarrow> [] | Some bs \<Rightarrow> bs)"

text \<open>The three messages; only their order differs between the two sides.\<close>

fun xx_messages ::
  "('c, 'io, 'f) framed_rw \<Rightarrow> connection_side \<Rightarrow> byte list \<Rightarrow> ('f, byte list) framed_act" where
  "xx_messages fr Initiator payload =
     act_then (fr_send fr []) (\<lambda>_.
     act_then (act_next fr) (\<lambda>m.
     act_then (fr_send fr payload) (\<lambda>_.
     act_return (msg_or_default m))))"
| "xx_messages fr Responder payload =
     act_then (act_next fr) (\<lambda>_.
     act_then (fr_send fr payload) (\<lambda>_.
     act_then (act_next fr) (\<lambda>m.
     act_return (msg_or_default m))))"

abbreviation hs_codec :: "'s ld_codec \<Rightarrow> 'h \<Rightarrow> ('h, 'k, 's) noise_codec" where
  "hs_codec ld h \<equiv> noise_codec_new ld (Handshaking h)"

text \<open>\<open>handshake_xx\<close>: the Noise state for the transport and the payload of the peer, and the stream
  when it is given back. \<open>build\<close> is \<open>snow\<close>'s builder; what the framed stream had read beyond the last
  message is dropped together with it.\<close>

definition handshake_xx ::
  "('h, 'k) snow_ops \<Rightarrow> 's ld_codec \<Rightarrow> (('h, 'k, 's) noise_codec, 'io, 'f) framed_rw
     \<Rightarrow> (connection_side \<Rightarrow> 'h option) \<Rightarrow> connection_side \<Rightarrow> byte list \<Rightarrow> 'io
     \<Rightarrow> ((('h, 'k) noise_state \<times> byte list) io_result \<times> 'io) option" where
  "handshake_xx sn ld fr build side payload io =
     (case build side of
        None \<Rightarrow> None
      | Some h \<Rightarrow>
          (case xx_messages fr side payload (fr_new fr io (hs_codec ld h)) of
             None \<Rightarrow> None
           | Some (Inl e, f) \<Rightarrow> Some (Inl e, fr_io fr f)
           | Some (Inr secure_payload, f) \<Rightarrow>
               map_option (\<lambda>noise_state. (Inr (noise_state, secure_payload), fr_io fr f))
                 (into_post_handshake sn (nc_noise (fr_codec fr f)))))"

section \<open>The node\<close>

record ('h, 'k) secure_node =
  sec_noise_states :: "(socket_addr, ('h, 'k) noise_state) fmap"

text \<open>\<open>perform_handshake\<close> on the stream of the connection.\<close>

definition secure_handshake ::
  "('h, 'k) snow_ops \<Rightarrow> 's ld_codec \<Rightarrow> (('h, 'k, 's) noise_codec, 'io, 'f) framed_rw
     \<Rightarrow> (connection_side \<Rightarrow> 'h option) \<Rightarrow> connection \<Rightarrow> (stream \<Rightarrow> 'io) \<Rightarrow> ('h, 'k) secure_node
     \<Rightarrow> (connection io_result \<times> (stream \<Rightarrow> 'io) \<times> ('h, 'k) secure_node) option" where
  "secure_handshake sn ld fr build conn ios d =
     (case borrow_stream conn of
        None \<Rightarrow> None
      | Some s \<Rightarrow>
          (case handshake_xx sn ld fr build (side_not (conn_side conn)) [] (ios s) of
             None \<Rightarrow> None
           | Some (Inl e, io) \<Rightarrow> Some (Inl e, ios(s := io), d)
           | Some (Inr (noise_state, _), io) \<Rightarrow>
               Some (Inr conn, ios(s := io),
                 d\<lparr>sec_noise_states := fmupd (conn_addr conn) noise_state (sec_noise_states d)\<rparr>)))"

definition secure_reading_codec ::
  "'s ld_codec \<Rightarrow> socket_addr \<Rightarrow> ('h, 'k) secure_node \<Rightarrow> ('h, 'k, 's) noise_codec option" where
  "secure_reading_codec ld addr d =
     (case fmlookup (sec_noise_states d) addr of
        None \<Rightarrow> None
      | Some st \<Rightarrow> map_option (noise_codec_new ld) (noise_state_clone st))"

definition secure_writing_codec ::
  "'s ld_codec \<Rightarrow> socket_addr \<Rightarrow> ('h, 'k) secure_node
     \<Rightarrow> (('h, 'k, 's) noise_codec \<times> ('h, 'k) secure_node) option" where
  "secure_writing_codec ld addr d =
     (case fmlookup (sec_noise_states d) addr of
        None \<Rightarrow> None
      | Some st \<Rightarrow>
          Some (noise_codec_new ld st, d\<lparr>sec_noise_states := fmdrop addr (sec_noise_states d)\<rparr>))"

section \<open>Agreement\<close>

text \<open>What is relied on of \<open>snow\<close> for two states built for the two sides: each message is read back
  with its payload, and the transport states of the two ends belong together.\<close>

definition xx_done :: "('h, 'k) snow_ops \<Rightarrow> 'h \<Rightarrow> 'h \<Rightarrow> bool" where
  "xx_done sn hi hr \<longleftrightarrow>
     (\<forall>ki kr. sn_into_transport sn hi = Some ki \<longrightarrow> sn_into_transport sn hr = Some kr
        \<longrightarrow> snow_contract sn ki kr \<and> snow_contract sn kr ki)"

definition xx_after_first :: "('h, 'k) snow_ops \<Rightarrow> 'h \<Rightarrow> 'h \<Rightarrow> bool" where
  "xx_after_first sn hi hr \<longleftrightarrow>
     (\<forall>p2 m2 hr2. sn_hs_write sn hr p2 = Some (m2, hr2) \<longrightarrow>
        (\<exists>hi2. sn_hs_read sn hi m2 = Some (p2, hi2)
          \<and> (\<forall>p3 m3 hi3. sn_hs_write sn hi2 p3 = Some (m3, hi3) \<longrightarrow>
               (\<exists>hr3. sn_hs_read sn hr2 m3 = Some (p3, hr3) \<and> xx_done sn hi3 hr3))))"

definition xx_contract :: "('h, 'k) snow_ops \<Rightarrow> 'h \<Rightarrow> 'h \<Rightarrow> bool" where
  "xx_contract sn hi hr \<longleftrightarrow>
     (\<forall>p1 m1 hi1. sn_hs_write sn hi p1 = Some (m1, hi1) \<longrightarrow>
        (\<exists>hr1. sn_hs_read sn hr m1 = Some (p1, hr1) \<and> xx_after_first sn hi1 hr1))"

lemma noise_encode_handshaking:
  "noise_encode sn ld c msg = Some (Inr bs, c') \<Longrightarrow> nc_noise c = Handshaking h
     \<Longrightarrow> \<exists>m h'. sn_hs_write sn h msg = Some (m, h') \<and> ld_encode ld m = Inr bs \<and> c' = c\<lparr>nc_noise := Handshaking h'\<rparr>"
  by (auto simp: noise_encode_def split: option.splits)

lemma noise_decode_handshaking:
  assumes "ld_contract ld max_len" and "ld_encode ld m = Inr bs" and "sn_hs_read sn h m = Some (msg, h')"
  shows "noise_decode sn ld \<lparr>nc_codec = ld_start ld, nc_noise = Handshaking h\<rparr> (bs @ rest)
    = (Inr (Some msg), \<lparr>nc_codec = ld_start ld, nc_noise = Handshaking h'\<rparr>, rest)"
  using assms by (simp add: noise_decode_def ld_contract_def)

abbreviation pending_bytes :: "('c, 'io, 'f) framed_rw \<Rightarrow> ('io \<Rightarrow> byte list) \<Rightarrow> 'f \<Rightarrow> byte list" where
  "pending_bytes fr unread f \<equiv> fr_read_buf fr f @ unread (fr_io fr f)"

lemma framed_send:
  assumes "framed_rw_contract enc dec unread written fr" and "fr_send fr msg f = Some (Inr u, f')"
  obtains bs where "enc (fr_codec fr f) msg = Some (Inr bs, fr_codec fr f')"
    and "written (fr_io fr f') = written (fr_io fr f) @ bs"
    and "pending_bytes fr unread f' = pending_bytes fr unread f" and "unread (fr_io fr f') = unread (fr_io fr f)"
proof -
  have "\<exists>bs. enc (fr_codec fr f) msg = Some (Inr bs, fr_codec fr f')
      \<and> written (fr_io fr f') = written (fr_io fr f) @ bs"
    "unread (fr_io fr f') = unread (fr_io fr f)" "fr_read_buf fr f' = fr_read_buf fr f"
    using assms unfolding framed_rw_contract_def by blast+
  then show thesis
    using that by auto
qed

lemma framed_next:
  assumes "framed_rw_contract enc dec unread written fr" and "act_next fr f = Some (Inr r, f')"
  shows "written (fr_io fr f') = written (fr_io fr f)"
    and "\<exists>more. unread (fr_io fr f) = more @ unread (fr_io fr f')"
    and "dec (fr_codec fr f) (pending_bytes fr unread f) = (Inr (Some item), c, rest)
      \<Longrightarrow> r = Some item \<and> fr_codec fr f' = c \<and> pending_bytes fr unread f' = rest"
proof -
  have "fr_next fr f = (Inr r, f')"
    using assms(2) by (simp add: act_next_def)
  with assms(1) show "written (fr_io fr f') = written (fr_io fr f)"
    "\<exists>more. unread (fr_io fr f) = more @ unread (fr_io fr f')"
    "dec (fr_codec fr f) (pending_bytes fr unread f) = (Inr (Some item), c, rest)
      \<Longrightarrow> r = Some item \<and> fr_codec fr f' = c \<and> pending_bytes fr unread f' = rest"
    unfolding framed_rw_contract_def by blast+
qed

lemma framed_new:
  assumes "framed_rw_contract enc dec unread written fr"
  shows "fr_io fr (fr_new fr io c) = io" and "fr_codec fr (fr_new fr io c) = c"
    and "fr_read_buf fr (fr_new fr io c) = []"
  using assms unfolding framed_rw_contract_def by blast+

lemma handshake_xx_Inr:
  assumes "handshake_xx sn ld fr build side payload io = Some (Inr (st, q), io')"
  obtains h f k where "build side = Some h"
    and "xx_messages fr side payload (fr_new fr io (hs_codec ld h)) = Some (Inr q, f)"
    and "io' = fr_io fr f" and "into_post_handshake sn (nc_noise (fr_codec fr f)) = Some st"
  using assms by (auto simp: handshake_xx_def split: option.splits sum.splits)

lemma hs_send:
  assumes "framed_rw_contract (noise_encode sn ld) (noise_decode sn ld) unread written fr"
    and "fr_send fr msg f = Some (Inr u, f')" and "fr_codec fr f = hs_codec ld h"
  obtains m h' bs where "sn_hs_write sn h msg = Some (m, h')" and "ld_encode ld m = Inr bs"
    and "fr_codec fr f' = hs_codec ld h'" and "written (fr_io fr f') = written (fr_io fr f) @ bs"
    and "pending_bytes fr unread f' = pending_bytes fr unread f"
proof (rule framed_send [OF assms(1,2)])
  fix bs
  assume *: "noise_encode sn ld (fr_codec fr f) msg = Some (Inr bs, fr_codec fr f')"
    "written (fr_io fr f') = written (fr_io fr f) @ bs" "pending_bytes fr unread f' = pending_bytes fr unread f"
  then obtain m h' where "sn_hs_write sn h msg = Some (m, h')" "ld_encode ld m = Inr bs"
      "fr_codec fr f' = hs_codec ld h'"
    using noise_encode_handshaking [OF *(1), of h] assms(3) by (auto simp: noise_codec_new_def)
  then show thesis
    using that * by blast
qed

lemma hs_next:
  assumes "framed_rw_contract (noise_encode sn ld) (noise_decode sn ld) unread written fr"
    and "act_next fr f = Some (Inr r, f')" and "ld_contract ld max_len"
    and "fr_codec fr f = hs_codec ld h" and "pending_bytes fr unread f = bs @ rest"
    and "ld_encode ld m = Inr bs" and "sn_hs_read sn h m = Some (p, h')"
  shows "r = Some p \<and> fr_codec fr f' = hs_codec ld h'
    \<and> pending_bytes fr unread f' = rest \<and> written (fr_io fr f') = written (fr_io fr f)"
  using framed_next(1) [OF assms(1,2)] noise_decode_handshaking [OF assms(3,6,7), of rest]
    framed_next(3) [OF assms(1,2), of p "hs_codec ld h'" rest] assms(4,5)
  by (simp add: noise_codec_new_def)

text \<open>The messages of the two sides, each of which will receive what the other one writes.\<close>

lemma xx_agree:
  fixes fr :: "(('h, 'k, 's) noise_codec, 'io, 'f) framed_rw"
  assumes fr: "framed_rw_contract (noise_encode sn ld) (noise_decode sn ld) unread written fr"
    and ld: "ld_contract ld max_len" and xx: "xx_contract sn hi hr"
    and i: "xx_messages fr Initiator pi (fr_new fr ioi (hs_codec ld hi)) = Some (Inr qi, f)"
    and r: "xx_messages fr Responder pr (fr_new fr ior (hs_codec ld hr)) = Some (Inr qr, g)"
    and w: "written ioi = []" "written ior = []"
    and ui: "unread ioi = written (fr_io fr g) @ xi" and ur: "unread ior = written (fr_io fr f) @ xr"
  shows "qi = pr \<and> qr = pi \<and> pending_bytes fr unread f = xi \<and> pending_bytes fr unread g = xr
    \<and> (\<exists>hi' hr'. fr_codec fr f = hs_codec ld hi' \<and> fr_codec fr g = hs_codec ld hr' \<and> xx_done sn hi' hr')"
proof -
  note fnew = framed_new [OF fr]
  obtain u1 f1 mi f2 u3 where I: "fr_send fr [] (fr_new fr ioi (hs_codec ld hi)) = Some (Inr u1, f1)"
      "act_next fr f1 = Some (Inr mi, f2)" "fr_send fr pi f2 = Some (Inr u3, f)" "qi = msg_or_default mi"
    using i by (auto simp: act_then_Inr)
  obtain m0 g1 u2 g2 mr where R: "act_next fr (fr_new fr ior (hs_codec ld hr)) = Some (Inr m0, g1)"
      "fr_send fr pr g1 = Some (Inr u2, g2)" "act_next fr g2 = Some (Inr mr, g)" "qr = msg_or_default mr"
    using r by (auto simp: act_then_Inr)
  obtain m1 hi1 bs1 where m1: "sn_hs_write sn hi [] = Some (m1, hi1)" "ld_encode ld m1 = Inr bs1"
      "fr_codec fr f1 = hs_codec ld hi1" "written (fr_io fr f1) = bs1" "pending_bytes fr unread f1 = unread ioi"
    by (rule hs_send [OF fr I(1), of hi]) (simp_all add: fnew w)
  obtain bs where bs: "written (fr_io fr f) = bs1 @ bs"
    by (rule framed_send [OF fr I(3)]) (simp add: framed_next(1) [OF fr I(2)] m1)
  obtain hr1 where hr1: "sn_hs_read sn hr m1 = Some ([], hr1)" "xx_after_first sn hi1 hr1"
    using xx m1(1) unfolding xx_contract_def by blast
  have g1: "fr_codec fr g1 = hs_codec ld hr1 \<and> pending_bytes fr unread g1 = bs @ xr \<and> written (fr_io fr g1) = []"
    using hs_next [OF fr R(1) ld _ _ m1(2) hr1(1), of "bs @ xr"] by (simp add: fnew ur bs w)
  obtain m2 hr2 bs2 where m2: "sn_hs_write sn hr1 pr = Some (m2, hr2)" "ld_encode ld m2 = Inr bs2"
      "fr_codec fr g2 = hs_codec ld hr2" "written (fr_io fr g2) = bs2" "pending_bytes fr unread g2 = bs @ xr"
    by (rule hs_send [OF fr R(2), of hr1]) (use g1 in simp_all)
  obtain hi2 where hi2: "sn_hs_read sn hi1 m2 = Some (pr, hi2)" and last: "\<And>p3 m3 hi3.
      sn_hs_write sn hi2 p3 = Some (m3, hi3) \<Longrightarrow> \<exists>hr3. sn_hs_read sn hr2 m3 = Some (p3, hr3) \<and> xx_done sn hi3 hr3"
    using hr1(2) m2(1) unfolding xx_after_first_def by blast
  have f2: "mi = Some pr \<and> fr_codec fr f2 = hs_codec ld hi2 \<and> pending_bytes fr unread f2 = xi \<and> written (fr_io fr f2) = bs1"
    using hs_next [OF fr I(2) ld _ _ m2(2) hi2, of xi] m1(3,4,5) ui framed_next(1) [OF fr R(3)] m2(4)
    by simp
  obtain m3 hi3 bs3 where m3: "sn_hs_write sn hi2 pi = Some (m3, hi3)" "ld_encode ld m3 = Inr bs3"
      "fr_codec fr f = hs_codec ld hi3" "written (fr_io fr f) = bs1 @ bs3" "pending_bytes fr unread f = xi"
    by (rule hs_send [OF fr I(3), of hi2]) (use f2 in simp_all)
  obtain hr3 where hr3: "sn_hs_read sn hr2 m3 = Some (pi, hr3)" "xx_done sn hi3 hr3"
    using last [OF m3(1)] by blast
  have "mr = Some pi \<and> fr_codec fr g = hs_codec ld hr3 \<and> pending_bytes fr unread g = xr"
    using hs_next [OF fr R(3) ld _ _ m3(2) hr3(1), of xr] m2(3,5) bs m3(4) by simp
  with f2 m3 hr3 I(4) R(4) show ?thesis
    by (auto simp: msg_or_default_def)
qed


lemma secure_handshake_Inr:
  assumes "secure_handshake sn ld fr build conn ios d = Some (Inr conn', ios', d')" and "conn_stream conn = Some s"
  obtains st q where "handshake_xx sn ld fr build (side_not (conn_side conn)) [] (ios s) = Some (Inr (st, q), ios' s)"
    and "fmlookup (sec_noise_states d') (conn_addr conn) = Some st"
  using assms by (auto simp: secure_handshake_def borrow_stream_def split: option.splits sum.splits)

lemma handshake_xx_agree:
  assumes fr: "framed_rw_contract (noise_encode sn ld) (noise_decode sn ld) unread written fr"
    and ld: "ld_contract ld max_len" and xx: "xx_contract sn hi hr"
    and build: "build_i Initiator = Some hi" "build_r Responder = Some hr"
    and i: "handshake_xx sn ld fr build_i Initiator pi ioi = Some (Inr (sti, qi), ioi')"
    and r: "handshake_xx sn ld fr build_r Responder pr ior = Some (Inr (str, qr), ior')"
    and w: "written ioi = []" "written ior = []"
    and u: "unread ioi = written ior' @ xi" "unread ior = written ioi' @ xr"
  shows "qi = pr \<and> qr = pi \<and> (\<exists>lost. xi = lost @ unread ioi') \<and> (\<exists>lost. xr = lost @ unread ior')
    \<and> noise_state_clone sti = Some sti \<and> noise_state_clone str = Some str
    \<and> noise_in_step sn ld max_len (noise_codec_new ld sti) (noise_codec_new ld str)
    \<and> noise_in_step sn ld max_len (noise_codec_new ld str) (noise_codec_new ld sti)"
proof -
  obtain f where f: "xx_messages fr Initiator pi (fr_new fr ioi (hs_codec ld hi)) = Some (Inr qi, f)"
      "ioi' = fr_io fr f" "into_post_handshake sn (nc_noise (fr_codec fr f)) = Some sti"
    using handshake_xx_Inr [OF i] build(1) by auto
  obtain g where g: "xx_messages fr Responder pr (fr_new fr ior (hs_codec ld hr)) = Some (Inr qr, g)"
      "ior' = fr_io fr g" "into_post_handshake sn (nc_noise (fr_codec fr g)) = Some str"
    using handshake_xx_Inr [OF r] build(2) by auto
  have agree: "qi = pr \<and> qr = pi \<and> pending_bytes fr unread f = xi \<and> pending_bytes fr unread g = xr
    \<and> (\<exists>hi' hr'. fr_codec fr f = hs_codec ld hi' \<and> fr_codec fr g = hs_codec ld hr' \<and> xx_done sn hi' hr')"
    by (rule xx_agree [OF fr ld xx f(1) g(1) w]) (use u f(2) g(2) in auto)
  then obtain hi' hr' where h: "fr_codec fr f = hs_codec ld hi'" "fr_codec fr g = hs_codec ld hr'" "xx_done sn hi' hr'"
    by blast
  obtain ki kr where k: "sn_into_transport sn hi' = Some ki" "sn_into_transport sn hr' = Some kr"
      "sti = PostHandshake \<lparr>ph_state = ki, ph_rx_carryover = None, ph_rx_nonce = 0, ph_tx_nonce = 0\<rparr>"
      "str = PostHandshake \<lparr>ph_state = kr, ph_rx_carryover = None, ph_rx_nonce = 0, ph_tx_nonce = 0\<rparr>"
    using f(3) g(3) h by (auto simp: noise_codec_new_def)
  have "snow_contract sn ki kr" "snow_contract sn kr ki"
    using h(3) k(1,2) unfolding xx_done_def by blast+
  with k ld agree f(2) g(2) show ?thesis
    by (auto simp: noise_in_step_def noise_codec_new_def)
qed

text \<open>C34: After a handshake of two nodes, each of which receives what the other one writes and possibly more,
  the codecs of the two connections belong together: whatever sequence of messages one end's writing
  codec encodes, the other end's reading codec decodes. The later bytes are not all left on the
  streams, though: those that were read together with the last message of the handshake are lost.\<close>

theorem secure_channel:
  assumes "framed_rw_contract (noise_encode sn ld) (noise_decode sn ld) unread written fr"
    and "ld_contract ld max_len" and "xx_contract sn hi hr"
    and "build_i Initiator = Some hi" and "build_r Responder = Some hr"
    and "conn_side ci = Responder" and "conn_side cr = Initiator"
    and "conn_stream ci = Some si" and "conn_stream cr = Some sr"
    and "secure_handshake sn ld fr build_i ci ios_i di = Some (Inr ci', ios_i', di')"
    and "secure_handshake sn ld fr build_r cr ios_r dr = Some (Inr cr', ios_r', dr')"
    and "written (ios_i si) = []" and "written (ios_r sr) = []"
    and "unread (ios_i si) = written (ios_r' sr) @ xi" and "unread (ios_r sr) = written (ios_i' si) @ xr"
  shows "\<exists>rd_i wr_i di'' rd_r wr_r dr''.
      secure_reading_codec ld (conn_addr ci) di' = Some rd_i \<and> secure_writing_codec ld (conn_addr ci) di' = Some (wr_i, di'')
    \<and> secure_reading_codec ld (conn_addr cr) dr' = Some rd_r \<and> secure_writing_codec ld (conn_addr cr) dr' = Some (wr_r, dr'')
    \<and> (\<forall>ms bs e' rest. encode_all (noise_encoder sn ld) wr_i ms = (Inr bs, e')
         \<longrightarrow> (\<exists>d'. decode_upto (noise_decode sn ld) (length ms) rd_r (bs @ rest) = (ms, d', rest)))
    \<and> (\<forall>ms bs e' rest. encode_all (noise_encoder sn ld) wr_r ms = (Inr bs, e')
         \<longrightarrow> (\<exists>d'. decode_upto (noise_decode sn ld) (length ms) rd_i (bs @ rest) = (ms, d', rest)))
    \<and> (\<exists>lost. xi = lost @ unread (ios_i' si)) \<and> (\<exists>lost. xr = lost @ unread (ios_r' sr))"
proof -
  obtain sti qi where i: "handshake_xx sn ld fr build_i Initiator [] (ios_i si) = Some (Inr (sti, qi), ios_i' si)"
      "fmlookup (sec_noise_states di') (conn_addr ci) = Some sti"
    using secure_handshake_Inr [OF assms(10,8)] assms(6) by auto
  obtain str qr where r: "handshake_xx sn ld fr build_r Responder [] (ios_r sr) = Some (Inr (str, qr), ios_r' sr)"
      "fmlookup (sec_noise_states dr') (conn_addr cr) = Some str"
    using secure_handshake_Inr [OF assms(11,9)] assms(7) by auto
  note agree = handshake_xx_agree [OF assms(1-5) i(1) r(1) assms(12-15)]
  have "\<exists>d'. decode_upto (noise_decode sn ld) (length ms) (noise_codec_new ld b) (bs @ rest) = (ms, d', rest)"
    if "noise_in_step sn ld max_len (noise_codec_new ld a) (noise_codec_new ld b)"
      "encode_all (noise_encoder sn ld) (noise_codec_new ld a) ms = (Inr bs, e')" for a b ms bs e' rest
    using noise_stream.decodes_all [OF that, of rest] by blast
  with agree i(2) r(2) show ?thesis
    by (auto simp: secure_reading_codec_def secure_writing_codec_def)
qed


text \<open>A framed stream that always reads everything there is, over a pair of the bytes to come and the
  bytes written.\<close>

definition greedy_rw ::
  "('c \<Rightarrow> byte list \<Rightarrow> (byte list io_result \<times> 'c) option) \<Rightarrow> ('c, byte list) stream_decoder
     \<Rightarrow> ('c, byte list \<times> byte list, 'c \<times> byte list \<times> byte list \<times> byte list) framed_rw" where
  "greedy_rw enc dec = \<lparr>
     fr_new = (\<lambda>(u, w) c. (c, [], u, w)),
     fr_send = (\<lambda>msg (c, buf, u, w).
        map_option (\<lambda>(r, c'). case r of
            Inl e \<Rightarrow> (Inl e, c', buf, u, w)
          | Inr bs \<Rightarrow> (Inr (), c', buf, u, w @ bs)) (enc c msg)),
     fr_next = (\<lambda>(c, buf, u, w). case dec c (buf @ u) of (r, c', rest) \<Rightarrow> (r, c', rest, [], w)),
     fr_io = (\<lambda>(c, buf, u, w). (u, w)), fr_codec = (\<lambda>(c, buf, u, w). c), fr_read_buf = (\<lambda>(c, buf, u, w). buf)\<rparr>"

lemma greedy_rw_contract: "framed_rw_contract enc dec fst snd (greedy_rw enc dec)"
  unfolding framed_rw_contract_def greedy_rw_def by (auto split: sum.split_asm prod.splits)

lemma toy_xx_contract: "xx_contract toy_snow () ()"
  using toy_snow_contract by (simp add: xx_contract_def xx_after_first_def xx_done_def) (simp add: toy_snow_def)

text \<open>A handshake between two such nodes, with one more byte behind the last message: it is gone.\<close>

theorem secure_channel_witness:
  "\<exists>lost. lost \<noteq> [] \<and> (\<exists>ios d. secure_handshake toy_snow (ld_prefix 2)
     (greedy_rw (noise_encode toy_snow (ld_prefix 2)) (noise_decode toy_snow (ld_prefix 2))) (\<lambda>_. Some ())
     (fst (connection_new 0 0 demo_addr 0 Initiator)) (\<lambda>_. ([0, 0, 0, 0, 5], [])) \<lparr>sec_noise_states = fmempty\<rparr>
     = Some (Inr (fst (connection_new 0 0 demo_addr 0 Initiator)), ios, d) \<and> [5] = lost @ fst (ios 0))"
proof -
  let ?fr = "greedy_rw (noise_encode toy_snow (ld_prefix 2)) (noise_decode toy_snow (ld_prefix 2))"
  let ?ci = "fst (connection_new 0 0 demo_addr 0 Responder)" and ?cr = "fst (connection_new 0 0 demo_addr 0 Initiator)"
  let ?d = "\<lparr>sec_noise_states = fmempty :: (socket_addr, (unit, unit) noise_state) fmap\<rparr>"
  note run = secure_handshake_def borrow_stream_def connection_new_def handshake_xx_def greedy_rw_def
    act_then_def act_next_def act_return_def noise_codec_new_def noise_encode_def noise_decode_def toy_snow_def ld_prefix_def
    numeral_2_eq_2 get_be_def be_value_def
  obtain ios_i di where i: "secure_handshake toy_snow (ld_prefix 2) ?fr (\<lambda>_. Some ()) ?ci (\<lambda>_. ([0, 0], [])) ?d
      = Some (Inr ?ci, ios_i, di)" "snd (ios_i 0) = [0, 0, 0, 0]"
    by (simp add: run)
  obtain ios_r dr where r: "secure_handshake toy_snow (ld_prefix 2) ?fr (\<lambda>_. Some ()) ?cr (\<lambda>_. ([0, 0, 0, 0, 5], [])) ?d
      = Some (Inr ?cr, ios_r, dr)" "snd (ios_r 0) = [0, 0]" "fst (ios_r 0) = []"
    by (simp add: run)
  have "\<exists>lost. [5] = lost @ fst (ios_r 0)"
    using secure_channel [OF greedy_rw_contract ld_prefix_contract [of 2] toy_xx_contract, of "\<lambda>_. Some ()" "\<lambda>_. Some ()" ?ci ?cr 0 0
        "\<lambda>_. ([0, 0], [])" ?d ?ci ios_i di "\<lambda>_. ([0, 0, 0, 0, 5], [])" ?d ?cr ios_r dr "[]" "[5]"] i r
    by (simp add: connection_new_def)
  with r show ?thesis
    by auto
qed


end
