(* ===== verification/Libp2p.thy ===== *)
theory Libp2p
  imports Noise_Handshake Writing
begin

text \<open>
  The node of \<open>examples/examples/libp2p.rs\<close>: its handshake in three stages, the Noise states handed
  from it to the two codecs, the multiplexed streams of every peer, and the reactions to received
  frames. Parameters: the framing of the first negotiation, the builder of \<open>snow\<close>, and the protobuf
  payload with the identity of a peer.
\<close>

section \<open>State and events\<close>

text \<open>\<open>PROTOCOL_PING\<close>, with its two length bytes.\<close>

definition PROTOCOL_PING :: "byte list" where
  "PROTOCOL_PING = [0x13] @ bstr ''/multistream/1.0.0'' @ [0x0A] @ [0x11] @ bstr ''/ipfs/ping/1.0.0'' @ [0x0A]"

type_synonym streams = "(u32, byte list) fmap"

record 'p peer_state =
  ps_id :: 'p
  ps_streams :: streams

record ('sem, 'ch, 'h, 'k, 'p) libp2p_node =
  lp_node :: "'sem node"
  lp_chans :: "'ch channels"
  lp_noise_states :: "(socket_addr, ('h, 'k) noise_state) fmap"
  lp_peer_states :: "(socket_addr, 'p peer_state) fmap"

datatype lp_event =
    NewStream u32 "byte list"
  | StreamHalfClosed u32
  | StreamTerminated u32
  | ReceivedPing u32 "byte list"
  | SessionPing u32
  | UnknownEvent yamux_frame

text \<open>The reply to an event.\<close>

fun event_reply :: "lp_event \<Rightarrow> yamux_frame option" where
  "event_reply (NewStream stream_id protocol_info) = Some (frame_data stream_id [Ack] (Some protocol_info))"
| "event_reply (StreamHalfClosed stream_id) = Some (frame_data stream_id [Fin] None)"
| "event_reply (ReceivedPing stream_id payload) = Some (frame_data stream_id [] (Some payload))"
| "event_reply (SessionPing opaque) = Some (frame_ping [Ack] opaque)"
| "event_reply _ = None"

text \<open>\<open>process_event\<close> sends it through \<open>unicast_fast\<close>.\<close>

definition process_event ::
  "(yamux_frame wrapped_message, 'ch) chan_ops \<Rightarrow> nat \<Rightarrow> lp_event \<Rightarrow> socket_addr
     \<Rightarrow> ('sem, 'ch, 'h, 'k, 'p) libp2p_node \<Rightarrow> unit io_result \<times> ('sem, 'ch, 'h, 'k, 'p) libp2p_node" where
  "process_event ops ty event source d =
     (case event_reply event of
        None \<Rightarrow> (Inr (), d)
      | Some reply_msg \<Rightarrow>
          (case unicast_fast ops ty source reply_msg (lp_node d) (lp_chans d) of
             (r, chans) \<Rightarrow> (r, d\<lparr>lp_chans := chans\<rparr>)))"

section \<open>The handshake\<close>

definition act_fail :: "io_error \<Rightarrow> ('f, 'a) framed_act" where
  "act_fail e f = Some (Inl e, f)"

text \<open>\<open>try_next\<close> with \<open>ok_or\<close>: the end of the stream is an error.\<close>

definition act_expect :: "('c, 'io, 'f) framed_rw \<Rightarrow> ('f, byte list) framed_act" where
  "act_expect fr = act_then (act_next fr) (\<lambda>m.
     case m of None \<Rightarrow> act_fail (IoError InvalidData NoPayload) | Some bs \<Rightarrow> act_return bs)"

text \<open>The negotiation of the encryption, in the clear.\<close>

fun lp_negotiate :: "('c, 'io, 'f) framed_rw \<Rightarrow> connection_side \<Rightarrow> ('f, unit) framed_act" where
  "lp_negotiate ng Initiator =
     act_then (fr_send ng (bstr ''/multistream/1.0.0'' @ [0x0A])) (\<lambda>_.
     act_then (act_expect ng) (\<lambda>_.
     act_then (fr_send ng (bstr ''/noise'' @ [0x0A])) (\<lambda>_.
     act_then (act_expect ng) (\<lambda>_. act_return ()))))"
| "lp_negotiate ng Responder =
     act_then (act_next ng) (\<lambda>_.
     act_then (fr_send ng (bstr ''/multistream/1.0.0'' @ [0x0A])) (\<lambda>_.
     act_then (act_next ng) (\<lambda>_.
     act_then (fr_send ng (bstr ''/noise'' @ [0x0A])) (\<lambda>_. act_return ()))))"

text \<open>The negotiation of the multiplexer, encrypted; the responder echoes one message.\<close>

fun lp_exchange :: "('c, 'io, 'f) framed_rw \<Rightarrow> connection_side \<Rightarrow> ('f, unit) framed_act" where
  "lp_exchange fr Initiator =
     act_then (fr_send fr ([0x13] @ bstr ''/multistream/1.0.0'' @ [0x0A])) (\<lambda>_.
     act_then (act_expect fr) (\<lambda>_.
     act_then (fr_send fr ([0x0D] @ bstr ''/yamux/1.0.0'' @ [0x0A])) (\<lambda>_.
     act_then (act_expect fr) (\<lambda>_. act_return ()))))"
| "lp_exchange fr Responder =
     act_then (act_expect fr) (\<lambda>protocol_info.
     act_then (fr_send fr protocol_info) (\<lambda>_. act_return ()))"

text \<open>The end of the handshake: the unprocessed bytes are kept with the Noise state (\<open>None\<close> is a panic),
  and the peer starts without streams.\<close>

definition lp_handshake_done ::
  "socket_addr \<Rightarrow> 'p \<Rightarrow> ('h, 'k) noise_state \<Rightarrow> byte list \<Rightarrow> ('sem, 'ch, 'h, 'k, 'p) libp2p_node
     \<Rightarrow> ('sem, 'ch, 'h, 'k, 'p) libp2p_node option" where
  "lp_handshake_done addr peer_id noise read_buf d =
     map_option (\<lambda>noise'. d\<lparr>lp_noise_states := fmupd addr noise' (lp_noise_states d),
         lp_peer_states := fmupd addr \<lparr>ps_id = peer_id, ps_streams = fmempty\<rparr> (lp_peer_states d)\<rparr>)
       (save_buffer read_buf noise)"

text \<open>What the handshake uses: the framing of the first negotiation with its codec, that of Noise, the
  builder, the own payload (\<open>None\<close> when signing or encoding it panics), and the identity found in the
  payload of the peer.\<close>

record ('h, 'k, 's, 'u, 'io, 'n, 'f, 'p) lp_env =
  le_snow :: "('h, 'k) snow_ops"
  le_ld :: "'s ld_codec"
  le_negotiation :: "('u, 'io, 'n) framed_rw"
  le_uvi :: 'u
  le_framed :: "(('h, 'k, 's) noise_codec, 'io, 'f) framed_rw"
  le_build :: "connection_side \<Rightarrow> 'h option"
  le_payload :: "byte list option"
  le_peer_id :: "byte list \<Rightarrow> 'p io_result"

text \<open>\<open>perform_handshake\<close> on the stream of the connection.\<close>

definition lp_perform_handshake ::
  "('h, 'k, 's, 'u, 'io, 'n, 'f, 'p) lp_env \<Rightarrow> connection \<Rightarrow> (stream \<Rightarrow> 'io) \<Rightarrow> ('sem, 'ch, 'h, 'k, 'p) libp2p_node
     \<Rightarrow> (connection io_result \<times> (stream \<Rightarrow> 'io) \<times> ('sem, 'ch, 'h, 'k, 'p) libp2p_node) option" where
  "lp_perform_handshake env conn ios d =
     (case borrow_stream conn of
        None \<Rightarrow> None
      | Some s \<Rightarrow>
          (let side = side_not (conn_side conn); ng = le_negotiation env; fr = le_framed env in
           case lp_negotiate ng side (fr_new ng (ios s) (le_uvi env)) of
             None \<Rightarrow> None
           | Some (Inl e, f) \<Rightarrow> Some (Inl e, ios(s := fr_io ng f), d)
           | Some (Inr _, f) \<Rightarrow>
               (case le_payload env of
                  None \<Rightarrow> None
                | Some noise_payload \<Rightarrow>
                    (case handshake_xx (le_snow env) (le_ld env) fr (le_build env) side noise_payload (fr_io ng f) of
                       None \<Rightarrow> None
                     | Some (Inl e, io) \<Rightarrow> Some (Inl e, ios(s := io), d)
                     | Some (Inr (noise_state, secure_payload), io) \<Rightarrow>
                         (case le_peer_id env secure_payload of
                            Inl e \<Rightarrow> Some (Inl e, ios(s := io), d)
                          | Inr peer_id \<Rightarrow>
                              (case lp_exchange fr side (fr_new fr io (noise_codec_new (le_ld env) noise_state)) of
                                 None \<Rightarrow> None
                               | Some (Inl e, g) \<Rightarrow> Some (Inl e, ios(s := fr_io fr g), d)
                               | Some (Inr _, g) \<Rightarrow>
                                   map_option (\<lambda>d'. (Inr conn, ios(s := fr_io fr g), d'))
                                     (lp_handshake_done (conn_addr conn) peer_id (nc_noise (fr_codec fr g))
                                       (fr_read_buf fr g) d)))))))"

text \<open>The codecs of \<open>Reading\<close>, which clones the Noise state, and of \<open>Writing\<close>, which takes it.\<close>

definition lp_reading_codec ::
  "'s ld_codec \<Rightarrow> socket_addr \<Rightarrow> ('sem, 'ch, 'h, 'k, 'p) libp2p_node \<Rightarrow> ('h, 'k, 's) noise_codec option" where
  "lp_reading_codec ld addr d =
     (case fmlookup (lp_noise_states d) addr of
        None \<Rightarrow> None
      | Some st \<Rightarrow> map_option (noise_codec_new ld) (noise_state_clone st))"

definition lp_writing_codec ::
  "'s ld_codec \<Rightarrow> socket_addr \<Rightarrow> ('sem, 'ch, 'h, 'k, 'p) libp2p_node
     \<Rightarrow> (('h, 'k, 's) noise_codec \<times> ('sem, 'ch, 'h, 'k, 'p) libp2p_node) option" where
  "lp_writing_codec ld addr d =
     (case fmlookup (lp_noise_states d) addr of
        None \<Rightarrow> None
      | Some st \<Rightarrow>
          Some (noise_codec_new ld st, d\<lparr>lp_noise_states := fmdrop addr (lp_noise_states d)\<rparr>))"

section \<open>Received frames\<close>

text \<open>The streams of a peer, and their replacement (\<open>get_streams_mut\<close>).\<close>

definition get_streams :: "socket_addr \<Rightarrow> ('sem, 'ch, 'h, 'k, 'p) libp2p_node \<Rightarrow> streams option" where
  "get_streams source d = map_option ps_streams (fmlookup (lp_peer_states d) source)"

definition set_streams ::
  "socket_addr \<Rightarrow> streams \<Rightarrow> ('sem, 'ch, 'h, 'k, 'p) libp2p_node \<Rightarrow> ('sem, 'ch, 'h, 'k, 'p) libp2p_node" where
  "set_streams source streams d =
     (case fmlookup (lp_peer_states d) source of
        None \<Rightarrow> d
      | Some state \<Rightarrow>
          d\<lparr>lp_peer_states := fmupd source (state\<lparr>ps_streams := streams\<rparr>) (lp_peer_states d)\<rparr>)"

text \<open>The events of a frame that belongs to a stream. A stream is registered under the protocol
  announced with it; for a peer that is not known any more nothing is registered.\<close>

definition lp_frame_events ::
  "socket_addr \<Rightarrow> yamux_frame \<Rightarrow> ('sem, 'ch, 'h, 'k, 'p) libp2p_node
     \<Rightarrow> ('sem, 'ch, 'h, 'k, 'p) libp2p_node \<times> lp_event list" where
  "lp_frame_events source message d =
     (let stream_id = yh_stream_id (yf_header message);
          flags = yh_flags (yf_header message);
          payload = yf_payload message
      in if flags = [Syn] then
           (case get_streams source d of
              None \<Rightarrow> (d, [NewStream stream_id payload])
            | Some streams \<Rightarrow> (set_streams source (fmupd stream_id payload streams) d,
                if fmlookup streams stream_id = None then [NewStream stream_id payload] else []))
         else if flags = [Rst] then
           (case get_streams source d of
              None \<Rightarrow> (d, [])
            | Some streams \<Rightarrow> (set_streams source (fmdrop stream_id streams) d,
                if fmlookup streams stream_id \<noteq> None then [StreamTerminated stream_id] else []))
         else if flags = [Ack] then (d, [])
         else if flags = [Fin] then
           (case get_streams source d of
              None \<Rightarrow> (d, [])
            | Some streams \<Rightarrow> (set_streams source (fmdrop stream_id streams) d,
                if fmlookup streams stream_id \<noteq> None then [StreamHalfClosed stream_id] else []))
         else if flags = [] then
           (let protocol = (case get_streams source d of
                  None \<Rightarrow> []
                | Some streams \<Rightarrow> (case fmlookup streams stream_id of None \<Rightarrow> [] | Some p \<Rightarrow> p))
            in (d, [if protocol = PROTOCOL_PING then ReceivedPing stream_id payload
                    else UnknownEvent message]))
         else (d, []))"

text \<open>The loop over the events; an error of one of them is only logged.\<close>

fun lp_process_events ::
  "(yamux_frame wrapped_message, 'ch) chan_ops \<Rightarrow> nat \<Rightarrow> socket_addr \<Rightarrow> lp_event list
     \<Rightarrow> ('sem, 'ch, 'h, 'k, 'p) libp2p_node \<Rightarrow> ('sem, 'ch, 'h, 'k, 'p) libp2p_node" where
  "lp_process_events ops ty source [] d = d"
| "lp_process_events ops ty source (event # events) d =
     lp_process_events ops ty source events (snd (process_event ops ty event source d))"

definition lp_process ::
  "(yamux_frame wrapped_message, 'ch) chan_ops \<Rightarrow> nat \<Rightarrow> socket_addr \<Rightarrow> yamux_frame
     \<Rightarrow> ('sem, 'ch, 'h, 'k, 'p) libp2p_node \<Rightarrow> ('sem, 'ch, 'h, 'k, 'p) libp2p_node" where
  "lp_process ops ty source message d =
     (if yh_ty (yf_header message) = TyPing
      then if Syn \<in> set (yh_flags (yf_header message))
        then snd (process_event ops ty (SessionPing (yh_length (yf_header message))) source d)
        else d
      else
        (case lp_frame_events source message d of
           (d', events) \<Rightarrow> lp_process_events ops ty source events d'))"

definition lp_on_disconnect ::
  "socket_addr \<Rightarrow> ('sem, 'ch, 'h, 'k, 'p) libp2p_node \<Rightarrow> ('sem, 'ch, 'h, 'k, 'p) libp2p_node" where
  "lp_on_disconnect addr d = d\<lparr>lp_peer_states := fmdrop addr (lp_peer_states d)\<rparr>"

section \<open>Properties\<close>

text \<open>After a handshake both codecs start from the same Noise state, with the bytes that were left over,
  and the peer has no streams yet. The writing codec takes the state: the other order would panic.\<close>

lemma lp_handshake_codecs:
  assumes "lp_perform_handshake env conn ios d = Some (Inr conn', ios', d')"
  shows "\<exists>st d''. lp_reading_codec ld (conn_addr conn) d' = Some (noise_codec_new ld st)
    \<and> lp_writing_codec ld (conn_addr conn) d' = Some (noise_codec_new ld st, d'')
    \<and> lp_reading_codec ld (conn_addr conn) d'' = None \<and> get_streams (conn_addr conn) d' = Some fmempty"
proof -
  obtain peer_id noise buf where "lp_handshake_done (conn_addr conn) peer_id noise buf d = Some d'"
    using assms by (auto simp: lp_perform_handshake_def Let_def split: option.splits sum.splits)
  then show ?thesis
    by (cases noise)
      (auto simp: lp_handshake_done_def lp_reading_codec_def lp_writing_codec_def get_streams_def)
qed

text \<open>The queue of outbound frames of a peer, with room for some more of them.\<close>

abbreviation lp_outbox ::
  "('ch \<Rightarrow> yamux_frame wrapped_message chan_view) \<Rightarrow> nat \<Rightarrow> socket_addr \<Rightarrow> yamux_frame wrapped_message list \<Rightarrow> nat
     \<Rightarrow> ('sem, 'ch, 'h, 'k, 'p) libp2p_node \<Rightarrow> bool" where
  "lp_outbox view ty a q room d \<equiv> outbox view ty (lp_node d) a q room (lp_chans d)"

lemma process_event_sends:
  assumes "channel_contract ops view" and "lp_outbox view ty a q (Suc room) d" and "event_reply ev = Some m"
  shows "\<exists>chans. process_event ops ty ev a d = (Inr (), d\<lparr>lp_chans := chans\<rparr>)
    \<and> lp_outbox view ty a (q @ [plain m]) room (d\<lparr>lp_chans := chans\<rparr>)"
  using unicast_fast_outbox [OF assms(1,2), of m] assms(3) by (auto simp: process_event_def)

text \<open>A run of frames from one peer.\<close>

definition lp_session ::
  "(yamux_frame wrapped_message, 'ch) chan_ops \<Rightarrow> nat \<Rightarrow> socket_addr \<Rightarrow> yamux_frame list
     \<Rightarrow> ('sem, 'ch, 'h, 'k, 'p) libp2p_node \<Rightarrow> ('sem, 'ch, 'h, 'k, 'p) libp2p_node" where
  "lp_session ops ty source fs d = fold (lp_process ops ty source) fs d"

lemma frame_data_fields [simp]:
  "yh_ty (yf_header (frame_data i fl p)) = TyData" "yh_flags (yf_header (frame_data i fl p)) = fl"
  "yh_stream_id (yf_header (frame_data i fl p)) = i"
  "yf_payload (frame_data i fl p) = (case p of None \<Rightarrow> [] | Some b \<Rightarrow> b)"
  by (simp_all add: frame_data_def Let_def)

text \<open>A frame that gives one event with a reply has that reply queued.\<close>

lemma lp_process_replies:
  assumes "channel_contract ops view" and "lp_outbox view ty a q (Suc room) d"
    and "yh_ty (yf_header f) \<noteq> TyPing" and "lp_frame_events a f d = (d', [ev])" and "event_reply ev = Some m"
    and "lp_node d' = lp_node d" and "lp_chans d' = lp_chans d"
  shows "\<exists>chans. lp_process ops ty a f d = d'\<lparr>lp_chans := chans\<rparr>
    \<and> lp_outbox view ty a (q @ [plain m]) room (d'\<lparr>lp_chans := chans\<rparr>)"
proof -
  have "lp_outbox view ty a q (Suc room) d'"
    using assms(2,6,7) by simp
  from process_event_sends [OF assms(1) this assms(5)] show ?thesis
    using assms(3,4) by (auto simp: lp_process_def)
qed

lemma lp_session_pings:
  assumes "channel_contract ops view" and "get_streams a d = Some s" and "fmlookup s i = Some PROTOCOL_PING"
    and "lp_outbox view ty a q (length ps + room) d"
  shows "\<exists>chans. lp_session ops ty a (map (\<lambda>p. frame_data i [] (Some p)) ps) d = d\<lparr>lp_chans := chans\<rparr>
    \<and> lp_outbox view ty a (q @ map (\<lambda>p. plain (frame_data i [] (Some p))) ps) room (d\<lparr>lp_chans := chans\<rparr>)"
  using assms(2,4)
proof (induction ps arbitrary: d q)
  case Nil
  then show ?case
    by (intro exI [of _ "lp_chans d"]) (simp add: lp_session_def)
next
  case (Cons p ps)
  have "lp_frame_events a (frame_data i [] (Some p)) d = (d, [ReceivedPing i p])"
    using Cons.prems(1) assms(3) by (simp add: lp_frame_events_def)
  then obtain chans where c: "lp_process ops ty a (frame_data i [] (Some p)) d = d\<lparr>lp_chans := chans\<rparr>"
      "lp_outbox view ty a (q @ [plain (frame_data i [] (Some p))]) (length ps + room) (d\<lparr>lp_chans := chans\<rparr>)"
    using lp_process_replies [OF assms(1), of ty d a q "length ps + room" "frame_data i [] (Some p)" d "ReceivedPing i p"]
      Cons.prems(2) by auto
  have "get_streams a (d\<lparr>lp_chans := chans\<rparr>) = Some s"
    using Cons.prems(1) by (simp add: get_streams_def)
  from Cons.IH [OF this c(2)] show ?case
    using c(1) by (auto simp: lp_session_def)
qed


lemma set_streams_restore:
  assumes "get_streams a d = Some s" and "fmlookup s i = None"
  shows "set_streams a (fmdrop i (fmupd i p s)) (set_streams a (fmupd i p s) d) = d"
proof -
  obtain st where st: "fmlookup (lp_peer_states d) a = Some st" "ps_streams st = s"
    using assms(1) by (auto simp: get_streams_def)
  have "fmdrop i (fmupd i p s) = s"
    using assms(2) by (intro fmap_ext) simp
  moreover have "fmupd a (st\<lparr>ps_streams := s\<rparr>) (fmupd a (st\<lparr>ps_streams := fmupd i p s\<rparr>) (lp_peer_states d)) = lp_peer_states d"
    using st by (intro fmap_ext) auto
  ultimately show ?thesis
    using st by (simp add: set_streams_def)
qed

text \<open>C36: A peer that opens a stream for the ping protocol, sends any number of pings on it and half-closes it
  gets the announcement acknowledged, every payload back in order, and the half-close answered, if its
  queue has the room; afterwards the streams of all peers are as before.\<close>

theorem ping_stream_served:
  assumes "channel_contract ops view" and "get_streams a d = Some s" and "fmlookup s i = None"
    and "lp_outbox view ty a q (length ps + 2) d"
  shows "\<exists>chans. lp_session ops ty a (frame_data i [Syn] (Some PROTOCOL_PING)
        # map (\<lambda>p. frame_data i [] (Some p)) ps @ [frame_data i [Fin] None]) d = d\<lparr>lp_chans := chans\<rparr>
    \<and> lp_outbox view ty a (q @ map plain (frame_data i [Ack] (Some PROTOCOL_PING)
        # map (\<lambda>p. frame_data i [] (Some p)) ps @ [frame_data i [Fin] None])) 0 (d\<lparr>lp_chans := chans\<rparr>)"
proof -
  let ?s = "fmupd i PROTOCOL_PING s" and ?pings = "map (\<lambda>p. frame_data i [] (Some p)) ps"
  let ?syn = "frame_data i [Syn] (Some PROTOCOL_PING)" and ?ack = "frame_data i [Ack] (Some PROTOCOL_PING)"
  obtain st where st: "fmlookup (lp_peer_states d) a = Some st" "ps_streams st = s"
    using assms(2) by (auto simp: get_streams_def)
  define d1 where "d1 = set_streams a ?s d"
  have "lp_frame_events a ?syn d = (d1, [NewStream i PROTOCOL_PING])"
    by (simp add: lp_frame_events_def assms d1_def)
  then obtain c1 where c1: "lp_process ops ty a ?syn d = d1\<lparr>lp_chans := c1\<rparr>"
      "lp_outbox view ty a (q @ [plain ?ack]) (length ps + 1) (d1\<lparr>lp_chans := c1\<rparr>)"
    using lp_process_replies [OF assms(1), of ty d a q "length ps + 1" ?syn d1 "NewStream i PROTOCOL_PING"] assms(4) st
    by (auto simp: d1_def set_streams_def)
  have "get_streams a (d1\<lparr>lp_chans := c1\<rparr>) = Some ?s"
    by (simp add: d1_def set_streams_def get_streams_def st)
  from lp_session_pings [OF assms(1) this _ c1(2), of i] obtain c2 where
    c2: "lp_session ops ty a ?pings (d1\<lparr>lp_chans := c1\<rparr>) = d1\<lparr>lp_chans := c2\<rparr>"
      "lp_outbox view ty a (q @ map plain (?ack # ?pings)) 1 (d1\<lparr>lp_chans := c2\<rparr>)"
    by (auto simp: comp_def)
  have "set_streams a (fmdrop i ?s) (d1\<lparr>lp_chans := c2\<rparr>) = d\<lparr>lp_chans := c2\<rparr>"
    using set_streams_restore [of a "d\<lparr>lp_chans := c2\<rparr>" s i] assms(2,3)
    by (simp add: d1_def get_streams_def set_streams_def st)
  then have "lp_frame_events a (frame_data i [Fin] None) (d1\<lparr>lp_chans := c2\<rparr>)
      = (d\<lparr>lp_chans := c2\<rparr>, [StreamHalfClosed i])"
    using st by (simp add: lp_frame_events_def d1_def set_streams_def [of a ?s] get_streams_def)
  then obtain c3 where "lp_process ops ty a (frame_data i [Fin] None) (d1\<lparr>lp_chans := c2\<rparr>) = d\<lparr>lp_chans := c3\<rparr>"
      "lp_outbox view ty a (q @ map plain (?ack # ?pings) @ [plain (frame_data i [Fin] None)]) 0 (d\<lparr>lp_chans := c3\<rparr>)"
    using lp_process_replies [OF assms(1), of ty "d1\<lparr>lp_chans := c2\<rparr>" a "q @ map plain (?ack # ?pings)" 0
        "frame_data i [Fin] None" "d\<lparr>lp_chans := c2\<rparr>" "StreamHalfClosed i"] c2(2) st
    by (auto simp: d1_def set_streams_def)
  with c1 c2 show ?thesis
    by (auto simp: lp_session_def)
qed

definition demo_libp2p :: "(nat, yamux_frame wrapped_message chan_view, unit, unit, unit) libp2p_node" where
  "demo_libp2p = \<lparr>lp_node = demo_node\<lparr>nd_protocols :=
       (nd_protocols demo_node)\<lparr>writing_handler := Some (fmupd demo_addr (0, 0) fmempty)\<rparr>\<rparr>,
     lp_chans = (\<lambda>_. (0, \<lparr>cv_cap = 8, cv_queue = [], cv_closed = False, cv_tx = True\<rparr>)),
     lp_noise_states = fmempty, lp_peer_states = fmupd demo_addr \<lparr>ps_id = (), ps_streams = fmempty\<rparr> fmempty\<rparr>"

theorem ping_stream_served_witness:
  "\<exists>d. lp_session list_chan 0 demo_addr [frame_data 1 [Syn] (Some PROTOCOL_PING), frame_data 1 [] (Some [7, 8]),
      frame_data 1 [Fin] None] demo_libp2p = d
     \<and> lp_outbox (\<lambda>c. c) 0 demo_addr (map plain [frame_data 1 [Ack] (Some PROTOCOL_PING), frame_data 1 [] (Some [7, 8]),
        frame_data 1 [Fin] None]) 0 d"
proof -
  have "get_streams demo_addr demo_libp2p = Some fmempty" "lp_outbox (\<lambda>c. c) 0 demo_addr [] (length [[7 :: byte, 8]] + 2) demo_libp2p"
    by (simp_all add: demo_libp2p_def get_streams_def outbox_def)
  from ping_stream_served [OF list_chan_contract this(1) _ this(2), of 1] show ?thesis
    by auto
qed


end
