(* ===== verification/Rendezvous.thy ===== *)
theory Rendezvous
  imports Wire Writing
begin

text \<open>
  Hole punching as in \<open>examples/examples/hole_punching.rs\<close>: the text signals between a peer and the
  rendezvous server, the server's pairing of peers, and a peer's bounded series of punch attempts.
  Parameters: \<open>SocketAddr\<close>'s \<open>Display\<close> and \<open>FromStr\<close>, the outcomes of binding and dialling a socket, and
  what other tasks do between two attempts. Strings are the lists of their UTF-8 bytes.
\<close>

section \<open>Signals\<close>

text \<open>\<open>str::split_once\<close> for an ASCII character.\<close>

fun split_once :: "byte \<Rightarrow> byte list \<Rightarrow> (byte list \<times> byte list) option" where
  "split_once sep [] = None"
| "split_once sep (c # cs) =
     (if c = sep then Some ([], cs)
      else case split_once sep cs of None \<Rightarrow> None | Some (l, r) \<Rightarrow> Some (c # l, r))"

definition bar :: byte where
  "bar = 0x7C"

definition parse_signal ::
  "(byte list \<Rightarrow> socket_addr option) \<Rightarrow> byte list \<Rightarrow> (byte list \<times> byte list \<times> socket_addr) option" where
  "parse_signal parse s =
     (case split_once bar s of
        None \<Rightarrow> None
      | Some (tag, rest) \<Rightarrow>
          (case split_once bar rest of
             None \<Rightarrow> None
           | Some (name, addr_str) \<Rightarrow>
               (case parse addr_str of None \<Rightarrow> None | Some addr \<Rightarrow> Some (tag, name, addr))))"

definition encode_register :: "(socket_addr \<Rightarrow> byte list) \<Rightarrow> byte list \<Rightarrow> socket_addr \<Rightarrow> byte list" where
  "encode_register shw name punch_addr = bstr ''register|'' @ name @ bstr ''|'' @ shw punch_addr"

definition encode_peer :: "(socket_addr \<Rightarrow> byte list) \<Rightarrow> byte list \<Rightarrow> socket_addr \<Rightarrow> byte list" where
  "encode_peer shw name addr = bstr ''peer|'' @ name @ bstr ''|'' @ shw addr"

lemma split_once_append: "sep \<notin> set l \<Longrightarrow> split_once sep (l @ sep # r) = Some (l, r)"
  by (induction l) auto

lemma parse_encode_signal:
  assumes "bar \<notin> set tag" and "bar \<notin> set name" and "parse (shw addr) = Some addr"
  shows "parse_signal parse (tag @ [bar] @ name @ [bar] @ shw addr) = Some (tag, name, addr)"
  using assms split_once_append [of bar tag "name @ bar # shw addr"] split_once_append [of bar name "shw addr"]
  by (simp add: parse_signal_def)

section \<open>The rendezvous server\<close>

record pending_peer =
  pp_conn_addr :: socket_addr
  pp_name :: "byte list"
  pp_punch_addr :: socket_addr

record ('sem, 'ch) rendezvous =
  rv_node :: "'sem node"
  rv_chans :: "'ch channels"
  rv_pending :: "pending_peer option"

text \<open>How it writes: the channels of its peers and the type of its messages, and \<open>SocketAddr\<close>'s
  \<open>Display\<close> and \<open>FromStr\<close>.\<close>

record 'ch signal_env =
  se_chan :: "(byte list wrapped_message, 'ch) chan_ops"
  se_type :: nat
  se_show :: "socket_addr \<Rightarrow> byte list"
  se_parse :: "byte list \<Rightarrow> socket_addr option"

text \<open>\<open>pair\<close>; a signal that cannot be queued is only logged.\<close>

definition pair_peer :: "'ch signal_env \<Rightarrow> pending_peer \<Rightarrow> ('sem, 'ch) rendezvous \<Rightarrow> ('sem, 'ch) rendezvous" where
  "pair_peer env peer d =
     (case rv_pending d of
        Some other \<Rightarrow>
          (let send = unicast_fast (se_chan env) (se_type env);
               (_, chans1) = send (pp_conn_addr other)
                  (encode_peer (se_show env) (pp_name peer) (pp_punch_addr peer)) (rv_node d) (rv_chans d);
               (_, chans2) = send (pp_conn_addr peer)
                  (encode_peer (se_show env) (pp_name other) (pp_punch_addr other)) (rv_node d) chans1
           in d\<lparr>rv_pending := None, rv_chans := chans2\<rparr>)
      | None \<Rightarrow> d\<lparr>rv_pending := Some peer\<rparr>)"

text \<open>\<open>process_message\<close> of the server.\<close>

definition rendezvous_process ::
  "'ch signal_env \<Rightarrow> socket_addr \<Rightarrow> byte list \<Rightarrow> ('sem, 'ch) rendezvous \<Rightarrow> ('sem, 'ch) rendezvous" where
  "rendezvous_process env source message d =
     (case from_utf8 message of
        None \<Rightarrow> d
      | Some s \<Rightarrow>
          (case parse_signal (se_parse env) s of
             None \<Rightarrow> d
           | Some (tag, name, addr) \<Rightarrow>
               if tag \<noteq> bstr ''register'' then d
               else pair_peer env \<lparr>pp_conn_addr = source, pp_name = name, pp_punch_addr = addr\<rparr> d))"

section \<open>The peer\<close>

record ('sem, 'ch) punch_peer =
  pn_node :: "'sem node"
  pn_chans :: "'ch channels"
  pn_next_id :: u64
  pn_name :: "byte list"
  pn_punch_addr :: socket_addr
  pn_rendezvous_addr :: socket_addr

text \<open>What it runs in: the arguments of the node's calls, the outcome of \<open>punch_socket\<close> in an attempt
  (a socket is what dialling from it comes to), and what other tasks do in the pause after it.\<close>

record ('sem, 'ch) punch_env =
  pe_signal :: "'ch signal_env"
  pe_debug :: bool
  pe_sem :: "'sem sem_ops"
  pe_handlers :: "'sem handlers"
  pe_now :: "nat \<Rightarrow> nat"
  pe_socket :: "nat \<Rightarrow> socket_addr \<Rightarrow> (socket_addr \<Rightarrow> stream io_result timed) io_result"
  pe_meanwhile :: "nat \<Rightarrow> ('sem, 'ch) punch_peer \<Rightarrow> ('sem, 'ch) punch_peer"

definition HOLE_PUNCH_ATTEMPTS :: nat where
  "HOLE_PUNCH_ATTEMPTS = 500"

text \<open>The loop of \<open>punch_to\<close>: the attempt that succeeded if any, the attempts made, and the peer;
  \<open>None\<close> is a failed assertion in the node.\<close>

fun punch_loop ::
  "('sem, 'ch) punch_env \<Rightarrow> socket_addr \<Rightarrow> nat \<Rightarrow> nat \<Rightarrow> ('sem, 'ch) punch_peer
     \<Rightarrow> (nat option \<times> nat \<times> ('sem, 'ch) punch_peer) option" where
  "punch_loop env peer_addr attempt 0 p = Some (None, 0, p)"
| "punch_loop env peer_addr attempt (Suc left) p =
     (case pe_socket env attempt (pn_punch_addr p) of
        Inl _ \<Rightarrow>
          map_option (\<lambda>(r, made, q). (r, Suc made, q))
            (punch_loop env peer_addr (Suc attempt) left (pe_meanwhile env attempt p))
      | Inr socket \<Rightarrow>
          (case connect_using_socket (pe_debug env) (pe_sem env) (pe_handlers env) (pe_now env attempt)
                  peer_addr socket (pn_next_id p) (pn_node p) of
             None \<Rightarrow> None
           | Some (Inr _, n, next_id) \<Rightarrow>
               (let greeting = bstr ''hello from '' @ pn_name p;
                    (_, chans) = unicast_fast (se_chan (pe_signal env)) (se_type (pe_signal env)) peer_addr
                      greeting n (pn_chans p)
                in Some (Some attempt, 1, p\<lparr>pn_node := n, pn_next_id := next_id, pn_chans := chans\<rparr>))
           | Some (Inl _, n, next_id) \<Rightarrow>
               map_option (\<lambda>(r, made, q). (r, Suc made, q))
                 (punch_loop env peer_addr (Suc attempt) left
                   (pe_meanwhile env attempt (p\<lparr>pn_node := n, pn_next_id := next_id\<rparr>)))))"

definition punch_to ::
  "('sem, 'ch) punch_env \<Rightarrow> socket_addr \<Rightarrow> ('sem, 'ch) punch_peer
     \<Rightarrow> (nat option \<times> nat \<times> ('sem, 'ch) punch_peer) option" where
  "punch_to env peer_addr p = punch_loop env peer_addr 1 HOLE_PUNCH_ATTEMPTS p"

text \<open>\<open>process_message\<close> of the peer: a pairing from the rendezvous starts the punching, after which the
  rendezvous connection is dropped; a message of another peer is only shown.\<close>

definition peer_process ::
  "('sem, 'ch) punch_env \<Rightarrow> socket_addr \<Rightarrow> byte list \<Rightarrow> ('sem, 'ch) punch_peer \<Rightarrow> ('sem, 'ch) punch_peer option" where
  "peer_process env source message p =
     (if source = pn_rendezvous_addr p then
        (case from_utf8 message of
           None \<Rightarrow> Some p
         | Some s \<Rightarrow>
             (case parse_signal (se_parse (pe_signal env)) s of
                None \<Rightarrow> Some p
              | Some (tag, name, addr) \<Rightarrow>
                  if tag \<noteq> bstr ''peer'' then Some p
                  else
                    (case punch_to env addr p of
                       None \<Rightarrow> None
                     | Some (_, _, q) \<Rightarrow>
                         map_option (\<lambda>(_, n, _). q\<lparr>pn_node := n\<rparr>)
                           (disconnect (pe_debug env) (pe_handlers env) (pn_rendezvous_addr q) (pn_node q)))))
      else Some p)"

section \<open>Properties\<close>

text \<open>The signals of a server that pairs the registrations two by two.\<close>

fun pairings :: "(socket_addr \<Rightarrow> byte list) \<Rightarrow> pending_peer list \<Rightarrow> (socket_addr \<times> byte list) list" where
  "pairings shw (p # q # ps) =
     [(pp_conn_addr p, encode_peer shw (pp_name q) (pp_punch_addr q)),
      (pp_conn_addr q, encode_peer shw (pp_name p) (pp_punch_addr p))] @ pairings shw ps"
| "pairings shw _ = []"

text \<open>Sending a list of signals one after the other.\<close>

fun send_signals :: "'ch signal_env \<Rightarrow> 'sem node \<Rightarrow> (socket_addr \<times> byte list) list \<Rightarrow> 'ch channels \<Rightarrow> 'ch channels" where
  "send_signals env n [] chans = chans"
| "send_signals env n ((a, m) # signals) chans =
     send_signals env n signals (snd (unicast_fast (se_chan env) (se_type env) a m n chans))"

text \<open>What a registration needs to be understood: a proper name and an address that is read back.\<close>

definition peer_ok :: "'ch signal_env \<Rightarrow> pending_peer \<Rightarrow> bool" where
  "peer_ok env p \<longleftrightarrow> bar \<notin> set (pp_name p) \<and> valid_utf8 (pp_name p)
     \<and> valid_utf8 (se_show env (pp_punch_addr p))
     \<and> se_parse env (se_show env (pp_punch_addr p)) = Some (pp_punch_addr p)"

lemma signal_understood:
  assumes "peer_ok env p" and "bar \<notin> set tag" and "valid_utf8 tag"
  defines "s \<equiv> tag @ [bar] @ pp_name p @ [bar] @ se_show env (pp_punch_addr p)"
  shows "from_utf8 s = Some s \<and> parse_signal (se_parse env) s = Some (tag, pp_name p, pp_punch_addr p)"
proof
  have "valid_utf8 [bar]"
    by (simp add: bar_def)
  then show "from_utf8 s = Some s"
    using assms(1,3) unfolding s_def peer_ok_def from_utf8_def by (auto intro!: valid_utf8_append simp del: valid_utf8.simps append_Cons)
  show "parse_signal (se_parse env) s = Some (tag, pp_name p, pp_punch_addr p)"
    using assms(1,2) parse_encode_signal [of tag "pp_name p" "se_parse env" "se_show env" "pp_punch_addr p"]
    by (simp add: s_def peer_ok_def)
qed

lemma register_understood:
  "peer_ok env p \<Longrightarrow> s = encode_register (se_show env) (pp_name p) (pp_punch_addr p)
     \<Longrightarrow> from_utf8 s = Some s \<and> parse_signal (se_parse env) s = Some (bstr ''register'', pp_name p, pp_punch_addr p)"
  using signal_understood [of env p "bstr ''register''"] by (simp add: encode_register_def bstr_def bar_def)

lemma peer_understood:
  "peer_ok env p \<Longrightarrow> s = encode_peer (se_show env) (pp_name p) (pp_punch_addr p)
     \<Longrightarrow> from_utf8 s = Some s \<and> parse_signal (se_parse env) s = Some (bstr ''peer'', pp_name p, pp_punch_addr p)"
  using signal_understood [of env p "bstr ''peer''"] by (simp add: encode_peer_def bstr_def bar_def)

definition register_message :: "'ch signal_env \<Rightarrow> pending_peer \<Rightarrow> byte list" where
  "register_message env p = encode_register (se_show env) (pp_name p) (pp_punch_addr p)"

lemma rendezvous_process_register:
  assumes "peer_ok env p"
  shows "rendezvous_process env (pp_conn_addr p) (register_message env p) d = pair_peer env p d"
proof -
  have p: "\<lparr>pp_conn_addr = pp_conn_addr p, pp_name = pp_name p, pp_punch_addr = pp_punch_addr p\<rparr> = p"
    by (cases p) simp
  show ?thesis
    using register_understood [OF assms, of "register_message env p"]
    by (simp add: rendezvous_process_def register_message_def p)
qed

text \<open>The server over a series of registrations.\<close>

definition rendezvous_run ::
  "'ch signal_env \<Rightarrow> pending_peer list \<Rightarrow> ('sem, 'ch) rendezvous \<Rightarrow> ('sem, 'ch) rendezvous" where
  "rendezvous_run env ps d = fold (\<lambda>p. rendezvous_process env (pp_conn_addr p) (register_message env p)) ps d"

lemma rendezvous_run_pairs:
  assumes "\<forall>p \<in> set ps. peer_ok env p" and "rv_pending d = None"
  shows "rendezvous_run env ps d = d\<lparr>rv_pending := if odd (length ps) then Some (last ps) else None,
      rv_chans := send_signals env (rv_node d) (pairings (se_show env) ps) (rv_chans d)\<rparr>"
  using assms
proof (induction "se_show env" ps arbitrary: d rule: pairings.induct)
  case (1 p q ps)
  let ?d = "pair_peer env q (pair_peer env p d)"
  have d: "?d = d\<lparr>rv_pending := None, rv_chans := send_signals env (rv_node d)
      [(pp_conn_addr p, encode_peer (se_show env) (pp_name q) (pp_punch_addr q)),
       (pp_conn_addr q, encode_peer (se_show env) (pp_name p) (pp_punch_addr p))] (rv_chans d)\<rparr>"
    using "1.prems"(2) by (simp add: pair_peer_def Let_def split: prod.splits)
  have "rendezvous_run env (p # q # ps) d = rendezvous_run env ps ?d"
    using "1.prems"(1) by (simp add: rendezvous_run_def rendezvous_process_register)
  also have "\<dots> = ?d\<lparr>rv_pending := if odd (length ps) then Some (last ps) else None,
      rv_chans := send_signals env (rv_node ?d) (pairings (se_show env) ps) (rv_chans ?d)\<rparr>"
    using "1.prems"(1) by (intro "1.hyps") (simp_all add: d)
  finally show ?case
    by (simp add: d)
qed (simp_all add: rendezvous_run_def rendezvous_process_register pair_peer_def)

lemma pairings_signal:
  assumes "(c, m) \<in> set (pairings shw ps)"
  shows "\<exists>q \<in> set ps. m = encode_peer shw (pp_name q) (pp_punch_addr q)"
  using assms by (induction shw ps rule: pairings.induct) auto

lemma peer_process_signal:
  assumes "peer_ok (pe_signal env) q"
  shows "peer_process env (pn_rendezvous_addr p) (encode_peer (se_show (pe_signal env)) (pp_name q) (pp_punch_addr q)) p
    = (case punch_to env (pp_punch_addr q) p of
         None \<Rightarrow> None
       | Some (_, _, p') \<Rightarrow> map_option (\<lambda>(_, n, _). p'\<lparr>pn_node := n\<rparr>)
           (disconnect (pe_debug env) (pe_handlers env) (pn_rendezvous_addr p') (pn_node p')))"
  using peer_understood [OF assms, of "encode_peer (se_show (pe_signal env)) (pp_name q) (pp_punch_addr q)"]
  by (simp add: peer_process_def)

text \<open>Punching makes at most the given number of attempts: it ends with the first one that connects,
  or after all of them.\<close>

lemma punch_loop_attempts:
  assumes "punch_loop env addr k n p = Some (r, made, q)"
  shows "case r of
      None \<Rightarrow> made = n
    | Some i \<Rightarrow> made \<le> n \<and> i + 1 = k + made
        \<and> (\<exists>own socket nd nid. pe_socket env i own = Inr socket
             \<and> connect_using_socket (pe_debug env) (pe_sem env) (pe_handlers env) (pe_now env i) addr socket
                 nid nd = Some (Inr (), pn_node q, pn_next_id q))"
  using assms
proof (induction env addr k n p arbitrary: made rule: punch_loop.induct)
  case (2 env addr k n p)
  show ?case
  proof (cases "pe_socket env k (pn_punch_addr p)")
    case (Inl e)
    then obtain m where "punch_loop env addr (Suc k) n (pe_meanwhile env k p) = Some (r, m, q)" "made = Suc m"
      using "2.prems" by auto
    with "2.IH"(1) [OF Inl, of m] show ?thesis
      by (auto split: option.splits)
  next
    case (Inr socket)
    show ?thesis
    proof (cases "connect_using_socket (pe_debug env) (pe_sem env) (pe_handlers env) (pe_now env k) addr socket
        (pn_next_id p) (pn_node p)")
      case (Some res)
      obtain x nd nid where res: "res = (x, nd, nid)" by (cases res)
      show ?thesis
      proof (cases x)
        case (Inl e)
        then obtain m where "punch_loop env addr (Suc k) n (pe_meanwhile env k (p\<lparr>pn_node := nd, pn_next_id := nid\<rparr>))
            = Some (r, m, q)" "made = Suc m"
          using "2.prems" Inr Some res by auto
        with "2.IH"(2) [OF Inr Some res [symmetric] Inl refl, of m] show ?thesis
          by (auto split: option.splits)
      next
        case ok: (Inr u)
        then have "r = Some k" "made = 1" "pn_node q = nd" "pn_next_id q = nid"
          using "2.prems" Inr Some res by (auto split: prod.splits)
        then show ?thesis
          using Inr Some res ok by auto
      qed
    qed (use "2.prems" Inr in simp)
  qed
qed simp




definition demo_signal :: "byte list wrapped_message chan_view signal_env" where
  "demo_signal = \<lparr>se_chan = list_chan, se_type = 0, se_show = (\<lambda>_. bstr ''x''), se_parse = (\<lambda>_. Some (SockV4 1 2))\<rparr>"

definition demo_punch :: "(nat, byte list wrapped_message chan_view) punch_env" where
  "demo_punch = \<lparr>pe_signal = demo_signal, pe_debug = True, pe_sem = nat_sem, pe_handlers = demo_handlers,
     pe_now = id, pe_socket = (\<lambda>_ _. Inl (IoError AddrInUse NoPayload)), pe_meanwhile = (\<lambda>_ p. p)\<rparr>"

definition demo_registrations :: "pending_peer list" where
  "demo_registrations = [\<lparr>pp_conn_addr = SockV4 1 1, pp_name = bstr ''alice'', pp_punch_addr = SockV4 1 2\<rparr>,
     \<lparr>pp_conn_addr = SockV4 1 3, pp_name = bstr ''bob'', pp_punch_addr = SockV4 1 2\<rparr>]"



end
