(* ===== verification/Simple_Rpc.thy ===== *)
theory Simple_Rpc
  imports Wire Writing
begin

text \<open>
  The request/response node of \<open>examples/examples/simple_rpc.rs\<close>: its message format, the handler, and
  the call that waits for a response. Strings are the lists of their UTF-8 bytes.
\<close>

section \<open>Messages\<close>

datatype rpc_message = Request u64 "byte list" | Response u64 "byte list"

fun rpc_message_encode :: "rpc_message \<Rightarrow> byte list" where
  "rpc_message_encode (Request i data) = be_bytes 1 0 @ be_bytes 8 (unat i) @ data"
| "rpc_message_encode (Response i data) = be_bytes 1 1 @ be_bytes 8 (unat i) @ data"

text \<open>\<open>None\<close> is the panic of a read from a buffer that is too short.\<close>

definition rpc_message_decode :: "byte list \<Rightarrow> rpc_message option option" where
  "rpc_message_decode buf =
     (if length buf < 9 then Some None
      else
        (case get_be 1 buf of None \<Rightarrow> None | Some (msg_type, b1) \<Rightarrow>
        (case get_be 8 b1 of None \<Rightarrow> None | Some (i, b2) \<Rightarrow>
         Some (case from_utf8 b2 of
                 None \<Rightarrow> None
               | Some data \<Rightarrow>
                   if msg_type = 0 then Some (Request (of_nat i) data)
                   else if msg_type = 1 then Some (Response (of_nat i) data)
                   else None))))"

fun rpc_message_data :: "rpc_message \<Rightarrow> byte list" where
  "rpc_message_data (Request _ data) = data"
| "rpc_message_data (Response _ data) = data"

section \<open>The node\<close>

record ('sem, 'ch) rpc_node =
  rn_node :: "'sem node"
  rn_chans :: "'ch channels"
  rn_next_request_id :: u64
  rn_pending_requests :: "(u64, nat) fmap"
  rn_channels :: nat

text \<open>What it runs in: the channel operations of the node, \<open>str::to_uppercase\<close>, and the outcome of the
  await for a response with the node as the other tasks have left it by then.\<close>

record ('sem, 'ch) rpc_env =
  re_chan :: "(byte list wrapped_message, 'ch) chan_ops"
  re_type :: nat
  re_upper :: "byte list \<Rightarrow> byte list"
  re_await :: "nat \<Rightarrow> ('sem, 'ch) rpc_node \<Rightarrow> byte list option timed \<times> ('sem, 'ch) rpc_node"

definition rpc_send ::
  "('sem, 'ch) rpc_env \<Rightarrow> socket_addr \<Rightarrow> rpc_message \<Rightarrow> ('sem, 'ch) rpc_node
     \<Rightarrow> unit io_result \<times> ('sem, 'ch) rpc_node" where
  "rpc_send env addr msg d =
     (case unicast_fast (re_chan env) (re_type env) addr (rpc_message_encode msg) (rn_node d) (rn_chans d) of
        (r, chans) \<Rightarrow> (r, d\<lparr>rn_chans := chans\<rparr>))"

text \<open>\<open>process_message\<close>: the node, and what was sent into the channel of a waiting caller; a message
  that does not decode is dropped.\<close>

definition rpc_process ::
  "('sem, 'ch) rpc_env \<Rightarrow> socket_addr \<Rightarrow> byte list \<Rightarrow> ('sem, 'ch) rpc_node
     \<Rightarrow> (('sem, 'ch) rpc_node \<times> (nat \<times> byte list) option) option" where
  "rpc_process env source message d =
     (case rpc_message_decode message of
        None \<Rightarrow> None
      | Some None \<Rightarrow> Some (d, None)
      | Some (Some (Request i data)) \<Rightarrow>
          (let reply = bstr ''processed: '' @ re_upper env data
           in Some (snd (rpc_send env source (Response i reply) d), None))
      | Some (Some (Response i data)) \<Rightarrow>
          (case fmlookup (rn_pending_requests d) i of
             None \<Rightarrow> Some (d, None)
           | Some tx \<Rightarrow>
               Some (d\<lparr>rn_pending_requests := fmdrop i (rn_pending_requests d)\<rparr>, Some (tx, data))))"

definition rpc_call ::
  "('sem, 'ch) rpc_env \<Rightarrow> socket_addr \<Rightarrow> byte list \<Rightarrow> ('sem, 'ch) rpc_node
     \<Rightarrow> byte list io_result \<times> ('sem, 'ch) rpc_node" where
  "rpc_call env target data d =
     (let i = rn_next_request_id d; tx = rn_channels d;
          d1 = d\<lparr>rn_next_request_id := fetch_add i 1, rn_channels := Suc tx,
                 rn_pending_requests := fmupd i tx (rn_pending_requests d)\<rparr>
      in case rpc_send env target (Request i data) d1 of
           (Inl e, d2) \<Rightarrow> (Inl e, d2\<lparr>rn_pending_requests := fmdrop i (rn_pending_requests d2)\<rparr>)
         | (Inr _, d2) \<Rightarrow>
             (case re_await env tx d2 of
                (Elapsed, d3) \<Rightarrow> (Inl (IoError TimedOut (Message ''RPC timed out'')), d3)
              | (Completed None, d3) \<Rightarrow> (Inl (IoError BrokenPipe (Message ''Sender dropped'')), d3)
              | (Completed (Some response), d3) \<Rightarrow> (Inr response, d3)))"

section \<open>Properties\<close>

lemma unat_mod_u64 [simp]: "unat (i :: u64) mod 18446744073709551616 = unat i"
  using unsigned_less [where 'a = nat and w = i] by simp

lemma rpc_message_decode_encode:
  "rpc_message_decode (rpc_message_encode m)
     = Some (if valid_utf8 (rpc_message_data m) then Some m else None)"
  by (cases m) (simp_all add: rpc_message_decode_def from_utf8_def del: be_bytes.simps One_nat_def)

lemma rpc_message_encode_decode:
  assumes "rpc_message_decode bs = Some (Some m)"
  shows "bs = rpc_message_encode m \<and> valid_utf8 (rpc_message_data m)"
  using assms
  by (auto simp: rpc_message_decode_def get_be_Some from_utf8_def unsigned_of_nat take_bit_eq_mod
      simp del: be_bytes.simps split: if_splits option.splits prod.splits)

lemma rpc_message_decode_total: "rpc_message_decode bs \<noteq> None"
  by (auto simp: rpc_message_decode_def get_be_def)

text \<open>Decoding never panics, accepts exactly the encodings of messages with a valid string, and gives
  the message that was encoded.\<close>

lemma rpc_message_roundtrip:
  "\<exists>r. rpc_message_decode bs = Some r
     \<and> (\<forall>m. r = Some m \<longleftrightarrow> bs = rpc_message_encode m \<and> valid_utf8 (rpc_message_data m))"
proof -
  obtain r where r: "rpc_message_decode bs = Some r"
    using rpc_message_decode_total by blast
  have "r = Some m \<longleftrightarrow> bs = rpc_message_encode m \<and> valid_utf8 (rpc_message_data m)" for m
    using r rpc_message_encode_decode [of bs m] rpc_message_decode_encode [of m] by auto
  then show ?thesis
    using r by blast
qed

declare rpc_message_encode.simps [simp del]

lemma rpc_send_outbox:
  assumes "channel_contract (re_chan env) view" and "outbox view (re_type env) (rn_node d) a q (Suc room) (rn_chans d)"
  shows "\<exists>chans. rpc_send env a msg d = (Inr (), d\<lparr>rn_chans := chans\<rparr>)
    \<and> outbox view (re_type env) (rn_node d) a (q @ [plain (rpc_message_encode msg)]) room chans"
  using unicast_fast_outbox [OF assms, of "rpc_message_encode msg"] by (auto simp: rpc_send_def)

text \<open>The end of a call, once its request is queued: with the response the handler has delivered, or
  with the time up.\<close>

lemma rpc_call_sent:
  assumes "channel_contract (re_chan env) view"
    and "outbox view (re_type env) (rn_node d) target q (Suc room) (rn_chans d)"
  obtains d2 where "rn_pending_requests d2 = fmupd (rn_next_request_id d) (rn_channels d) (rn_pending_requests d)"
    and "outbox view (re_type env) (rn_node d2) target
      (q @ [plain (rpc_message_encode (Request (rn_next_request_id d) data))]) room (rn_chans d2)"
    and "rpc_call env target data d = (case re_await env (rn_channels d) d2 of
        (Elapsed, d3) \<Rightarrow> (Inl (IoError TimedOut (Message ''RPC timed out'')), d3)
      | (Completed None, d3) \<Rightarrow> (Inl (IoError BrokenPipe (Message ''Sender dropped'')), d3)
      | (Completed (Some response), d3) \<Rightarrow> (Inr response, d3))"
proof -
  let ?d1 = "d\<lparr>rn_next_request_id := fetch_add (rn_next_request_id d) 1, rn_channels := Suc (rn_channels d),
     rn_pending_requests := fmupd (rn_next_request_id d) (rn_channels d) (rn_pending_requests d)\<rparr>"
  have "outbox view (re_type env) (rn_node ?d1) target q (Suc room) (rn_chans ?d1)"
    using assms(2) by simp
  from rpc_send_outbox [OF assms(1) this, of "Request (rn_next_request_id d) data"] obtain chans where
    c: "rpc_send env target (Request (rn_next_request_id d) data) ?d1 = (Inr (), ?d1\<lparr>rn_chans := chans\<rparr>)"
      "outbox view (re_type env) (rn_node d) target
        (q @ [plain (rpc_message_encode (Request (rn_next_request_id d) data))]) room chans"
    by auto
  show thesis
    by (rule that [of "?d1\<lparr>rn_chans := chans\<rparr>"]) (use c in \<open>simp_all add: rpc_call_def Let_def\<close>)
qed

definition rpc_reply :: "('sem, 'ch) rpc_env \<Rightarrow> byte list \<Rightarrow> byte list" where
  "rpc_reply env data = bstr ''processed: '' @ re_upper env data"

text \<open>The two ways a call can wait: until the other end's response is processed, or in vain.\<close>

definition answered :: "('sem, 'ch) rpc_env \<Rightarrow> socket_addr \<Rightarrow> rpc_message \<Rightarrow> bool" where
  "answered env target response \<longleftrightarrow>
     (\<forall>tx d. re_await env tx d = (case rpc_process env target (rpc_message_encode response) d of
          Some (d', Some (tx', data)) \<Rightarrow> if tx' = tx then (Completed (Some data), d') else (Elapsed, d')
        | _ \<Rightarrow> (Elapsed, d)))"

definition unanswered :: "('sem, 'ch) rpc_env \<Rightarrow> bool" where
  "unanswered env \<longleftrightarrow> (\<forall>tx d. re_await env tx d = (Elapsed, d))"


definition demo_rpc :: "(nat, byte list wrapped_message chan_view) rpc_node" where
  "demo_rpc = \<lparr>rn_node = demo_node\<lparr>nd_protocols :=
       (nd_protocols demo_node)\<lparr>writing_handler := Some (fmupd demo_addr (0, 0) fmempty)\<rparr>\<rparr>,
     rn_chans = (\<lambda>_. (0, \<lparr>cv_cap = 8, cv_queue = [], cv_closed = False, cv_tx = True\<rparr>)),
     rn_next_request_id = 0, rn_pending_requests = fmempty, rn_channels = 0\<rparr>"

definition demo_rpc_env :: "(nat, byte list wrapped_message chan_view) rpc_env" where
  "demo_rpc_env = \<lparr>re_chan = list_chan, re_type = 0, re_upper = id, re_await = (\<lambda>_ d. (Elapsed, d))\<rparr>"


end
