(* ===== verification/Dining.thy ===== *)
theory Dining
  imports Contracts
begin

text \<open>
  The dining philosophers of \<open>examples/examples/dining_philosophers.rs\<close>: the reactions of one
  philosopher to a message, the loop of its own task, and the interleavings of all of them around the
  table with the messages between them. A message once sent may be handled at any later time and in
  any order, so nothing is assumed of the connections. The loop asks again every quarter of a second;
  whether the answer to the last question has arrived by then is a parameter.
\<close>

section \<open>One philosopher\<close>

datatype ph_state = Thinking | Hungry bool | Eating nat

datatype ph_message = AreYouUsingTheSharedFork | Yes "nat option" | No

definition MIN_EATING_TIME_MS :: nat where
  "MIN_EATING_TIME_MS = 500"

definition MAX_EATING_TIME_MS :: nat where
  "MAX_EATING_TIME_MS = 1000"

text \<open>The three branches of \<open>process_message\<close>: the answer to a question; whether a refusal makes the
  philosopher think again (decided under the read lock, done under the write lock); and a granted fork,
  with the random eating time.\<close>

fun fork_answer :: "ph_state \<Rightarrow> ph_message" where
  "fork_answer Thinking = No"
| "fork_answer _ = Yes None"

definition gives_up :: "ph_state \<Rightarrow> bool" where
  "gives_up st \<longleftrightarrow> st \<noteq> Hungry True"

definition gets_fork :: "nat \<Rightarrow> ph_state \<Rightarrow> ph_state" where
  "gets_fork eating_time st =
     (if st = Hungry False then Hungry True
      else if st = Hungry True then Eating eating_time
      else st)"

text \<open>The neighbours around a table of \<open>n\<close>, and the one asked by a philosopher that has, or does not
  have, the left fork.\<close>

definition right_of :: "nat \<Rightarrow> nat \<Rightarrow> nat" where
  "right_of n i = (i + 1) mod n"

definition left_of :: "nat \<Rightarrow> nat \<Rightarrow> nat" where
  "left_of n i = (i + n - 1) mod n"

definition asked :: "nat \<Rightarrow> nat \<Rightarrow> bool \<Rightarrow> nat" where
  "asked n i has_left_fork = (if has_left_fork then right_of n i else left_of n i)"

section \<open>The table\<close>

text \<open>Where the loop of \<open>start_dining\<close> stands: before its \<open>match\<close>; after the sleep of a thinker, of a
  sated eater, or with the neighbour to ask chosen, each time with the read lock released; or ended.\<close>

datatype loop_pc = AtTop | Woken | Sated | Asking bool | Over

record dinner =
  dn_state :: "nat \<Rightarrow> ph_state"
  dn_pc :: "nat \<Rightarrow> loop_pc"
  dn_msgs :: "(nat \<times> nat \<times> ph_message) list"
  dn_resets :: "nat list"

definition dinner_start :: dinner where
  "dinner_start = \<lparr>dn_state = (\<lambda>_. Thinking), dn_pc = (\<lambda>_. AtTop), dn_msgs = [], dn_resets = []\<rparr>"

datatype dine_action =
    Wakes nat | BecomesHungry nat | Chooses nat | Asks nat | AskFails nat | HasEaten nat | BecomesThinker nat
  | Answers nat nat | HearsYes nat nat "nat option" | GivesUp nat | HearsNo nat nat nat

text \<open>Whose question a message belongs to, and who was asked. A question is open until its answer has
  been dealt with.\<close>

fun asker :: "nat \<times> nat \<times> ph_message \<Rightarrow> nat" where
  "asker (f, t, m) = (if m = AreYouUsingTheSharedFork then f else t)"

fun askee :: "nat \<times> nat \<times> ph_message \<Rightarrow> nat" where
  "askee (f, t, m) = (if m = AreYouUsingTheSharedFork then t else f)"

definition open_questions :: "(nat \<times> nat \<times> ph_message) list \<Rightarrow> nat list \<Rightarrow> nat \<Rightarrow> nat" where
  "open_questions msgs resets i = length (filter (\<lambda>m. asker m = i) msgs) + count_list resets i"

text \<open>One action at a table of \<open>n\<close>; with \<open>timely\<close> the loop comes round only after the last question has
  been answered.\<close>

fun dine :: "nat \<Rightarrow> bool \<Rightarrow> dine_action \<Rightarrow> dinner \<Rightarrow> dinner option" where
  "dine n timely (Wakes i) s =
     (if i < n \<and> dn_pc s i = AtTop \<and> dn_state s i = Thinking
      then Some (s\<lparr>dn_pc := (dn_pc s)(i := Woken)\<rparr>) else None)"
| "dine n timely (BecomesHungry i) s =
     (if i < n \<and> dn_pc s i = Woken
      then Some (s\<lparr>dn_pc := (dn_pc s)(i := AtTop), dn_state := (dn_state s)(i := Hungry False)\<rparr>) else None)"
| "dine n timely (Chooses i) s =
     (if i < n \<and> dn_pc s i = AtTop \<and> (timely \<longrightarrow> open_questions (dn_msgs s) (dn_resets s) i = 0)
      then (case dn_state s i of
              Hungry has_left_fork \<Rightarrow> Some (s\<lparr>dn_pc := (dn_pc s)(i := Asking has_left_fork)\<rparr>)
            | _ \<Rightarrow> None)
      else None)"
| "dine n timely (Asks i) s =
     (if i < n
      then (case dn_pc s i of
              Asking has_left_fork \<Rightarrow>
                Some (s\<lparr>dn_pc := (dn_pc s)(i := AtTop),
                  dn_msgs := dn_msgs s @ [(i, asked n i has_left_fork, AreYouUsingTheSharedFork)]\<rparr>)
            | _ \<Rightarrow> None)
      else None)"
| "dine n timely (AskFails i) s =
     (if i < n
      then (case dn_pc s i of Asking _ \<Rightarrow> Some (s\<lparr>dn_pc := (dn_pc s)(i := Over)\<rparr>) | _ \<Rightarrow> None)
      else None)"
| "dine n timely (HasEaten i) s =
     (if i < n \<and> dn_pc s i = AtTop
      then (case dn_state s i of Eating _ \<Rightarrow> Some (s\<lparr>dn_pc := (dn_pc s)(i := Sated)\<rparr>) | _ \<Rightarrow> None)
      else None)"
| "dine n timely (BecomesThinker i) s =
     (if i < n \<and> dn_pc s i = Sated
      then Some (s\<lparr>dn_pc := (dn_pc s)(i := AtTop), dn_state := (dn_state s)(i := Thinking)\<rparr>) else None)"
| "dine n timely (Answers j i) s =
     (if (i, j, AreYouUsingTheSharedFork) \<in> set (dn_msgs s)
      then Some (s\<lparr>dn_msgs := remove1 (i, j, AreYouUsingTheSharedFork) (dn_msgs s) @ [(j, i, fork_answer (dn_state s j))]\<rparr>)
      else None)"
| "dine n timely (HearsYes i j duration) s =
     (if (j, i, Yes duration) \<in> set (dn_msgs s)
      then Some (s\<lparr>dn_msgs := remove1 (j, i, Yes duration) (dn_msgs s),
          dn_resets := (if gives_up (dn_state s i) then [i] else []) @ dn_resets s\<rparr>)
      else None)"
| "dine n timely (GivesUp i) s =
     (if i \<in> set (dn_resets s)
      then Some (s\<lparr>dn_resets := remove1 i (dn_resets s), dn_state := (dn_state s)(i := Thinking)\<rparr>) else None)"
| "dine n timely (HearsNo i j eating_time) s =
     (if (j, i, No) \<in> set (dn_msgs s) \<and> MIN_EATING_TIME_MS \<le> eating_time \<and> eating_time \<le> MAX_EATING_TIME_MS
      then Some (s\<lparr>dn_msgs := remove1 (j, i, No) (dn_msgs s),
          dn_state := (dn_state s)(i := gets_fork eating_time (dn_state s i))\<rparr>)
      else None)"

definition dine_step :: "nat \<Rightarrow> bool \<Rightarrow> dinner \<Rightarrow> dinner \<Rightarrow> bool" where
  "dine_step n timely s t \<longleftrightarrow> (\<exists>act. dine n timely act s = Some t)"

fun dine_run :: "nat \<Rightarrow> bool \<Rightarrow> dine_action list \<Rightarrow> dinner \<Rightarrow> dinner option" where
  "dine_run n timely [] s = Some s"
| "dine_run n timely (act # acts) s =
     (case dine n timely act s of None \<Rightarrow> None | Some t \<Rightarrow> dine_run n timely acts t)"

lemma dine_run_steps: "dine_run n timely acts s = Some t \<Longrightarrow> (dine_step n timely)\<^sup>*\<^sup>* s t"
proof (induction acts arbitrary: s)
  case (Cons act acts)
  then obtain u where "dine n timely act s = Some u" "(dine_step n timely)\<^sup>*\<^sup>* u t"
    by (auto split: option.splits)
  then show ?case
    by (auto intro: converse_rtranclp_into_rtranclp dine_step_def [THEN iffD2])
qed simp

section \<open>When answers are late\<close>

text \<open>Philosopher 1 dines with the forks of its thinking neighbours; then philosopher 0 asks its left
  neighbour twice before the first answer arrives, and takes the second one for the right fork.\<close>

definition late_dinner :: "dine_action list" where
  "late_dinner =
     [Wakes 1, BecomesHungry 1, Chooses 1, Asks 1, Answers 0 1, HearsNo 1 0 500,
      Chooses 1, Asks 1, Answers 2 1, HearsNo 1 2 500,
      Wakes 0, BecomesHungry 0, Chooses 0, Asks 0, Chooses 0, Asks 0,
      Answers 4 0, Answers 4 0, HearsNo 0 4 500, HearsNo 0 4 500]"

lemma late_dinner_run:
  "\<exists>t. dine_run 5 False late_dinner dinner_start = Some t \<and> dn_state t 0 = Eating 500 \<and> dn_state t 1 = Eating 500"
  by (simp add: late_dinner_def dinner_start_def asked_def left_of_def right_of_def gets_fork_def
      MIN_EATING_TIME_MS_def MAX_EATING_TIME_MS_def)

section \<open>When answers are timely\<close>

lemma left_right_of: "i < n \<Longrightarrow> left_of n (right_of n i) = i"
  by (cases "Suc i = n") (auto simp: right_of_def left_of_def)

lemma fork_answer_simps [simp]: "fork_answer st \<noteq> AreYouUsingTheSharedFork" "fork_answer st = No \<longleftrightarrow> st = Thinking"
  "No = fork_answer st \<longleftrightarrow> st = Thinking"
  by (cases st; simp)+

text \<open>Who has a claim to the fork on its left or right: it has the fork, or it was granted and the answer
  is on its way.\<close>

definition claims_left :: "dinner \<Rightarrow> nat \<Rightarrow> bool" where
  "claims_left s i \<longleftrightarrow> dn_state s i = Hungry True \<or> (\<exists>t. dn_state s i = Eating t)
     \<or> dn_state s i = Hungry False \<and> (\<exists>j. (j, i, No) \<in> set (dn_msgs s))"

definition claims_right :: "dinner \<Rightarrow> nat \<Rightarrow> bool" where
  "claims_right s i \<longleftrightarrow> (\<exists>t. dn_state s i = Eating t)
     \<or> dn_state s i = Hungry True \<and> (\<exists>j. (j, i, No) \<in> set (dn_msgs s))"

definition exclusive :: "nat \<Rightarrow> dinner \<Rightarrow> bool" where
  "exclusive n s \<longleftrightarrow> (\<forall>i < n. \<not> (claims_right s i \<and> claims_left s (right_of n i)))"

lemma open_questions_0:
  "open_questions ms rs i = 0 \<longleftrightarrow> (\<forall>m \<in> set ms. asker m \<noteq> i) \<and> i \<notin> set rs"
  by (auto simp: open_questions_def filter_empty_conv count_list_0_iff)

lemma open_questions_pos: "m \<in> set ms \<Longrightarrow> open_questions ms rs (asker m) \<noteq> 0"
  using open_questions_0 [of ms rs "asker m"] by blast

lemma open_questions_simps [simp]:
  "open_questions [] [] i = 0"
  "open_questions (ms @ [m]) rs i = open_questions ms rs i + (if asker m = i then 1 else 0)"
  "open_questions ms (k # rs) i = open_questions ms rs i + (if k = i then 1 else 0)"
  "m \<in> set ms \<Longrightarrow> open_questions (remove1 m ms) rs i = open_questions ms rs i - (if asker m = i then 1 else 0)"
  "k \<in> set rs \<Longrightarrow> open_questions ms (remove1 k rs) i = open_questions ms rs i - (if k = i then 1 else 0)"
proof -
  show "open_questions (remove1 m ms) rs i = open_questions ms rs i - (if asker m = i then 1 else 0)" if mem: "m \<in> set ms"
  proof (cases "asker m = i")
    case True
    then obtain k where "length (filter (\<lambda>m. asker m = i) ms) = Suc k"
      using mem length_pos_if_in_set [of m "filter (\<lambda>m. asker m = i) ms"] by (auto simp: gr0_conv_Suc)
    then show ?thesis
      using mem True by (simp add: open_questions_def filter_remove1 length_remove1)
  qed (simp add: open_questions_def filter_remove1 remove1_idem)
  show "open_questions ms (remove1 k rs) i = open_questions ms rs i - (if k = i then 1 else 0)" if "k \<in> set rs"
    using that by (induction rs) (auto simp: open_questions_def)
qed (auto simp: open_questions_def)

text \<open>At most one question of a philosopher is open, and while it is the philosopher is as hungry as
  when it asked.\<close>

fun pc_ok :: "loop_pc \<Rightarrow> ph_state \<Rightarrow> nat \<Rightarrow> bool" where
  "pc_ok Woken st k \<longleftrightarrow> st = Thinking"
| "pc_ok Sated st k \<longleftrightarrow> (\<exists>t. st = Eating t)"
| "pc_ok (Asking b) st k \<longleftrightarrow> st = Hungry b \<and> k = 0"
| "pc_ok _ st k \<longleftrightarrow> True"

definition orderly_at :: "nat \<Rightarrow> dinner \<Rightarrow> nat \<Rightarrow> bool" where
  "orderly_at n s i \<longleftrightarrow>
     open_questions (dn_msgs s) (dn_resets s) i \<le> 1
     \<and> pc_ok (dn_pc s i) (dn_state s i) (open_questions (dn_msgs s) (dn_resets s) i)
     \<and> (\<forall>m \<in> set (dn_msgs s). asker m = i \<longrightarrow> i < n \<and> (\<exists>b. dn_state s i = Hungry b \<and> askee m = asked n i b))
     \<and> (i \<in> set (dn_resets s) \<longrightarrow> dn_state s i = Hungry False)"

definition orderly :: "nat \<Rightarrow> dinner \<Rightarrow> bool" where
  "orderly n s \<longleftrightarrow> (\<forall>i. orderly_at n s i)"

lemma orderly_start: "orderly n dinner_start"
  by (simp add: orderly_def orderly_at_def dinner_start_def)

text \<open>Dealing with the only open question leaves none.\<close>

lemma last_question:
  assumes "orderly_at n s i" and "m \<in> set (dn_msgs s)" and "asker m = i"
  shows "open_questions (remove1 m (dn_msgs s)) (dn_resets s) i = 0"
  using assms by (simp add: orderly_at_def)

lemma last_reset:
  assumes "orderly_at n s i" and "i \<in> set (dn_resets s)"
  shows "open_questions (dn_msgs s) (remove1 i (dn_resets s)) i = 0" and "pc_ok (dn_pc s i) st k"
proof -
  have "open_questions (dn_msgs s) (dn_resets s) i \<noteq> 0"
    using assms(2) by (simp add: open_questions_0)
  then show "pc_ok (dn_pc s i) st k"
    using assms unfolding orderly_at_def by (cases "dn_pc s i") auto
qed (use assms in \<open>simp add: orderly_at_def\<close>)

lemma quiet_orderly:
  "open_questions (dn_msgs s) (dn_resets s) i = 0 \<Longrightarrow> pc_ok (dn_pc s i) (dn_state s i) 0 \<Longrightarrow> orderly_at n s i"
  by (simp add: orderly_at_def) (simp add: open_questions_0)

text \<open>An action of another philosopher changes nothing for this one.\<close>

fun actor :: "dine_action \<Rightarrow> nat" where
  "actor (Wakes i) = i" | "actor (BecomesHungry i) = i" | "actor (Chooses i) = i" | "actor (Asks i) = i"
| "actor (AskFails i) = i" | "actor (HasEaten i) = i" | "actor (BecomesThinker i) = i" | "actor (Answers j i) = i"
| "actor (HearsYes i j d) = i" | "actor (GivesUp i) = i" | "actor (HearsNo i j t) = i"

lemma remove1_mem: "x \<in> set (remove1 y xs) \<Longrightarrow> x \<in> set xs"
  using set_remove1_subset by fastforce

lemma orderly_other:
  assumes "dine n timely act s = Some t" and "orderly_at n s k" and "actor act \<noteq> k"
  shows "orderly_at n t k"
proof -
  have "dn_pc t k = dn_pc s k" "dn_state t k = dn_state s k"
    "open_questions (dn_msgs t) (dn_resets t) k = open_questions (dn_msgs s) (dn_resets s) k"
    using assms(1,3) by (cases act; auto split: if_splits ph_state.splits loop_pc.splits)+
  moreover have "m \<in> set (dn_msgs s)" if "m \<in> set (dn_msgs t)" "asker m = k" for m
    using assms(1,3) that
    by (cases act) (auto split: if_splits ph_state.splits loop_pc.splits dest: remove1_mem)
  moreover have "k \<in> set (dn_resets s)" if "k \<in> set (dn_resets t)"
    using assms(1,3) that
    by (cases act) (auto split: if_splits ph_state.splits loop_pc.splits dest: remove1_mem)
  ultimately show ?thesis
    using assms(2) by (auto simp: orderly_at_def)
qed

text \<open>While a question is open its philosopher is hungry, waits, and has nothing else open.\<close>

lemma one_question:
  assumes "orderly_at n s i" and "m \<in> set (dn_msgs s)" and "asker m = i"
  shows "i < n" and "\<exists>b. dn_state s i = Hungry b \<and> askee m = asked n i b"
    and "\<forall>m' \<in> set (remove1 m (dn_msgs s)). asker m' \<noteq> i" and "i \<notin> set (dn_resets s)"
    and "open_questions (dn_msgs s) (dn_resets s) i = 1" and "pc_ok (dn_pc s i) st k"
proof -
  show rest: "\<forall>m' \<in> set (remove1 m (dn_msgs s)). asker m' \<noteq> i" "i \<notin> set (dn_resets s)"
    using last_question [OF assms] unfolding open_questions_0 by blast+
  show one: "open_questions (dn_msgs s) (dn_resets s) i = 1"
    using assms(1) open_questions_pos [OF assms(2), of "dn_resets s"] assms(3) unfolding orderly_at_def by simp
  have "\<forall>m \<in> set (dn_msgs s). asker m = i \<longrightarrow> i < n \<and> (\<exists>b. dn_state s i = Hungry b \<and> askee m = asked n i b)"
    using assms(1) unfolding orderly_at_def by metis
  from bspec [OF this assms(2)] assms(3) show "i < n" and st: "\<exists>b. dn_state s i = Hungry b \<and> askee m = asked n i b"
    by simp_all
  have "pc_ok (dn_pc s i) (dn_state s i) 1"
    using assms(1) one unfolding orderly_at_def by metis
  with st show "pc_ok (dn_pc s i) st k"
    by (cases "dn_pc s i") auto
qed

lemma orderly_answer:
  assumes "orderly_at n s i" and "dine n timely (Answers j i) s = Some t"
  shows "orderly_at n t i"
proof -
  let ?q = "(i, j, AreYouUsingTheSharedFork)"
  have q: "?q \<in> set (dn_msgs s)" and t: "t = s\<lparr>dn_msgs := remove1 ?q (dn_msgs s) @ [(j, i, fork_answer (dn_state s j))]\<rparr>"
    using assms(2) by (simp_all split: if_splits)
  from one_question [OF assms(1) q] show ?thesis
    using q unfolding orderly_at_def t by simp
qed

lemma orderly_refused:
  assumes "orderly_at n s i" and "dine n timely (HearsYes i j d) s = Some t"
  shows "orderly_at n t i"
proof -
  let ?q = "(j, i, Yes d)"
  have q: "?q \<in> set (dn_msgs s)" and t: "t = s\<lparr>dn_msgs := remove1 ?q (dn_msgs s),
      dn_resets := (if gives_up (dn_state s i) then [i] else []) @ dn_resets s\<rparr>"
    using assms(2) by (simp_all split: if_splits)
  from one_question [OF assms(1) q] show ?thesis
    using q unfolding orderly_at_def t by (auto simp: gives_up_def)
qed

lemma orderly_granted:
  assumes "orderly_at n s i" and "dine n timely (HearsNo i j et) s = Some t"
  shows "orderly_at n t i"
proof -
  let ?q = "(j, i, No)"
  have q: "?q \<in> set (dn_msgs s)" and t: "t = s\<lparr>dn_msgs := remove1 ?q (dn_msgs s),
      dn_state := (dn_state s)(i := gets_fork et (dn_state s i))\<rparr>"
    using assms(2) by (simp_all split: if_splits)
  from one_question [OF assms(1) q] show ?thesis
    using q unfolding orderly_at_def t by simp
qed

lemma orderly_step:
  assumes "orderly n s" and "dine n True act s = Some t"
  shows "orderly n t"
proof -
  let ?i = "actor act"
  have i: "orderly_at n s ?i"
    using assms(1) by (simp add: orderly_def)
  have "orderly_at n t ?i"
  proof (cases act)
    case (BecomesHungry i)
    then show ?thesis
      using assms(2) i by (intro quiet_orderly) (auto simp: orderly_at_def open_questions_0 split: if_splits)
  next
    case (BecomesThinker i)
    then show ?thesis
      using assms(2) i by (intro quiet_orderly) (auto simp: orderly_at_def open_questions_0 split: if_splits)
  next
    case (Chooses i)
    then show ?thesis
      using assms(2) i by (intro quiet_orderly) (auto simp: orderly_at_def split: if_splits ph_state.splits)
  next
    case (AskFails i)
    then show ?thesis
      using assms(2) i by (intro quiet_orderly) (auto simp: orderly_at_def split: if_splits loop_pc.splits)
  next
    case (Asks i)
    then show ?thesis
      using assms(2) i by (auto simp: orderly_at_def open_questions_0 split: if_splits loop_pc.splits)
  next
    case (Answers j i)
    then show ?thesis
      using orderly_answer [of n s i True j t] i assms(2) by simp
  next
    case (HearsYes i j d)
    then show ?thesis
      using orderly_refused [of n s i True j d t] i assms(2) by simp
  next
    case (GivesUp i)
    then show ?thesis
      using assms(2) i last_reset [of n s i]
      by (intro quiet_orderly) (auto simp del: open_questions_simps split: if_splits)
  next
    case (HearsNo i j et)
    then show ?thesis
      using orderly_granted [of n s i True j et t] i assms(2) by simp
  qed (use assms(2) i in \<open>auto simp: orderly_at_def split: if_splits ph_state.splits loop_pc.splits\<close>)
  moreover have "orderly_at n t k" if "k \<noteq> ?i" for k
    using orderly_other [OF assms(2)] assms(1) that by (auto simp: orderly_def)
  ultimately show ?thesis
    unfolding orderly_def by (metis (full_types))
qed


text \<open>A thinker claims no fork, and only the answer of a thinker adds a claim.\<close>

lemma thinker_claims_nothing:
  "dn_state s i = Thinking \<Longrightarrow> \<not> claims_left s i \<and> \<not> claims_right s i"
  by (simp add: claims_left_def claims_right_def)

definition claims_within :: "dinner \<Rightarrow> dinner \<Rightarrow> nat \<Rightarrow> bool" where
  "claims_within t s i \<longleftrightarrow> (claims_left t i \<longrightarrow> claims_left s i) \<and> (claims_right t i \<longrightarrow> claims_right s i)"

lemma claims_within_same:
  assumes "dn_state t i = dn_state s i" and "\<And>j. (j, i, No) \<in> set (dn_msgs t) \<Longrightarrow> (j, i, No) \<in> set (dn_msgs s)"
  shows "claims_within t s i"
  using assms unfolding claims_within_def claims_left_def claims_right_def by auto

lemma claims_shrink:
  assumes "orderly n s" and "dine n True act s = Some t" and "\<And>j i. act = Answers j i \<Longrightarrow> dn_state s j \<noteq> Thinking"
  shows "claims_within t s k"
proof (cases act)
  case (BecomesHungry i)
  have "orderly_at n s i" using assms(1) by (simp add: orderly_def)
  then have "(j, i, No) \<notin> set (dn_msgs s)" for j
    using one_question(2) [of n s i "(j, i, No)"] assms(2) BecomesHungry by (auto simp: orderly_at_def split: if_splits)
  then show ?thesis
    using assms(2) BecomesHungry
    by (cases "k = i") (auto simp: claims_within_def claims_left_def claims_right_def split: if_splits)
next
  case (HearsNo i j et)
  let ?q = "(j, i, No)"
  have q: "?q \<in> set (dn_msgs s)" and t: "t = s\<lparr>dn_msgs := remove1 ?q (dn_msgs s),
      dn_state := (dn_state s)(i := gets_fork et (dn_state s i))\<rparr>"
    using assms(2) HearsNo by (simp_all split: if_splits)
  have "orderly_at n s i" using assms(1) by (simp add: orderly_def)
  note q1 = one_question(2,3) [OF this q]
  show ?thesis
  proof (cases "k = i")
    case True
    then show ?thesis
      using q q1 t by (auto simp: claims_within_def claims_left_def claims_right_def gets_fork_def split: if_splits)
  qed (use t in \<open>auto intro!: claims_within_same dest: remove1_mem\<close>)
next
  case (Answers j i)
  then show ?thesis
    using assms(2,3) by (auto intro!: claims_within_same dest: remove1_mem split: if_splits)
next
  case (HearsYes i j d)
  then show ?thesis
    using assms(2) by (auto intro!: claims_within_same dest: remove1_mem split: if_splits)
qed (use assms(2) in \<open>auto simp: claims_within_def claims_left_def claims_right_def
    split: if_splits ph_state.splits loop_pc.splits\<close>)


lemma exclusive_step:
  assumes "orderly n s" and "exclusive n s" and "dine n True act s = Some t"
  shows "exclusive n t"
proof (cases "\<exists>j i. act = Answers j i \<and> dn_state s j = Thinking")
  case False
  then have within: "claims_within t s k" for k
    using claims_shrink [OF assms(1,3)] by blast
  show ?thesis
    unfolding exclusive_def
  proof (intro allI impI)
    fix i assume "i < n"
    then show "\<not> (claims_right t i \<and> claims_left t (right_of n i))"
      using assms(2) within [of i] within [of "right_of n i"] unfolding exclusive_def claims_within_def by blast
  qed
next
  case True
  then obtain j i where act: "act = Answers j i" and j: "dn_state s j = Thinking" by blast
  let ?q = "(i, j, AreYouUsingTheSharedFork)"
  have q: "?q \<in> set (dn_msgs s)" and t: "t = s\<lparr>dn_msgs := remove1 ?q (dn_msgs s) @ [(j, i, No)]\<rparr>"
    using assms(3) act j by (simp_all split: if_splits)
  have "orderly_at n s i" using assms(1) by (simp add: orderly_def)
  from one_question(1,2) [OF this q] obtain b where i: "i < n" "dn_state s i = Hungry b" "j = asked n i b" by auto
  have other: "claims_within t s k" if "k \<noteq> i" for k
    using that t by (auto intro!: claims_within_same dest: remove1_mem)
  have thinker: "\<not> claims_left t j \<and> \<not> claims_right t j"
    using j t by (intro thinker_claims_nothing) simp
  have claim: "claims_right t i \<longrightarrow> b" "claims_left t i \<longrightarrow> b \<longrightarrow> claims_left s i"
    using i(2) t by (auto simp: claims_right_def claims_left_def)
  have "\<not> (claims_right t k \<and> claims_left t (right_of n k))" if "k < n" for k
  proof (cases "k = i")
    case True
    then show ?thesis
      using thinker claim(1) i(3) by (auto simp: asked_def)
  next
    case k: False
    show ?thesis
    proof (cases "right_of n k = i")
      case True
      then have "left_of n i = k"
        using left_right_of [OF that] by simp
      then show ?thesis
        using True thinker claim(2) i(3) other [OF k] assms(2) that
        by (cases b) (auto simp: asked_def claims_within_def exclusive_def)
    next
      case False
      then show ?thesis
        using other [OF k] other [OF False] assms(2) that by (auto simp: claims_within_def exclusive_def)
    qed
  qed
  then show ?thesis
    by (simp add: exclusive_def)
qed

lemma exclusive_start: "exclusive n dinner_start"
  by (simp add: exclusive_def claims_right_def dinner_start_def)

interpretation table: invariant_system "\<lambda>s. s = dinner_start" "dine_step n True" "\<lambda>s. orderly n s \<and> exclusive n s"
  by unfold_locales
    (auto simp: dine_step_def intro: orderly_start exclusive_start orderly_step exclusive_step)

section \<open>Properties\<close>

text \<open>C39: If every answer arrives before the next question is asked, two neighbours never eat at the same
  time, whatever the interleaving and the order of delivery.\<close>

theorem neighbours_exclude:
  assumes "(dine_step n True)\<^sup>*\<^sup>* dinner_start s" and "i < n" and "dn_state s i = Eating t"
  shows "dn_state s (right_of n i) \<noteq> Eating t'"
proof -
  have "exclusive n s"
    using table.inv_reachable [OF refl assms(1)] ..
  with assms(2,3) show ?thesis
    by (auto simp: exclusive_def claims_right_def claims_left_def)
qed

text \<open>The run of the late dinner, up to the point where philosopher 1 eats.\<close>

lemma timely_dinner_run:
  "\<exists>t. dine_run 5 True (take 10 late_dinner) dinner_start = Some t \<and> dn_state t 1 = Eating 500"
  by (simp add: late_dinner_def dinner_start_def asked_def left_of_def right_of_def gets_fork_def
      MIN_EATING_TIME_MS_def MAX_EATING_TIME_MS_def)

theorem neighbours_exclude_witness:
  "\<exists>s. (dine_step 5 True)\<^sup>*\<^sup>* dinner_start s \<and> dn_state s 1 = Eating 500 \<and> dn_state s 2 \<noteq> Eating 500"
proof -
  obtain s where s: "dine_run 5 True (take 10 late_dinner) dinner_start = Some s" "dn_state s 1 = Eating 500"
    using timely_dinner_run by blast
  note r = dine_run_steps [OF s(1)]
  have "right_of 5 1 = 2" by (simp add: right_of_def)
  with neighbours_exclude [OF r _ s(2), of 500] r s(2) show ?thesis
    by auto
qed


end
