(* ===== verification/Demos.thy ===== *)
theory Demos
  imports Wire Writing
begin

text \<open>
  The message handlers and codecs of the smaller programs under \<open>examples/examples\<close>: the one-byte
  battle cries of \<open>fixed_length_crusaders.rs\<close>, the players of \<open>telephone_game.rs\<close>, the dialogue of
  \<open>hapsburgs_plan_b.rs\<close>, the beacons of \<open>lan_discovery.rs\<close>, the completion counters of \<open>dense_mesh.rs\<close>
  and \<open>c100k.rs\<close>, and the game of \<open>hot_potato_game.rs\<close>. Random choices and the iteration order of
  hash maps are arguments; \<open>None\<close> is a panic.
\<close>

section \<open>Battle cries\<close>

datatype battle_cry = Ora | Muda

fun cry_code :: "battle_cry \<Rightarrow> byte" where
  "cry_code Ora = 0"
| "cry_code Muda = 1"

definition cry_try_from :: "byte \<Rightarrow> battle_cry io_result" where
  "cry_try_from b =
     (if b = 0 then Inr Ora else if b = 1 then Inr Muda else Inl (IoError InvalidData NoPayload))"

fun cry_decode :: "(unit, battle_cry) stream_decoder" where
  "cry_decode u [] = (Inr None, u, [])"
| "cry_decode u (b # src) = (map_sum id Some (cry_try_from b), u, src)"

definition cry_encode :: "(unit, battle_cry) encoder" where
  "cry_encode u item = (Inr [cry_code item], u)"

fun cry_reply :: "battle_cry \<Rightarrow> battle_cry" where
  "cry_reply Ora = Muda"
| "cry_reply Muda = Ora"

text \<open>\<open>process_message\<close>: the reply is queued if it can be, and its delivery awaited.\<close>

definition cry_process ::
  "(battle_cry wrapped_message, 'ch) chan_ops \<Rightarrow> nat \<Rightarrow> nat \<Rightarrow> socket_addr \<Rightarrow> battle_cry \<Rightarrow> 'sem node
     \<Rightarrow> 'ch channels \<Rightarrow> 'ch channels option" where
  "cry_process ops ty k source cry n chans = map_option snd (unicast ops ty k source (cry_reply cry) n chans)"

interpretation cry_stream: stream_codec cry_encode cry_decode "\<lambda>_ _. True"
proof unfold_locales
  show "\<exists>d'. cry_decode d (bs @ rest) = (Inr (Some m), d', rest) \<and> True"
    if "cry_encode e m = (Inr bs, e')" for e d m bs e' rest
    using that by (cases m) (auto simp: cry_encode_def cry_try_from_def)
qed

text \<open>Any sequence of cries is read back, and a byte that is none is refused.\<close>

lemma cries_roundtrip:
  "encode_all cry_encode () ms = (Inr bs, u)
     \<Longrightarrow> decode_upto cry_decode (length ms) () (bs @ rest) = (ms, (), rest)"
  using cry_stream.decodes_all [where d = "()" and ms = ms and bs = bs and rest = rest] by auto

lemma cry_refused: "1 < b \<Longrightarrow> cry_decode () (b # src) = (Inl (IoError InvalidData NoPayload), (), src)"
  by (auto simp: cry_try_from_def)

section \<open>The telephone game\<close>

text \<open>What a player makes of a message: with the given random index and letter, or as it is.\<close>

definition telephone_bork :: "(nat \<times> byte) option \<Rightarrow> byte list \<Rightarrow> byte list option" where
  "telephone_bork change message =
     (case change of
        None \<Rightarrow> Some message
      | Some (idx, changed_char) \<Rightarrow>
          if message = [] then None else from_utf8 (message[idx := changed_char]))"

text \<open>\<open>process_message\<close>; \<open>addrs\<close> are the connected addresses, and the delivery of the message that is
  passed on succeeds or panics.\<close>

definition telephone_process ::
  "(byte list wrapped_message, 'ch) chan_ops \<Rightarrow> nat \<Rightarrow> nat \<Rightarrow> (string \<Rightarrow> nat option) \<Rightarrow> (nat \<times> byte) option
     \<Rightarrow> (nat \<Rightarrow> bool) \<Rightarrow> socket_addr list \<Rightarrow> socket_addr \<Rightarrow> byte list \<Rightarrow> 'sem node \<Rightarrow> 'ch channels \<Rightarrow> 'ch channels option"
where
  "telephone_process ops ty k parse change delivered addrs source message n chans =
     (case node_name n of
        None \<Rightarrow> None
      | Some name \<Rightarrow>
          (case parse name of
             None \<Rightarrow> None
           | Some own_id \<Rightarrow>
               (case telephone_bork change message of
                  None \<Rightarrow> None
                | Some message' \<Rightarrow>
                    (case List.find (\<lambda>addr. addr \<noteq> source) addrs of
                       None \<Rightarrow> Some chans
                     | Some addr \<Rightarrow>
                         (case unicast ops ty k addr message' n chans of
                            Some (Inr delivery, chans') \<Rightarrow> if delivered delivery then Some chans' else None
                          | _ \<Rightarrow> None)))))"

lemma ascii_valid: "\<forall>b \<in> set bs. b < 0x80 \<Longrightarrow> valid_utf8 bs"
  by (induction bs) simp_all

text \<open>A message of ASCII characters survives every change with its length, and remains one.\<close>

lemma telephone_ascii:
  assumes "\<forall>b \<in> set message. b < 0x80" and "message \<noteq> []"
    and "\<And>idx c. change = Some (idx, c) \<Longrightarrow> idx < length message \<and> 0x61 \<le> c \<and> c \<le> 0x7A"
  shows "\<exists>message'. telephone_bork change message = Some message' \<and> length message' = length message
    \<and> (\<forall>b \<in> set message'. b < 0x80)"
proof (cases change)
  case (Some ic)
  obtain idx c where ic: "ic = (idx, c)" by (cases ic)
  have "c \<le> 0x7A" using assms(3) Some ic by blast
  then have "c < 0x80" by (rule le_less_trans) simp
  then have ascii: "\<forall>b \<in> set (message[idx := c]). b < 0x80"
    using assms(1) set_update_subset_insert [of message idx c] by blast
  then show ?thesis
    using assms(2) Some ic ascii_valid [OF ascii] by (simp add: telephone_bork_def from_utf8_def)
qed (use assms(1) in \<open>simp add: telephone_bork_def\<close>)

text \<open>One letter in the middle of a longer character is enough for a panic.\<close>

lemma telephone_panics: "telephone_bork (Some (0, 0x61)) [0xC3, 0xA9] = None"
  by (simp add: telephone_bork_def from_utf8_def)

section \<open>Plan B\<close>

text \<open>The reply of \<open>process_message\<close>, from the own name and the number of messages sent so far.\<close>

definition plan_b_reply :: "string \<Rightarrow> nat \<Rightarrow> string \<Rightarrow> string option" where
  "plan_b_reply name sent message =
     (if name = ''Drebin'' then if message = ''...'' then None else Some ''Where?''
      else if sent = 0 then Some ''Hapsburg has Plan B in...''
      else Some ''...'')"

text \<open>The dialogue of the two: what is said from a message on, the receiver first.\<close>

fun dialogue :: "nat \<Rightarrow> string \<Rightarrow> nat \<Rightarrow> string \<Rightarrow> nat \<Rightarrow> string \<Rightarrow> string list" where
  "dialogue 0 listener heard speaker said message = []"
| "dialogue (Suc fuel) listener heard speaker said message =
     (case plan_b_reply listener heard message of
        None \<Rightarrow> []
      | Some reply \<Rightarrow> reply # dialogue fuel speaker said listener (Suc heard) reply)"

text \<open>It ends after three replies, however long one waits.\<close>

lemma dialogue_ends:
  assumes "thug \<noteq> ''Drebin''" and "message \<noteq> ''...''" and "4 \<le> fuel"
  shows "dialogue fuel thug 0 ''Drebin'' 1 message = [''Hapsburg has Plan B in...'', ''Where?'', ''...'']"
proof -
  obtain k where "fuel = 4 + k"
    using assms(3) le_Suc_ex by blast
  then have "fuel = Suc (Suc (Suc (Suc k)))" by simp
  then show ?thesis
    using assms(1,2) by (simp add: plan_b_reply_def)
qed

section \<open>Discovery beacons\<close>

definition DISCOVERY_PORT_RANGE :: "u16 list" where
  "DISCOVERY_PORT_RANGE = map of_nat [8590 ..< 8600]"

definition MAGIC_BYTES :: "byte list" where
  "MAGIC_BYTES = bstr ''PEA2PEA_DISCO''"

text \<open>The first port of the range that can be bound (\<open>None\<close>: the \<open>expect\<close> after the loop panics), the
  beacon, and the ports it is sent to.\<close>

definition bind_discovery :: "(u16 \<Rightarrow> bool) \<Rightarrow> u16 option" where
  "bind_discovery can_bind = List.find can_bind DISCOVERY_PORT_RANGE"

definition discovery_beacon :: "u16 \<Rightarrow> byte list" where
  "discovery_beacon tcp_port = MAGIC_BYTES @ be_bytes 2 (unat tcp_port)"

definition beacon_targets :: "u16 \<Rightarrow> u16 list" where
  "beacon_targets my_discovery_port = filter (\<lambda>p. p \<noteq> my_discovery_port) DISCOVERY_PORT_RANGE"

text \<open>What the listener makes of a packet: the address to connect to, if any.\<close>

definition discovered_peer :: "u16 \<Rightarrow> byte list \<Rightarrow> socket_addr \<Rightarrow> socket_addr option" where
  "discovered_peer tcp_port data remote_addr =
     (if length data < length MAGIC_BYTES + 2 then None
      else if take (length MAGIC_BYTES) data \<noteq> MAGIC_BYTES then None
      else
        (case get_be 2 (drop (length MAGIC_BYTES) data) of
           None \<Rightarrow> None
         | Some (port, _) \<Rightarrow>
             if of_nat port = tcp_port then None else Some (sa_from (sa_ip remote_addr) (of_nat port))))"

text \<open>The rest of the listener's turn: a peer that is neither connected nor being connected is dialled
  and greeted.\<close>

definition discovery_turn ::
  "(byte list wrapped_message, 'ch) chan_ops \<Rightarrow> nat \<Rightarrow> bool \<Rightarrow> 'sem sem_ops \<Rightarrow> 'sem handlers \<Rightarrow> nat
     \<Rightarrow> (socket_addr \<Rightarrow> stream io_result timed) \<Rightarrow> u16 \<Rightarrow> byte list \<Rightarrow> socket_addr \<Rightarrow> u64 \<Rightarrow> 'sem node \<Rightarrow> 'ch channels
     \<Rightarrow> ('sem node \<times> u64 \<times> 'ch channels) option" where
  "discovery_turn ops ty debug sem hs now dial tcp_port data remote_addr next_id n chans =
     (case discovered_peer tcp_port data remote_addr of
        None \<Rightarrow> Some (n, next_id, chans)
      | Some addr \<Rightarrow>
          if is_connected n addr \<or> is_connecting n addr then Some (n, next_id, chans)
          else
            (case connect debug sem hs now dial addr next_id n of
               None \<Rightarrow> None
             | Some (Inl _, n', next_id') \<Rightarrow> Some (n', next_id', chans)
             | Some (Inr _, n', next_id') \<Rightarrow>
                 Some (n', next_id', snd (unicast_fast ops ty addr (bstr ''I see you!'') n' chans))))"

lemma length_MAGIC_BYTES [simp]: "length MAGIC_BYTES = 13"
  by (simp add: MAGIC_BYTES_def bstr_def)

text \<open>A beacon is understood by every node with another TCP port, and never by one with the same port,
  on whatever host it runs.\<close>

lemma beacon_discovered:
  "discovered_peer own (discovery_beacon p) remote
     = (if p = own then None else Some (sa_from (sa_ip remote) p))"
proof -
  have "get_be 2 (be_bytes 2 (unat p)) = Some (unat p, [])"
    using get_be_put [of 2 "unat p" "[]"] unsigned_less [where 'a = nat and w = p] by simp
  then show ?thesis
    by (simp add: discovered_peer_def discovery_beacon_def del: be_bytes.simps)
qed

lemma discovered_only_beacons:
  assumes "discovered_peer own data remote = Some addr"
  shows "\<exists>p rest. data = discovery_beacon p @ rest \<and> p \<noteq> own \<and> addr = sa_from (sa_ip remote) p"
proof -
  obtain port rest where p: "take 13 data = MAGIC_BYTES" "get_be 2 (drop 13 data) = Some (port, rest)"
      "of_nat port \<noteq> own" "addr = sa_from (sa_ip remote) (of_nat port)"
    using assms by (auto simp: discovered_peer_def split: if_splits option.splits)
  have "drop 13 data = be_bytes 2 port @ rest" "port < 256 ^ 2"
    using p(2) unfolding get_be_Some by blast+
  moreover from this(2) have "unat (of_nat port :: u16) = port"
    by (simp add: unsigned_of_nat take_bit_eq_mod)
  ultimately have "data = discovery_beacon (of_nat port) @ rest"
    using p(1) append_take_drop_id [of 13 data] by (simp add: discovery_beacon_def)
  with p(3,4) show ?thesis by blast
qed

section \<open>Completion counters\<close>

text \<open>A message of the dense mesh, or a connection of the sharded server, against the target: the new
  count and whether the waiting task is woken.\<close>

definition mesh_process :: "nat \<Rightarrow> nat \<Rightarrow> nat \<times> bool" where
  "mesh_process target_count total_received = (total_received + 1, total_received + 1 = target_count)"

definition TARGET_CONNS :: nat where
  "TARGET_CONNS = 100000"

definition shard_on_connect :: "nat \<Rightarrow> nat \<times> bool" where
  "shard_on_connect seen = (seen + 1, seen + 1 = TARGET_CONNS)"

fun tally :: "(nat \<Rightarrow> nat \<times> bool) \<Rightarrow> nat \<Rightarrow> nat \<Rightarrow> nat \<times> nat" where
  "tally f 0 seen = (seen, 0)"
| "tally f (Suc k) seen =
     (case f seen of (seen', wakes) \<Rightarrow>
       (case tally f k seen' of (seen'', woken) \<Rightarrow> (seen'', (if wakes then 1 else 0) + woken)))"

text \<open>The waiting task is woken once, with the event that reaches the target.\<close>

lemma mesh_tally:
  "tally (mesh_process target) k seen = (seen + k, if seen < target \<and> target \<le> seen + k then 1 else 0)"
  by (induction k arbitrary: seen) (auto simp: mesh_process_def)

lemma shard_tally: "tally shard_on_connect k 0 = (k, if TARGET_CONNS \<le> k then 1 else 0)"
proof -
  have "shard_on_connect = mesh_process TARGET_CONNS"
    by (rule ext) (simp add: shard_on_connect_def mesh_process_def)
  then show ?thesis
    using mesh_tally [of TARGET_CONNS k 0] by (simp add: TARGET_CONNS_def)
qed


section \<open>The hot potato\<close>

record player_info =
  pi_addr :: socket_addr
  pi_is_carrier :: bool

type_synonym players = "(string \<times> player_info) list"

datatype potato_message = HotPotato | IHaveThePotato string

record ('sem, 'ch) player =
  pl_node :: "'sem node"
  pl_chans :: "'ch channels"
  pl_other_players :: players
  pl_potato_count :: nat

text \<open>The map of the other players is a list in its iteration order; inserting a player again keeps its
  place.\<close>

definition carriers :: "players \<Rightarrow> string list" where
  "carriers ps = map fst (filter (\<lambda>(_, p). pi_is_carrier p) ps)"

fun clear_first :: "players \<Rightarrow> players" where
  "clear_first [] = []"
| "clear_first ((name, p) # ps) =
     (if pi_is_carrier p then (name, p\<lparr>pi_is_carrier := False\<rparr>) # ps else (name, p) # clear_first ps)"

text \<open>\<open>clear_carrier\<close>; \<open>None\<close> when its assertion fails.\<close>

definition clear_carrier :: "players \<Rightarrow> players option" where
  "clear_carrier ps = (let ps' = clear_first ps in if carriers ps' = [] then Some ps' else None)"

fun set_carrier :: "string \<Rightarrow> players \<Rightarrow> players" where
  "set_carrier carrier [] = []"
| "set_carrier carrier ((name, p) # ps) =
     (if name = carrier then (name, p\<lparr>pi_is_carrier := True\<rparr>) # ps else (name, p) # set_carrier carrier ps)"

fun insert_player :: "string \<Rightarrow> player_info \<Rightarrow> players \<Rightarrow> players" where
  "insert_player name info [] = [(name, info)]"
| "insert_player name info ((name', p) # ps) =
     (if name' = name then (name, info) # ps else (name', p) # insert_player name info ps)"

text \<open>The end of \<open>perform_handshake\<close>, with the name that was received.\<close>

definition potato_handshake_done ::
  "connection \<Rightarrow> string \<Rightarrow> ('sem, 'ch) player \<Rightarrow> ('sem, 'ch) player" where
  "potato_handshake_done conn peer_name d = d\<lparr>pl_other_players :=
     insert_player peer_name \<lparr>pi_addr = conn_addr conn, pi_is_carrier = False\<rparr> (pl_other_players d)\<rparr>"

text \<open>\<open>throw_potato\<close>: everyone connected is told, then a random player gets the potato; \<open>choice\<close> is its
  position in the iteration order, and an error of the last call panics.\<close>

definition announce ::
  "(potato_message wrapped_message, 'ch) chan_ops \<Rightarrow> nat \<Rightarrow> string \<Rightarrow> socket_addr list \<Rightarrow> 'sem node
     \<Rightarrow> 'ch channels \<Rightarrow> 'ch channels" where
  "announce ops ty name peers n chans =
     fold (\<lambda>addr c. snd (unicast_fast ops ty addr (IHaveThePotato name) n c)) peers chans"

definition throw_potato ::
  "(potato_message wrapped_message, 'ch) chan_ops \<Rightarrow> nat \<Rightarrow> nat \<Rightarrow> (nat \<Rightarrow> nat) \<Rightarrow> socket_addr list
     \<Rightarrow> ('sem, 'ch) player \<Rightarrow> ('sem, 'ch) player option" where
  "throw_potato ops ty k choice peers d =
     (case node_name (pl_node d) of
        None \<Rightarrow> None
      | Some name \<Rightarrow>
          (let chans1 = announce ops ty name peers (pl_node d) (pl_chans d); others = pl_other_players d in
           if others = [] then None
           else
             (case unicast ops ty k (pi_addr (snd (others ! choice (length others)))) HotPotato (pl_node d) chans1 of
                Some (Inr _, chans2) \<Rightarrow> Some (d\<lparr>pl_chans := chans2\<rparr>)
              | _ \<Rightarrow> None)))"

definition potato_process ::
  "(potato_message wrapped_message, 'ch) chan_ops \<Rightarrow> nat \<Rightarrow> nat \<Rightarrow> (nat \<Rightarrow> nat) \<Rightarrow> socket_addr list
     \<Rightarrow> potato_message \<Rightarrow> ('sem, 'ch) player \<Rightarrow> ('sem, 'ch) player option" where
  "potato_process ops ty k choice peers message d =
     (case message of
        HotPotato \<Rightarrow>
          (case clear_carrier (pl_other_players d) of
             None \<Rightarrow> None
           | Some ps \<Rightarrow>
               throw_potato ops ty k choice peers
                 (d\<lparr>pl_other_players := ps, pl_potato_count := pl_potato_count d + 1\<rparr>))
      | IHaveThePotato carrier \<Rightarrow>
          map_option (\<lambda>ps. d\<lparr>pl_other_players := set_carrier carrier ps\<rparr>) (clear_carrier (pl_other_players d)))"

text \<open>Every player knows at most one carrier, so the assertion never fails.\<close>

definition players_ok :: "players \<Rightarrow> bool" where
  "players_ok ps \<longleftrightarrow> length (carriers ps) \<le> 1"

lemma carriers_simps [simp]:
  "carriers [] = []"
  "carriers ((name, p) # ps) = (if pi_is_carrier p then [name] else []) @ carriers ps"
  by (simp_all add: carriers_def)

lemma length_carriers_clear_first: "length (carriers (clear_first ps)) = length (carriers ps) - 1"
  by (induction ps rule: clear_first.induct) auto

lemma clear_carrier_ok: "players_ok ps \<Longrightarrow> \<exists>ps'. clear_carrier ps = Some ps' \<and> carriers ps' = []"
  using length_carriers_clear_first [of ps] by (simp add: clear_carrier_def players_ok_def Let_def)

lemma carriers_set_carrier:
  "carriers ps = [] \<Longrightarrow> carriers (set_carrier c ps) = (if c \<in> fst ` set ps then [c] else [])"
  by (induction c ps rule: set_carrier.induct) (auto split: if_splits)

lemma carriers_insert: "length (carriers (insert_player name (info\<lparr>pi_is_carrier := False\<rparr>) ps)) \<le> length (carriers ps)"
  by (induction name info ps rule: insert_player.induct) auto

lemma throw_potato_players:
  "throw_potato ops ty k choice peers d = Some d' \<Longrightarrow> pl_other_players d' = pl_other_players d"
  by (auto simp: throw_potato_def Let_def split: option.splits sum.splits if_splits)

lemma potato_invariant:
  assumes "players_ok (pl_other_players d)"
  shows "clear_carrier (pl_other_players d) \<noteq> None
    \<and> players_ok (pl_other_players (potato_handshake_done conn peer_name d))
    \<and> (\<forall>d'. potato_process ops ty k choice peers message d = Some d' \<longrightarrow> players_ok (pl_other_players d')
         \<and> (case message of
              HotPotato \<Rightarrow> carriers (pl_other_players d') = [] \<and> pl_potato_count d' = pl_potato_count d + 1
            | IHaveThePotato c \<Rightarrow> set (carriers (pl_other_players d')) \<subseteq> {c} \<and> pl_potato_count d' = pl_potato_count d))"
proof -
  obtain ps where ps: "clear_carrier (pl_other_players d) = Some ps" "carriers ps = []"
    using clear_carrier_ok [OF assms] by blast
  have "players_ok (pl_other_players (potato_handshake_done conn peer_name d))"
    using assms carriers_insert [of peer_name "\<lparr>pi_addr = conn_addr conn, pi_is_carrier = False\<rparr>" "pl_other_players d"]
    by (simp add: potato_handshake_done_def players_ok_def)
  moreover have "players_ok (pl_other_players d') \<and> (case message of
        HotPotato \<Rightarrow> carriers (pl_other_players d') = [] \<and> pl_potato_count d' = pl_potato_count d + 1
      | IHaveThePotato c \<Rightarrow> set (carriers (pl_other_players d')) \<subseteq> {c} \<and> pl_potato_count d' = pl_potato_count d)"
    if "potato_process ops ty k choice peers message d = Some d'" for d'
  proof (cases message)
    case HotPotato
    then have "throw_potato ops ty k choice peers (d\<lparr>pl_other_players := ps, pl_potato_count := pl_potato_count d + 1\<rparr>) = Some d'"
      using that ps by (simp add: potato_process_def)
    then show ?thesis
      using throw_potato_players [of ops ty k choice peers _ d'] ps HotPotato
      by (auto simp: players_ok_def throw_potato_def Let_def split: option.splits sum.splits if_splits)
  next
    case (IHaveThePotato c)
    then show ?thesis
      using that ps by (auto simp: potato_process_def players_ok_def carriers_set_carrier split: if_splits)
  qed
  ultimately show ?thesis
    using ps(1) by simp
qed


section \<open>Shards\<close>

definition SHARDS :: nat where
  "SHARDS = 4"

definition PER_SHARD :: nat where
  "PER_SHARD = (TARGET_CONNS + SHARDS - 1) div SHARDS"

definition PER_SHARD_CAP :: nat where
  "PER_SHARD_CAP = PER_SHARD + 1000"

definition shard_config :: "bool \<Rightarrow> socket_addr \<Rightarrow> nat \<Rightarrow> config" where
  "shard_config test_feature addr idx = (config_default test_feature)\<lparr>
     cfg_name := Some (''shard-'' @ nat_to_string idx),
     cfg_listener_addr := Some addr,
     cfg_reuse_listener_port := True,
     cfg_listener_backlog := of_nat PER_SHARD,
     cfg_max_connections := of_nat PER_SHARD_CAP,
     cfg_max_connections_per_ip := of_nat PER_SHARD_CAP,
     cfg_max_connecting := of_nat PER_SHARD_CAP\<rparr>"

text \<open>The casts of the limits lose nothing, and together the shards hold the target.\<close>

lemma shards_hold_target:
  "max_connections (shard_config tf addr idx) = PER_SHARD_CAP
   \<and> max_connections_per_ip (shard_config tf addr idx) = PER_SHARD_CAP
   \<and> max_connecting (shard_config tf addr idx) = PER_SHARD_CAP
   \<and> TARGET_CONNS \<le> SHARDS * PER_SHARD"
  by (simp add: shard_config_def PER_SHARD_CAP_def PER_SHARD_def SHARDS_def TARGET_CONNS_def)


end
