(* ===== verification/Spec2Isabelle.thy ===== *)
theory Spec2Isabelle
  imports Node_Properties Topology Drain Wiring Kademlia_Properties Libp2p Rendezvous Simple_Rpc Dining Demos
begin

text \<open>
  A verification development for \<open>pea2pea\<close>, a Rust library for peer-to-peer nodes, and for the
  examples that come with it. Paths below are relative to \<open>src/\<close>.

  \<^bold>\<open>The program.\<close> A \<open>Node\<close> (\<open>pea2pea/src/node.rs\<close>) accepts and opens TCP connections. Every connection
  setup takes a permit of the connection-setup budget, reserves its address in the set of pending
  ones, and charges its IP (\<open>pea2pea/src/connections.rs\<close>); it then passes the stream through the
  enabled protocols (\<open>pea2pea/src/protocols/\<close>): \<open>Handshake\<close>, \<open>Reading\<close> and \<open>Writing\<close>, each with a
  handler task that serves setup requests over a channel; and it ends with the connection in the
  active set and the \<open>OnConnect\<close> hook triggered. A disconnect claims a connection, runs
  \<open>OnDisconnect\<close>, and removes it through a finalizer that also acts when the call is cancelled.
  \<open>shut_down\<close> closes the active set, disconnects everybody, waits for the last removal, and winds
  the handlers down. All of this runs in concurrent tasks that can be cancelled at every await.

  \<^bold>\<open>Conventions.\<close> The integers of the source keep their width where it matters (\<open>u16\<close>, \<open>u32\<close>, \<open>u64\<close>
  are words, sizes are natural numbers with the overflow written out). \<open>io::Result\<close> is \<open>io_result\<close>,
  a sum with the \<open>io::Error\<close> on the left. A panic is \<open>None\<close>; \<open>debug\<close> says whether debug assertions
  are compiled in. \<open>HashMap\<close> and \<open>HashSet\<close> are finite maps and sets, or a list of pairs where the
  order of iteration can be seen. \<open>tokio::time::timeout\<close> gives \<open>Elapsed\<close> or \<open>Completed\<close>. Code outside
  \<open>src/\<close> is an argument of the definitions that use it, with a predicate that states its documented
  behaviour and a concrete instance that satisfies it: the semaphore (\<open>semaphore_contract\<close>,
  \<open>nat_sem\<close>), the channels (\<open>channel_contract\<close>, \<open>list_chan\<close>), the framed writer (\<open>framed_contract\<close>,
  \<open>list_framed\<close>), the length-delimited codec (\<open>ld_contract\<close>, \<open>ld_prefix\<close>), \<open>postcard\<close>
  (\<open>serializer_contract\<close>), the Noise library (\<open>snow_contract\<close>, \<open>xx_contract\<close>, \<open>toy_snow\<close>), and the
  framed stream of a handshake (\<open>framed_rw_contract\<close>, \<open>greedy_rw\<close>). What the user of the library
  supplies (\<open>perform_handshake\<close>, the codecs, \<open>process_message\<close>, the hooks) is an argument as well.

  \<^bold>\<open>The library, theory by theory.\<close>

  \<^item> \<open>Prelude\<close>: words, addresses and canonical IPs, errors, counting in finite maps.
  \<^item> \<open>Contracts\<close>: the interfaces as locales, with their client lemmas. \<open>invariant_system\<close> is a step
    relation with an invariant (interpreted as \<open>node_sys\<close>, \<open>drain_sys\<close>, \<open>dht_sys\<close>, \<open>rpc_sys\<close> and
    \<open>table\<close>); \<open>ledger\<close> is an account per key (\<open>lim\<close>); \<open>reservation\<close> a set entered and left
    (\<open>pending\<close>); \<open>commuting_counters\<close> counters that may be bumped in any order (\<open>stats_counters\<close>,
    \<open>heuristics_counters\<close>). The locales \<open>draining_loop\<close> of \<open>Protocols\<close> (\<open>setup_loop\<close>, \<open>hook_loop\<close>)
    and \<open>stream_codec\<close> of \<open>Wire\<close> (\<open>simple_stream\<close>, \<open>postcard_stream\<close>, \<open>noise_stream\<close>,
    \<open>cry_stream\<close>) stand with the components that introduce them.
  \<^item> \<open>Config\<close>, \<open>Stats\<close>, \<open>Heuristics\<close>: the files of the same names; the defaults, and that concurrent
    registrations add up whatever their order.
  \<^item> \<open>Connections\<close> (\<open>connections.rs\<close>): \<open>Connection\<close>, the active and the pending set, the charges per
    IP, \<open>ConnectionGuard\<close>, and the exact balance any history of charges ends in.
  \<^item> \<open>Topology\<close> (\<open>topology.rs\<close>): \<open>connect_nodes\<close> for every topology. The retry loop of the random one
    is a partial function, proved to return.
  \<^item> \<open>Node\<close> (\<open>node.rs\<close>): the lock-protected sections one by one, and every call (\<open>new\<close>,
    \<open>toggle_listener\<close>, \<open>connect\<close>, \<open>handle_connection_request\<close>, \<open>adapt_stream\<close>, \<open>disconnect\<close>,
    \<open>shut_down\<close>, the accept loop, the queries) as the straight-line composition of them.
  \<^item> \<open>Node_System\<close>: the same sections as the steps (\<open>node_step\<close>) of any number of setups,
    scheduling tasks, disconnects and shutdowns; a step may also cancel a task between two sections.
  \<^item> \<open>Node_Invariants\<close>, \<open>Node_Shutdown\<close>: the invariants of the system, one preservation lemma each.
    \<open>Node_Runs\<close>: the straight-line calls are schedules of the system. \<open>Node_Liveness\<close>: from every
    reachable state claimed disconnects and shutdowns can be finished.
  \<^item> \<open>Node_Properties\<close>: the properties of the node. The configured limits hold in every interleaving; charges,
    permits and pending addresses are exact and nothing leaks; no assertion fails; a connection is
    claimed and hooked at most once and has one owner while it goes down; a shutdown ends, leaves
    nothing behind and refuses new work; the calls refine the system.
  \<^item> \<open>Drain\<close> (\<open>wait_for_drain\<close> of \<open>node.rs\<close>): no wakeup is lost.
  \<^item> \<open>Protocols\<close> (\<open>protocols/mod.rs\<close>): the handler loops against concurrent senders and the shutdown
    signal, installation, \<open>DisconnectOnDrop\<close>, and the catching of panics.
  \<^item> \<open>Handshake\<close>, \<open>Reading\<close>, \<open>Writing\<close>, \<open>Hooks\<close> (the other files of \<open>protocols/\<close>): the setup of a
    connection; the reader and the processing task with their bounded queue, with and without
    backpressure; the counting codec; queueing, broadcasting, the batching writer, the senders and
    their cleanup; the hooks on each of their outcomes. \<open>Wiring\<close> plugs the handlers into
    \<open>adapt_stream\<close>.
  \<^item> \<open>Wire\<close> (\<open>examples/src/lib.rs\<close>), \<open>Yamux\<close> (\<open>yamux.rs\<close>), \<open>Noise\<close> and \<open>Noise_Handshake\<close> (\<open>noise.rs\<close>,
    \<open>examples/noise_handshake.rs\<close>): the codecs of the examples with their round trips, the XX
    handshake, and that two nodes that complete it can talk.
  \<^item> \<open>Libp2p\<close> (\<open>examples/libp2p.rs\<close>): the handshake with both negotiations, the streams, the events
    and their replies. \<open>Kademlia\<close> and \<open>Kademlia_Properties\<close> (\<open>kademlia_dht.rs\<close>): the whole node;
    lookups end and return the nearest contacts. \<open>Rendezvous\<close> (\<open>hole_punching.rs\<close>),
    \<open>Simple_Rpc\<close> (\<open>simple_rpc.rs\<close>), \<open>Dining\<close> (\<open>dining_philosophers.rs\<close>, as interleaved steps).
  \<^item> \<open>Demos\<close>: the handlers of the smaller examples: \<open>fixed_length_crusaders.rs\<close>,
    \<open>telephone_game.rs\<close>, \<open>hapsburgs_plan_b.rs\<close>, \<open>lan_discovery.rs\<close>, \<open>dense_mesh.rs\<close>, \<open>c100k.rs\<close>,
    \<open>hot_potato_game.rs\<close>.

  \<^bold>\<open>Bounds and fuel.\<close> Connection identifiers wrap at \<open>2 ^ 64\<close>, and what is said of identities is stated
  for runs that create fewer connection objects. The topologies are treated for up to \<open>2 ^ 63\<close> nodes. The \<open>fuel\<close> of \<open>feed_messages\<close> is no
  device of the model but the number of waits the write timeout lets pass, so running out of it is
  the timeout of the source. \<open>dialogue\<close> of \<open>Demos\<close> takes fuel, and four turns are shown to be
  enough. The lookup loops of \<open>Kademlia\<close> are total: every round asks a contact not asked before, of
  which there are finitely many identifiers. Runs of the step relations have any length.

  \<^bold>\<open>What modelling showed.\<close> The model follows the code where it departs from its intention, and the
  theorems say so: a late answer lets two neighbouring philosophers eat at once (\<open>Dining\<close>); the Noise
  handshake loses the bytes read with its last message (\<open>Noise_Handshake\<close>); a timed-out call keeps its table entry
  (\<open>Simple_Rpc\<close>); a libp2p frame within the limit of a Noise message but not within that limit less its tag is
  not sent (\<open>Noise\<close>); the sender of a connection is removed by its own cleanup only, but a late insertion
  is not checked (\<open>Writing\<close>).

  \<^bold>\<open>Not modelled.\<close> Logging and spans, which do not feed back into the state; \<open>pea2pea/src/lib.rs\<close>,
  which re-exports; the bytes of TCP itself and the sockets, which appear as the outcomes of the calls
  on them; memory order beyond the sequential consistency of lock sections and of single counters
  (each relaxed counter is only ever added to and read). Of the examples: the \<open>main\<close> functions, which
  drive demonstrations over real sockets; \<open>rate_limiting.rs\<close>, a decision in floating point over
  measured times; \<open>tls.rs\<close>, whose handshake is a call of a TLS library; \<open>churn_stress.rs\<close> and
  \<open>c10k.rs\<close>, which open sockets in a loop and print figures; in \<open>examples/src/lib.rs\<close> the logger and
  the polling helpers. The tests and benchmarks define no behaviour of their own; of \<open>test-utils\<close> the
  consistency check is modelled (\<open>assert_consistent\<close>).
\<close>

end
